(* ===== verification/Prelude.thy ===== *)
theory Prelude
  imports Main "HOL-Library.Word" "HOL-Library.Monad_Syntax"
begin

unbundle bit_operations_syntax

text \<open>
  The shared vocabulary of the development: machine integers, the two kinds of failure of the
  C code, the byte-addressed memory the page tables live in, and the generic lemmas on words,
  options and memory that the component theories use.

  Conventions. The model is the \<^verbatim>\<open>amd64\<close> build: \<open>size_t\<close>, \<open>uintptr_t\<close> and pointers are
  64 bits wide, the null pointer is \<open>0\<close>, and the C run-time checks are active (\<open>assert\<close>
  without \<open>NDEBUG\<close>). A computation has type \<open>'a exec\<close>: \<open>None\<close> says that
  control does not come back to the caller with a defined value, because an \<open>assert\<close>, an
  \<open>EU_VERIFY\<close> or a \<open>HALT_ON_ERRORCOND\<close> failed, or because C leaves the
  operation undefined (an index outside an array, a shift by an amount outside the word).
  An error that the caller sees as a return value (a non-zero \<open>err\<close>, a \<open>NULL\<close>) is
  \<^theory_text>\<open>ERR\<close>.
\<close>

type_synonym u8 = "8 word"
type_synonym u16 = "16 word"
type_synonym u32 = "32 word"
type_synonym u64 = "64 word"

type_synonym 'a exec = "'a option"

datatype 'a ret = ERR | OK (the_ok: 'a)

named_theorems bit_field \<open>bit-level characterisations of the bit-field accessors\<close>
named_theorems field_eval \<open>equations that evaluate an accessor whose check succeeds\<close>

text \<open>\<open>assert(b)\<close>, \<open>EU_VERIFY(b)\<close> and \<open>HALT_ON_ERRORCOND(b)\<close>.\<close>

definition assert_c :: "bool \<Rightarrow> unit exec" where
  "assert_c b = (if b then Some () else None)"

text \<open>
  Byte-addressed memory. Multi-byte values are little endian, as on x86; an address wraps
  around at the end of the address space.
\<close>

type_synonym memory = "u64 \<Rightarrow> u8"

record mach =
  mem :: memory

fun load_le :: "memory \<Rightarrow> u64 \<Rightarrow> nat \<Rightarrow> u64" where
  "load_le m a 0 = 0"
| "load_le m a (Suc n) = ucast (m a) OR push_bit 8 (load_le m (a + 1) n)"

fun store_le :: "memory \<Rightarrow> u64 \<Rightarrow> nat \<Rightarrow> u64 \<Rightarrow> memory" where
  "store_le m a 0 v = m"
| "store_le m a (Suc n) v = (store_le m (a + 1) n (drop_bit 8 v))(a := ucast v)"

definition memcpy :: "memory \<Rightarrow> u64 \<Rightarrow> u64 \<Rightarrow> u64 \<Rightarrow> memory" where
  "memcpy m dst src n = (\<lambda>a. if a - dst < n then m (src + (a - dst)) else m a)"

definition memset :: "memory \<Rightarrow> u64 \<Rightarrow> u8 \<Rightarrow> u64 \<Rightarrow> memory" where
  "memset m dst c n = (\<lambda>a. if a - dst < n then c else m a)"

subsection \<open>Assertions and options\<close>

lemma assert_c_simps [simp]:
  "assert_c True = Some ()"
  "assert_c False = None"
  by (simp_all add: assert_c_def)

lemma assert_c_eq_Some [simp]: "assert_c b = Some u \<longleftrightarrow> b"
  by (simp add: assert_c_def)

lemma assert_c_bind_eq_Some [simp]:
  "Option.bind (assert_c b) f = Some x \<longleftrightarrow> b \<and> f () = Some x"
  by (simp add: assert_c_def)

lemma assert_c_bind_eq_None [simp]:
  "Option.bind (assert_c b) f = None \<longleftrightarrow> (b \<longrightarrow> f () = None)"
  by (simp add: assert_c_def)

subsection \<open>Little-endian loads and stores\<close>

lemma unat_of_nat_64: "k < 2 ^ 64 \<Longrightarrow> unat (of_nat k :: u64) = k"
  by (simp add: unat_of_nat)

lemma store_le_apply:
  "n \<le> 8 \<Longrightarrow> store_le m a n v x =
     (if x - a < of_nat n then ucast (drop_bit (8 * unat (x - a)) v) else m x)"
proof (induction n arbitrary: a v)
  case 0
  then show ?case by simp
next
  case (Suc n)
  have IH: "store_le m (a + 1) n (drop_bit 8 v) x =
     (if x - (a + 1) < of_nat n then ucast (drop_bit (8 * unat (x - (a + 1))) (drop_bit 8 v)) else m x)"
    using Suc by simp
  show ?case
  proof (cases "x = a")
    case True
    have "(0::u64) < of_nat (Suc n)"
      using Suc.prems by (simp add: word_less_nat_alt unat_of_nat_64 del: of_nat_Suc)
    with True show ?thesis by simp
  next
    case False
    define d where "d = x - a"
    have "d \<noteq> 0" using False by (simp add: d_def)
    have e: "x - (a + 1) = d - 1" by (simp add: d_def)
    have u: "unat d = Suc (unat (d - 1))"
      using \<open>d \<noteq> 0\<close> by (simp add: unat_minus_one unat_gt_0)
    have lt: "d - 1 < of_nat n \<longleftrightarrow> d < of_nat (Suc n)"
      using Suc.prems u by (simp add: word_less_nat_alt unat_of_nat_64 del: of_nat_Suc)
    have dr: "drop_bit (8 * unat (d - 1)) (drop_bit 8 v) = drop_bit (8 * unat d) v"
      by (simp add: u drop_bit_drop_bit add.commute)
    show ?thesis using False IH unfolding e lt dr by (simp flip: d_def)
  qed
qed

lemma bit_load_le [bit_field]:
  "n \<le> 8 \<Longrightarrow> bit (load_le m a n) k \<longleftrightarrow> k < 8 * n \<and> bit (m (a + of_nat (k div 8))) (k mod 8)"
proof (induction n arbitrary: a k)
  case 0
  then show ?case by simp
next
  case (Suc n)
  show ?case
  proof (cases "k < 8")
    case True
    then show ?thesis using Suc.prems by (simp add: bit_simps)
  next
    case False
    then have k: "k div 8 = Suc ((k - 8) div 8)" "(k - 8) mod 8 = k mod 8"
      by (simp_all add: le_div_geq le_mod_geq)
    have "\<not> bit (m a) k" using False by (auto dest: bit_imp_le_length)
    then show ?thesis using False Suc k by (auto simp: bit_simps ac_simps)
  qed
qed

lemma unat_dvd_diff:
  fixes a b :: u64
  assumes "s dvd 2 ^ 64" "s dvd unat a" "s dvd unat b"
  shows "s dvd unat (b - a)"
proof (cases "a \<le> b")
  case True
  then show ?thesis using assms by (simp add: unat_sub dvd_diff_nat)
next
  case False
  then have "unat (b - a) = 2 ^ 64 + unat b - unat a"
    by (subst unat_sub_if_size) (simp add: word_size word_le_nat_alt)
  then show ?thesis using assms by (simp add: dvd_diff_nat)
qed

lemma aligned_disjoint:
  fixes a b :: u64
  assumes s: "s dvd 2 ^ 64" and al: "s dvd unat a" "s dvd unat b" and "a \<noteq> b" and i: "i < s"
  shows "\<not> b + of_nat i - a < of_nat s"
proof -
  define d where "d = b - a"
  have "d \<noteq> 0" using \<open>a \<noteq> b\<close> by (simp add: d_def)
  then have pos: "0 < unat d" by (simp add: unat_gt_0)
  have "s dvd unat d" using s al by (simp add: d_def unat_dvd_diff)
  with pos have ge: "s \<le> unat d" by (rule dvd_imp_le [rotated])
  have "unat d < 2 ^ 64" using unsigned_less [of d] by simp
  with \<open>s dvd unat d\<close> s have le: "unat d + s \<le> 2 ^ 64"
    by (metis add.commute dvd_add_right_iff dvd_imp_le  le_add_diff_inverse less_imp_le_nat add_le_cancel_left dvd_diff_nat zero_less_diff)
  have sl: "s < 2 ^ 64" using ge \<open>unat d < 2 ^ 64\<close> by simp
  have "unat (d + of_nat i) = unat d + i"
    using le i sl by (subst unat_add_lem [THEN iffD1]) (simp_all add: unat_of_nat)
  then have "s \<le> unat (d + of_nat i)" using ge by simp
  then have "\<not> d + of_nat i < of_nat s" using sl by (simp add: word_less_nat_alt unat_of_nat_64)
  then show ?thesis by (simp add: d_def algebra_simps)
qed

lemma load_le_cong:
  "(\<And>i. i < n \<Longrightarrow> m (a + of_nat i) = m' (a + of_nat i)) \<Longrightarrow> load_le m a n = load_le m' a n"
proof (induction n arbitrary: a)
  case 0
  then show ?case by simp
next
  case (Suc n)
  have "load_le m (a + 1) n = load_le m' (a + 1) n"
    using Suc.prems [of "Suc i" for i] by (intro Suc.IH) (simp add: ac_simps)
  with Suc.prems [of 0] show ?case by simp
qed

lemma load_store_le_same:
  assumes "n \<le> 8"
  shows "load_le (store_le m a n v) a n = take_bit (8 * n) v"
proof (rule bit_word_eqI)
  fix k :: nat
  assume "k < LENGTH(64)"
  then have u: "unat (of_nat (k div 8) :: u64) = k div 8" by (simp add: unat_of_nat)
  show "bit (load_le (store_le m a n v) a n) k = bit (take_bit (8 * n) v) k"
  proof (cases "k < 8 * n")
    case True
    then have "(of_nat (k div 8) :: u64) < of_nat n"
      using assms by (simp add: word_less_nat_alt unat_of_nat less_mult_imp_div_less mult.commute)
    moreover have "8 * (k div 8) + k mod 8 = k" by simp
    ultimately show ?thesis
      using assms True u by (simp add: bit_load_le store_le_apply bit_simps)
  next
    case False
    then show ?thesis using assms by (simp add: bit_load_le bit_simps)
  qed
qed

lemma load_store_le_other:
  assumes "n \<le> 8" "n dvd 2 ^ 64" "n dvd unat a" "n dvd unat b" "a \<noteq> b"
  shows "load_le (store_le m a n v) b n = load_le m b n"
  using assms by (intro load_le_cong) (simp add: store_le_apply aligned_disjoint)

end
