(* ===== verification/Lru.thy ===== *)
theory Lru
  imports Prelude
begin

text \<open>
  The fully associative software cache of \<^verbatim>\<open>include/stl/xmhf-lru.h\<close>, which the nested virtualization code
  instantiates for its shadow EPTs and for its VPIDs. The macros are functions here, polymorphic in the type of keys and values.
  \<open>valid\<close> is a natural number: the header requires an index type that holds 0 to \<open>LRU_SIZE\<close>, and the code never
  stores a larger value (lemma \<open>find_evict_order\<close>).
\<close>

record ('k, 'v) lru_line =
  line_valid :: nat
  line_key :: 'k
  line_value :: 'v

type_synonym ('k, 'v) lru_set = "('k, 'v) lru_line list"

definition LRU_SET_INIT :: "('k, 'v) lru_set \<Rightarrow> ('k, 'v) lru_set" where
  "LRU_SET_INIT elems = map (\<lambda>l. l\<lparr>line_valid := 0\<rparr>) elems"

fun find_line :: "nat \<Rightarrow> 'k \<Rightarrow> ('k, 'v) lru_line list \<Rightarrow> nat option" where
  "find_line i k [] = None"
| "find_line i k (l # ls) = (if line_valid l \<noteq> 0 \<and> line_key l = k then Some i else find_line (Suc i) k ls)"

definition LRU_SET_FIND_IMMUTABLE :: "('k, 'v) lru_set \<Rightarrow> 'k \<Rightarrow> nat option" where
  "LRU_SET_FIND_IMMUTABLE elems k = find_line 0 k elems"

text \<open>The search loop of \<open>LRU_SET_FIND_EVICT\<close>: the hit, \<open>_available_index\<close> and \<open>_evict_index\<close>.\<close>

fun find_evict_scan :: "nat \<Rightarrow> 'k \<Rightarrow> nat \<Rightarrow> nat \<Rightarrow> nat \<Rightarrow> ('k, 'v) lru_line list \<Rightarrow> nat option \<times> nat \<times> nat" where
  "find_evict_scan nlines k i available evict [] = (None, available, evict)"
| "find_evict_scan nlines k i available evict (l # ls) =
     (if line_valid l = 0 then find_evict_scan nlines k (Suc i) i evict ls
      else if line_valid l = nlines then find_evict_scan nlines k (Suc i) available i ls
      else if line_key l = k then (Some i, available, evict)
      else find_evict_scan nlines k (Suc i) available evict ls)"

definition LRU_SET_FIND_EVICT :: "('k, 'v) lru_set \<Rightarrow> 'k \<Rightarrow> (nat \<times> bool \<times> ('k, 'v) lru_set) option" where
  "LRU_SET_FIND_EVICT elems k =
     (let nlines = length elems;
          (hit, available, evict) = find_evict_scan nlines k 0 nlines nlines elems;
          ans = (case hit of Some i \<Rightarrow> i | None \<Rightarrow> if available < nlines then available else evict);
          max_valid = (case hit of Some i \<Rightarrow> line_valid (elems ! i) | None \<Rightarrow> nlines);
          aged = map (\<lambda>l. if line_valid l \<noteq> 0 \<and> line_valid l < max_valid then l\<lparr>line_valid := line_valid l + 1\<rparr> else l) elems
      in if ans < nlines
         then Some (ans, hit \<noteq> None, aged[ans := (aged ! ans)\<lparr>line_valid := 1, line_key := k\<rparr>])
         else None)"

definition LRU_SET_INVALIDATE :: "('k, 'v) lru_set \<Rightarrow> 'k \<Rightarrow> nat option \<times> ('k, 'v) lru_set" where
  "LRU_SET_INVALIDATE elems k = (case find_line 0 k elems of
     None \<Rightarrow> (None, elems)
   | Some i \<Rightarrow> (Some i, elems[i := (elems ! i)\<lparr>line_valid := 0\<rparr>]))"

definition LRU_SET_INVALIDATE_ALL :: "('k, 'v) lru_set \<Rightarrow> ('k, 'v) lru_set" where
  "LRU_SET_INVALIDATE_ALL elems = map (\<lambda>l. l\<lparr>line_valid := 0\<rparr>) elems"

subsection \<open>The order of use\<close>

text \<open>
  \<open>lru_order elems is\<close>: the valid lines are those at the indices \<open>is\<close>, numbered 1, 2, ... from the most recently
  used one on, and hold different keys. This is the invariant that the header states for the \<open>valid\<close> fields.
\<close>

definition lru_order :: "('k, 'v) lru_set \<Rightarrow> nat list \<Rightarrow> bool" where
  "lru_order elems is \<longleftrightarrow> distinct is \<and> (\<forall>i \<in> set is. i < length elems)
     \<and> (\<forall>j < length is. line_valid (elems ! (is ! j)) = Suc j)
     \<and> (\<forall>i < length elems. i \<notin> set is \<longrightarrow> line_valid (elems ! i) = 0)
     \<and> distinct (map (\<lambda>i. line_key (elems ! i)) is)"

definition lru_keys :: "('k, 'v) lru_set \<Rightarrow> nat list \<Rightarrow> 'k list" where
  "lru_keys elems is = map (\<lambda>i. line_key (elems ! i)) is"

lemma lru_order_empty: "lru_order (LRU_SET_INIT elems) []" "lru_order (LRU_SET_INVALIDATE_ALL elems) []"
  by (auto simp: lru_order_def LRU_SET_INIT_def LRU_SET_INVALIDATE_ALL_def)

lemma lru_order_length: "lru_order elems is \<Longrightarrow> length is \<le> length elems"
proof -
  assume "lru_order elems is"
  then have "distinct is" "set is \<subseteq> {..<length elems}" by (auto simp: lru_order_def)
  then show ?thesis using card_mono [of "{..<length elems}" "set is"] by (simp add: distinct_card)
qed

lemma lru_order_valid:
  assumes "lru_order elems is" "i < length elems"
  shows "line_valid (elems ! i) \<noteq> 0 \<longleftrightarrow> i \<in> set is"
  using assms by (auto simp: lru_order_def in_set_conv_nth)

text \<open>What the search loop finds.\<close>

lemma scan_hit:
  "find_evict_scan n k i a e ls = (h, a', e') \<Longrightarrow>
   (case h of
      Some r \<Rightarrow> i \<le> r \<and> r < i + length ls \<and> line_key (ls ! (r - i)) = k
        \<and> line_valid (ls ! (r - i)) \<noteq> 0 \<and> line_valid (ls ! (r - i)) \<noteq> n
    | None \<Rightarrow> (\<forall>l \<in> set ls. line_valid l = 0 \<or> line_valid l = n \<or> line_key l \<noteq> k)
        \<and> (if \<exists>l \<in> set ls. line_valid l = 0 then i \<le> a' \<and> a' < i + length ls \<and> line_valid (ls ! (a' - i)) = 0 else a' = a)
        \<and> (if \<exists>l \<in> set ls. line_valid l = n \<and> line_valid l \<noteq> 0
           then i \<le> e' \<and> e' < i + length ls \<and> line_valid (ls ! (e' - i)) = n else e' = e))"
proof (induction n k i a e ls rule: find_evict_scan.induct)
  case (2 n k i a e l ls)
  show ?case
  proof (cases "line_valid l \<noteq> 0 \<and> line_valid l \<noteq> n \<and> line_key l = k")
    case True
    then show ?thesis using "2.prems" by auto
  next
    case False
    then show ?thesis
      using 2 by (auto simp: nth_Cons' Suc_diff_le not_less_eq_eq split: option.splits if_splits)
  qed
qed simp


lemma bex_nth: "(\<exists>l \<in> set ls. P l) \<longleftrightarrow> (\<exists>i < length ls. P (ls ! i))"
  by (metis in_set_conv_nth)

lemma scan_cases:
  assumes "find_evict_scan (length elems) k 0 (length elems) (length elems) elems = (h, a, e)"
  obtains (hit) r where "h = Some r" "r < length elems" "line_key (elems ! r) = k" "line_valid (elems ! r) \<noteq> 0"
      "line_valid (elems ! r) \<noteq> length elems"
  | (miss) "h = None" "\<And>i. i < length elems \<Longrightarrow> line_valid (elems ! i) \<noteq> 0 \<Longrightarrow> line_valid (elems ! i) \<noteq> length elems \<Longrightarrow> line_key (elems ! i) \<noteq> k"
      "if \<exists>i < length elems. line_valid (elems ! i) = 0 then a < length elems \<and> line_valid (elems ! a) = 0 else a = length elems"
      "if \<exists>i < length elems. line_valid (elems ! i) = length elems \<and> line_valid (elems ! i) \<noteq> 0
       then e < length elems \<and> line_valid (elems ! e) = length elems else e = length elems"
proof (cases h)
  case None
  note h = scan_hit [OF assms, unfolded None option.case add_0 diff_zero bex_nth all_set_conv_all_nth le0 simp_thms]
  show ?thesis
  proof (rule miss [OF None])
    show "line_key (elems ! i) \<noteq> k" if "i < length elems" "line_valid (elems ! i) \<noteq> 0" "line_valid (elems ! i) \<noteq> length elems" for i
      using spec [OF conjunct1 [OF h], of i] that by simp
  qed (use conjunct2 [OF h] in \<open>simp_all split: if_split_asm\<close>)
next
  case (Some r)
  then show ?thesis using scan_hit [OF assms] by (intro hit [of r]) auto
qed

subsection \<open>Using a line\<close>

definition touch :: "('k, 'v) lru_set \<Rightarrow> nat \<Rightarrow> nat \<Rightarrow> 'k \<Rightarrow> ('k, 'v) lru_set" where
  "touch elems ans max_valid k =
     (let aged = map (\<lambda>l. if line_valid l \<noteq> 0 \<and> line_valid l < max_valid then l\<lparr>line_valid := line_valid l + 1\<rparr> else l) elems
      in aged[ans := (aged ! ans)\<lparr>line_valid := 1, line_key := k\<rparr>])"

lemma touch_nth:
  assumes "i < length elems"
  shows "line_valid (touch elems ans M k ! i) = (if i = ans then 1
      else if line_valid (elems ! i) \<noteq> 0 \<and> line_valid (elems ! i) < M then Suc (line_valid (elems ! i)) else line_valid (elems ! i))"
    and "line_key (touch elems ans M k ! i) = (if i = ans then k else line_key (elems ! i))"
    and "line_value (touch elems ans M k ! i) = line_value (elems ! i)"
  using assms by (cases "i = ans", simp_all add: touch_def Let_def)+

lemma touch_length [simp]: "length (touch elems ans M k) = length elems"
  by (simp add: touch_def Let_def)

lemma touch_order:
  assumes o: "lru_order elems is" and ans: "ans < length elems"
    and M: "if ans \<in> set is then M = line_valid (elems ! ans) else length is < M"
    and k: "k \<notin> set (lru_keys elems (remove1 ans is))"
  shows "lru_order (touch elems ans M k) (ans # remove1 ans is)"
proof -
  note o' = o [unfolded lru_order_def]
  have d: "distinct is" and lt: "\<And>i. i \<in> set is \<Longrightarrow> i < length elems" and v: "\<And>j. j < length is \<Longrightarrow> line_valid (elems ! (is ! j)) = Suc j"
    and z: "\<And>i. i < length elems \<Longrightarrow> i \<notin> set is \<Longrightarrow> line_valid (elems ! i) = 0" and dk: "distinct (lru_keys elems is)"
    using o' unfolding lru_keys_def by blast+
  have num: "line_valid (touch elems ans M k ! (remove1 ans is ! j)) = Suc (Suc j)" if "j < length (remove1 ans is)" for j
  proof (cases "ans \<in> set is")
    case False
    then have r: "remove1 ans is = is" by (simp add: remove1_idem)
    with that have "is ! j \<in> set is" by simp
    with False that r have "is ! j \<noteq> ans" "is ! j < length elems" "line_valid (elems ! (is ! j)) = Suc j"
      using lt [of "is ! j"] v [of j] by (blast, simp, simp)
    then show ?thesis using M False that r by (simp add: touch_nth)
  next
    case True
    then obtain ps qs where s: "is = ps @ ans # qs" by (meson split_list)
    have p: "M = Suc (length ps)" using v [of "length ps"] M True by (simp add: s)
    have r: "remove1 ans is = ps @ qs" using d by (simp add: s remove1_append)
    have ne: "(ps @ qs) ! j \<noteq> ans" "(ps @ qs) ! j < length elems"
      using d lt [of "(ps @ qs) ! j"] that [unfolded r] nth_mem [of j "ps @ qs"] by (auto simp del: nth_mem simp: s)
    show ?thesis
    proof (cases "j < length ps")
      case True
      then have "line_valid (elems ! ((ps @ qs) ! j)) = Suc j" using v [of j] by (simp add: s nth_append)
      then show ?thesis using ne r p True by (simp add: touch_nth)
    next
      case False
      then have "line_valid (elems ! ((ps @ qs) ! j)) = Suc (Suc j)"
        using v [of "Suc j"] that [unfolded r] by (simp add: s nth_append)
      then show ?thesis using ne r p False by (simp add: touch_nth)
    qed
  qed
  show ?thesis
    unfolding lru_order_def
  proof (intro conjI allI ballI impI)
    show "distinct (ans # remove1 ans is)" using d by simp
    show "i < length (touch elems ans M k)" if "i \<in> set (ans # remove1 ans is)" for i
      using that ans lt d by auto
    show "line_valid (touch elems ans M k ! ((ans # remove1 ans is) ! j)) = Suc j" if "j < length (ans # remove1 ans is)" for j
      using that num ans by (cases j) (simp_all add: touch_nth)
    show "line_valid (touch elems ans M k ! i) = 0" if "i < length (touch elems ans M k)" "i \<notin> set (ans # remove1 ans is)" for i
      using that z d by (simp add: touch_nth)
    have "line_key (touch elems ans M k ! i) = line_key (elems ! i)" if "i \<in> set (remove1 ans is)" for i
      using that d lt by (simp add: touch_nth)
    then have "map (\<lambda>i. line_key (touch elems ans M k ! i)) (ans # remove1 ans is) = k # lru_keys elems (remove1 ans is)"
      using ans by (simp add: lru_keys_def touch_nth)
    moreover have "distinct (lru_keys elems (remove1 ans is))"
      using dk unfolding lru_keys_def distinct_map by (auto intro: inj_on_subset)
    ultimately show "distinct (map (\<lambda>i. line_key (touch elems ans M k ! i)) (ans # remove1 ans is))"
      using k by simp
  qed
qed


lemma remove1_keys:
  assumes "lru_order elems is" "i \<in> set is"
  shows "remove1 (line_key (elems ! i)) (lru_keys elems is) = lru_keys elems (remove1 i is)"
    "line_key (elems ! i) \<notin> set (lru_keys elems (remove1 i is))"
proof -
  obtain ps qs where s: "is = ps @ i # qs" using assms(2) by (meson split_list)
  have d: "distinct is" "distinct (lru_keys elems is)" using assms(1) by (simp_all add: lru_order_def lru_keys_def)
  have r: "remove1 i is = ps @ qs" using d(1) by (simp add: s remove1_append)
  show "remove1 (line_key (elems ! i)) (lru_keys elems is) = lru_keys elems (remove1 i is)"
    using d(2) unfolding r by (simp add: s lru_keys_def remove1_append)
  show "line_key (elems ! i) \<notin> set (lru_keys elems (remove1 i is))"
    using d(2) unfolding r by (auto simp: s lru_keys_def)
qed

lemma touch_keys:
  assumes "lru_order elems is" "ans < length elems"
  shows "lru_keys (touch elems ans M k) (ans # remove1 ans is) = k # lru_keys elems (remove1 ans is)"
proof -
  have "i \<noteq> ans \<and> i < length elems" if "i \<in> set (remove1 ans is)" for i
    using that assms(1) unfolding lru_order_def by auto
  then show ?thesis using assms(2) by (simp add: lru_keys_def touch_nth)
qed

text \<open>
  With the invariant, the search decides between the three cases of the code: a hit, which is not the least recently used line
  of a full set; an invalid line; the least recently used line.
\<close>

definition evict_choice :: "('k, 'v) lru_set \<Rightarrow> nat list \<Rightarrow> 'k \<Rightarrow> nat \<Rightarrow> nat \<Rightarrow> bool" where
  "evict_choice elems is k ans M \<longleftrightarrow> ans < length elems \<and> k \<notin> set (lru_keys elems (remove1 ans is))
     \<and> (if ans \<in> set is then M = line_valid (elems ! ans) else length is < M)
     \<and> lru_keys elems (remove1 ans is) = take (length elems - 1) (remove1 k (lru_keys elems is))"

lemma choose_hit:
  assumes o: "lru_order elems is" and r: "r < length elems" "line_valid (elems ! r) \<noteq> 0" "line_valid (elems ! r) \<noteq> length elems"
  shows "evict_choice elems is (line_key (elems ! r)) r (line_valid (elems ! r))"
    and "line_key (elems ! r) \<in> set (take (length elems - 1) (lru_keys elems is))"
proof -
  have ri: "r \<in> set is" using lru_order_valid [OF o r(1)] r(2) by simp
  then obtain j where j: "j < length is" "is ! j = r" by (auto simp: in_set_conv_nth)
  then have "line_valid (elems ! r) = Suc j" using o by (auto simp: lru_order_def)
  then have "j < length elems - 1" using r(3) j lru_order_length [OF o] by linarith
  then show "line_key (elems ! r) \<in> set (take (length elems - 1) (lru_keys elems is))"
    using j by (auto simp: in_set_conv_nth lru_keys_def intro!: exI [of _ j])
  have "length (remove1 r is) \<le> length elems - 1"
    using ri lru_order_length [OF o] by (simp add: length_remove1)
  then show "evict_choice elems is (line_key (elems ! r)) r (line_valid (elems ! r))"
    using remove1_keys [OF o ri] r ri by (simp add: evict_choice_def lru_keys_def)
qed

lemma choose_invalid:
  assumes o: "lru_order elems is" and a: "a < length elems" "line_valid (elems ! a) = 0"
    and k: "\<And>i. i < length elems \<Longrightarrow> line_valid (elems ! i) \<noteq> 0 \<Longrightarrow> line_valid (elems ! i) \<noteq> length elems \<Longrightarrow> line_key (elems ! i) \<noteq> k"
  shows "evict_choice elems is k a (length elems)" "k \<notin> set (lru_keys elems is)"
proof -
  have ai: "a \<notin> set is" using lru_order_valid [OF o a(1)] a(2) by simp
  have "set is \<subseteq> {..<length elems} - {a}" using o ai by (auto simp: lru_order_def)
  moreover have "card (set is) = length is" using o by (simp add: lru_order_def distinct_card)
  ultimately have lt: "length is < length elems"
    using card_mono [of "{..<length elems} - {a}" "set is"] a(1) by simp
  show nk: "k \<notin> set (lru_keys elems is)"
  proof
    assume "k \<in> set (lru_keys elems is)"
    then obtain j where j: "j < length is" "line_key (elems ! (is ! j)) = k" by (auto simp: lru_keys_def in_set_conv_nth)
    then have "line_valid (elems ! (is ! j)) = Suc j" "is ! j < length elems" using o by (auto simp: lru_order_def)
    then show False using k [of "is ! j"] j lt by simp
  qed
  show "evict_choice elems is k a (length elems)"
    using a(1) ai nk lt by (simp add: evict_choice_def remove1_idem lru_keys_def)
qed

lemma oldest_exists:
  assumes o: "lru_order elems is" and ne: "elems \<noteq> []" and full: "\<And>i. i < length elems \<Longrightarrow> line_valid (elems ! i) \<noteq> 0"
  shows "\<exists>i < length elems. line_valid (elems ! i) = length elems"
proof -
  have s: "set is = {..<length elems}" using lru_order_valid [OF o] full o by (auto simp: lru_order_def)
  then have n: "length is = length elems" using o distinct_card [of "is"] by (simp add: lru_order_def)
  let ?i = "is ! (length elems - 1)"
  have "length elems - 1 < length is" using ne n by simp
  then have "line_valid (elems ! ?i) = Suc (length elems - 1)" "?i < length elems" using o s nth_mem by (auto simp: lru_order_def)
  then show ?thesis using ne by (intro exI [of _ ?i]) simp
qed

lemma choose_oldest:
  assumes o: "lru_order elems is" and ne: "elems \<noteq> []" and full: "\<And>i. i < length elems \<Longrightarrow> line_valid (elems ! i) \<noteq> 0"
    and k: "\<And>i. i < length elems \<Longrightarrow> line_valid (elems ! i) \<noteq> 0 \<Longrightarrow> line_valid (elems ! i) \<noteq> length elems \<Longrightarrow> line_key (elems ! i) \<noteq> k"
    and e: "e < length elems" "line_valid (elems ! e) = length elems"
  shows "evict_choice elems is k e (length elems)" "k \<notin> set (take (length elems - 1) (lru_keys elems is))"
proof -
  have "set is = {..<length elems}" using lru_order_valid [OF o] full o by (auto simp: lru_order_def)
  then have n: "length is = length elems" using o distinct_card [of "is"] by (simp add: lru_order_def)
  obtain j where j: "j < length is" "is ! j = e" using \<open>set is = _\<close> e(1) by (metis in_set_conv_nth lessThan_iff)
  then have "Suc j = length elems" using o e(2) by (auto simp: lru_order_def)
  then have s: "is = butlast is @ [e]" using j n append_butlast_last_id [of "is"] by (cases "is" rule: rev_cases) (auto simp: nth_append)
  have d: "distinct is" using o by (simp add: lru_order_def)
  then have r: "remove1 e is = butlast is" by (subst s) (metis s distinct_append distinct_butlast remove1_append not_distinct_conv_prefix remove1.simps(2) append_Nil2 list.set_intros(1) disjoint_iff)
  have nk: "k \<notin> set (lru_keys elems (butlast is))"
  proof
    assume "k \<in> set (lru_keys elems (butlast is))"
    then obtain i where i: "i < length is - 1" "line_key (elems ! (is ! i)) = k"
      by (auto simp: lru_keys_def in_set_conv_nth nth_butlast)
    then have "line_valid (elems ! (is ! i)) = Suc i" "is ! i < length elems" using o by (auto simp: lru_order_def)
    moreover have "Suc i \<noteq> length elems" using i(1) n by linarith
    ultimately show False using k [of "is ! i"] i by simp
  qed
  have ks: "lru_keys elems is = lru_keys elems (butlast is) @ [line_key (elems ! e)]" by (subst s) (simp add: lru_keys_def)
  have l: "length (lru_keys elems (butlast is)) = length elems - 1" using n by (simp add: lru_keys_def)
  show "k \<notin> set (take (length elems - 1) (lru_keys elems is))" using nk l by (simp add: ks)
  have "e \<in> set is" by (subst s) simp
  then show "evict_choice elems is k e (length elems)"
    using e nk l by (simp add: evict_choice_def r ks remove1_append remove1_idem)
qed

lemma find_evict_order:
  assumes o: "lru_order elems is" and ne: "elems \<noteq> []"
  obtains ans M where "evict_choice elems is k ans M"
    "LRU_SET_FIND_EVICT elems k = Some (ans, k \<in> set (take (length elems - 1) (lru_keys elems is)), touch elems ans M k)"
    "k \<in> set (take (length elems - 1) (lru_keys elems is)) \<longrightarrow> line_key (elems ! ans) = k"
proof -
  obtain h a e where s: "find_evict_scan (length elems) k 0 (length elems) (length elems) elems = (h, a, e)" by (metis prod_cases3)
  show ?thesis using s
  proof (cases rule: scan_cases)
    case (hit r)
    then show ?thesis using choose_hit [OF o hit(2,4,5)] s
      by (intro that [of r "line_valid (elems ! r)"]) (simp_all add: LRU_SET_FIND_EVICT_def touch_def Let_def)
  next
    case miss
    show ?thesis
    proof (cases "\<exists>i < length elems. line_valid (elems ! i) = 0")
      case True
      then have a: "a < length elems" "line_valid (elems ! a) = 0" using miss(3) by simp_all
      note c = choose_invalid [OF o a miss(2)]
      have "k \<notin> set (take (length elems - 1) (lru_keys elems is))" using c(2) by (meson in_set_takeD)
      then show ?thesis using c(1) s a miss(1)
        by (intro that [of a "length elems"]) (simp_all add: LRU_SET_FIND_EVICT_def touch_def Let_def)
    next
      case False
      then have full: "line_valid (elems ! i) \<noteq> 0" if "i < length elems" for i using that by simp
      have "\<exists>i < length elems. line_valid (elems ! i) = length elems \<and> line_valid (elems ! i) \<noteq> 0"
        using oldest_exists [OF o ne full] ne by auto
      then have e: "e < length elems" "line_valid (elems ! e) = length elems" using miss(4) by (simp_all only: if_True)
      have "a = length elems" using False miss(3) by simp
      with choose_oldest [OF o ne full miss(2) e] show ?thesis using s e miss(1)
        by (intro that [of e "length elems"]) (simp_all add: LRU_SET_FIND_EVICT_def touch_def Let_def)
    qed
  qed
qed


lemma find_line_Some:
  "find_line i k ls = Some r \<Longrightarrow> i \<le> r \<and> r < i + length ls \<and> line_valid (ls ! (r - i)) \<noteq> 0 \<and> line_key (ls ! (r - i)) = k"
  by (induction i k ls rule: find_line.induct) (auto simp: nth_Cons' Suc_diff_le split: if_splits)

lemma find_line_None: "find_line i k ls = None \<longleftrightarrow> (\<forall>l \<in> set ls. line_valid l \<noteq> 0 \<longrightarrow> line_key l \<noteq> k)"
  by (induction i k ls rule: find_line.induct) auto

lemma find_line_order:
  assumes "lru_order elems is"
  shows "find_line 0 k elems \<noteq> None \<longleftrightarrow> k \<in> set (lru_keys elems is)"
proof -
  have "(\<exists>i < length elems. line_valid (elems ! i) \<noteq> 0 \<and> line_key (elems ! i) = k) \<longleftrightarrow> k \<in> set (lru_keys elems is)"
    using lru_order_valid [OF assms] assms unfolding lru_keys_def lru_order_def by auto
  then show ?thesis unfolding find_line_None by (metis in_set_conv_nth)
qed

text \<open>The lines that hold a key, of which the loops find the first.\<close>

definition holds_key :: "('k, 'v) lru_set \<Rightarrow> 'k \<Rightarrow> nat \<Rightarrow> bool" where
  "holds_key elems k i \<longleftrightarrow> i < length elems \<and> line_valid (elems ! i) \<noteq> 0 \<and> line_key (elems ! i) = k"

lemma find_line_first: "find_line n k ls = Some r \<Longrightarrow> holds_key ls k i \<Longrightarrow> r \<le> n + i"
proof (induction n k ls arbitrary: i rule: find_line.induct)
  case (2 n k l ls)
  then show ?case by (cases i) (auto simp: holds_key_def split: if_splits)
qed simp

lemma find_line_least:
  assumes "holds_key ls k i" "\<And>q. holds_key ls k q \<Longrightarrow> i \<le> q"
  shows "find_line 0 k ls = Some i"
proof (cases "find_line 0 k ls")
  case None
  then show ?thesis using assms(1) nth_mem unfolding find_line_None holds_key_def by blast
next
  case (Some r)
  then have "holds_key ls k r" using find_line_Some [OF Some] by (simp add: holds_key_def)
  then show ?thesis using Some assms(2) find_line_first [OF Some assms(1)] by (simp add: le_antisym)
qed

lemma invalidate_found: "find_line 0 k elems = Some i \<Longrightarrow> LRU_SET_INVALIDATE elems k = (Some i, elems[i := (elems ! i)\<lparr>line_valid := 0\<rparr>])"
  by (simp add: LRU_SET_INVALIDATE_def)

lemma find_evict_hit:
  assumes "\<And>i. holds_key elems k i \<longleftrightarrow> i = p" "line_valid (elems ! p) \<noteq> length elems"
  shows "\<exists>elems'. LRU_SET_FIND_EVICT elems k = Some (p, True, elems')"
proof -
  obtain h a e where s: "find_evict_scan (length elems) k 0 (length elems) (length elems) elems = (h, a, e)" by (metis prod_cases3)
  show ?thesis using s
  proof (cases rule: scan_cases)
    case (hit r)
    then have "r = p" using assms(1) [of r] by (simp add: holds_key_def)
    then show ?thesis using s hit by (simp add: LRU_SET_FIND_EVICT_def Let_def)
  next
    case miss
    then show ?thesis using assms(1) [of p] assms(2) by (auto simp: holds_key_def)
  qed
qed

lemma find_evict_free:
  assumes "p < length elems" "\<And>i. i < length elems \<Longrightarrow> line_valid (elems ! i) = 0 \<longleftrightarrow> i = p"
    and "\<And>i. holds_key elems k i \<Longrightarrow> line_valid (elems ! i) = length elems"
  shows "LRU_SET_FIND_EVICT elems k = Some (p, False, touch elems p (length elems) k)"
proof -
  obtain h a e where s: "find_evict_scan (length elems) k 0 (length elems) (length elems) elems = (h, a, e)" by (metis prod_cases3)
  show ?thesis using s
  proof (cases rule: scan_cases)
    case (hit r)
    then show ?thesis using assms(3) [of r] by (simp add: holds_key_def)
  next
    case miss
    moreover have "\<exists>i < length elems. line_valid (elems ! i) = 0" using assms(1,2) by blast
    ultimately have "a < length elems" "line_valid (elems ! a) = 0" by simp_all
    then have "a = p" using assms(2) by blast
    then show ?thesis using s miss(1) assms(1) by (simp add: LRU_SET_FIND_EVICT_def touch_def Let_def)
  qed
qed

lemma full_order:
  assumes o: "lru_order elems is" "length is = length elems" "Suc j < length is"
  shows "is ! j < length elems" "last is < length elems" "is ! j \<noteq> last is" "line_valid (elems ! last is) = length elems"
    "line_valid (elems ! (is ! j)) \<noteq> 0" "i < length elems \<Longrightarrow> line_valid (elems ! i) \<noteq> 0"
    "i < length elems \<Longrightarrow> i' < length elems \<Longrightarrow> line_key (elems ! i) = line_key (elems ! i') \<longleftrightarrow> i = i'"
proof -
  have d: "distinct is" "set is \<subseteq> {..<length elems}" and k: "distinct (map (\<lambda>i. line_key (elems ! i)) is)" using o(1) by (auto simp: lru_order_def)
  have s: "set is = {..<length elems}" using d o(2) by (intro card_subset_eq) (simp_all add: distinct_card)
  have l: "last is = is ! (length is - 1)" "length is - 1 < length is" using o(3) last_conv_nth [of "is"] by force+
  have v: "line_valid (elems ! (is ! q)) = Suc q" if "q < length is" for q using o(1) that by (simp add: lru_order_def)
  show "is ! j \<noteq> last is" using d(1) o(3) l by (simp add: nth_eq_iff_index_eq)
  show "line_valid (elems ! last is) = length elems" using v [OF l(2)] l o(2) by simp
  show "is ! j < length elems" "last is < length elems" using s o(3) l nth_mem [of j "is"] nth_mem [of "length is - 1" "is"] by auto
  show nz: "line_valid (elems ! i) \<noteq> 0" if "i < length elems" for i using lru_order_valid [OF o(1) that] s that by simp
  show "line_valid (elems ! (is ! j)) \<noteq> 0" using v [of j] o(3) by simp
  show "line_key (elems ! i) = line_key (elems ! i') \<longleftrightarrow> i = i'" if "i < length elems" "i' < length elems"
    using k that s unfolding distinct_map inj_on_def by auto
qed

subsection \<open>Properties\<close>

text \<open>
  C33: the cache is a least-recently-used cache, as long as no single line is invalidated. In terms of the list of cached keys, most recently used first,
  \<open>LRU_SET_FIND_EVICT\<close> moves the key to the front and drops what no longer fits; the returned line holds the key; it
  reports a hit exactly for the keys before the last place of a full set (a key in the last place counts as a miss: its value is built anew), and then
  the line held the key already; the key and value of the other lines do not change.
\<close>

theorem lru_find_evict_refines:
  assumes "lru_order elems is" "elems \<noteq> []"
  shows "\<exists>ans hit elems' is'. LRU_SET_FIND_EVICT elems k = Some (ans, hit, elems') \<and> lru_order elems' is'
    \<and> lru_keys elems' is' = take (length elems) (k # remove1 k (lru_keys elems is))
    \<and> ans < length elems \<and> length elems' = length elems \<and> line_key (elems' ! ans) = k
    \<and> (hit \<longleftrightarrow> k \<in> set (take (length elems - 1) (lru_keys elems is)))
    \<and> (hit \<longrightarrow> line_key (elems ! ans) = k)
    \<and> (\<forall>i < length elems. line_value (elems' ! i) = line_value (elems ! i) \<and> (i \<noteq> ans \<longrightarrow> line_key (elems' ! i) = line_key (elems ! i)))"
proof -
  obtain ans M where c: "evict_choice elems is k ans M"
    and f: "LRU_SET_FIND_EVICT elems k = Some (ans, k \<in> set (take (length elems - 1) (lru_keys elems is)), touch elems ans M k)"
      "k \<in> set (take (length elems - 1) (lru_keys elems is)) \<longrightarrow> line_key (elems ! ans) = k"
    using find_evict_order [OF assms] by blast
  note c' = c [unfolded evict_choice_def]
  have n: "length elems = Suc (length elems - 1)" using assms(2) by simp
  have "lru_keys (touch elems ans M k) (ans # remove1 ans is) = take (length elems) (k # remove1 k (lru_keys elems is))"
    using touch_keys [OF assms(1), of ans M k] c' by (subst n) simp
  then show ?thesis
    using f c' touch_order [OF assms(1), of ans M k]
    by (intro exI [of _ ans] exI [of _ "touch elems ans M k"] exI [of _ "ans # remove1 ans is"] exI conjI) (auto simp: touch_nth)
qed

theorem lru_find_evict_refines_witness:
  "\<exists>ans elems' is'. LRU_SET_FIND_EVICT (LRU_SET_INIT (replicate 2 \<lparr>line_valid = 0, line_key = 0 :: nat, line_value = ()\<rparr>)) 7 = Some (ans, False, elems')
     \<and> lru_keys elems' is' = [7]"
proof -
  let ?s = "LRU_SET_INIT (replicate 2 \<lparr>line_valid = 0, line_key = 0 :: nat, line_value = ()\<rparr>)"
  have ne: "?s \<noteq> []" by (simp add: LRU_SET_INIT_def)
  from lru_find_evict_refines [OF lru_order_empty(1) ne, of 7] obtain ans hit elems' is' where
    "LRU_SET_FIND_EVICT ?s 7 = Some (ans, hit, elems')" "lru_keys elems' is' = take (length ?s) (7 # remove1 7 (lru_keys ?s []))"
    "hit \<longleftrightarrow> 7 \<in> set (take (length ?s - 1) (lru_keys ?s []))" by blast
  moreover have "lru_keys ?s [] = []" "length ?s = 2" by (simp_all add: lru_keys_def LRU_SET_INIT_def)
  ultimately show ?thesis by auto
qed

text \<open>
  C34: invalidating a single line breaks the cache. Take any full set with its lines in the order \<open>is\<close> of use, the key \<open>k\<close> of its least
  recently used line, and any other line. When the other line is invalidated and then \<open>k\<close> is used, this is a miss, and the freed line is taken for \<open>k\<close>
  while the old one stays valid, so \<open>k\<close> has two lines. Invalidating \<open>k\<close> drops only the one with the smaller index: the
  other is still found, and if it is the one taken later, the next use of \<open>k\<close> is a hit on it.
\<close>

theorem lru_invalidate_duplicates:
  assumes "lru_order elems is" "length is = length elems" "Suc j < length is"
  defines "k \<equiv> line_key (elems ! last is)"
  shows "\<exists>elems1 elems2 elems3. LRU_SET_INVALIDATE elems (line_key (elems ! (is ! j))) = (Some (is ! j), elems1)
    \<and> LRU_SET_FIND_EVICT elems1 k = Some (is ! j, False, elems2)
    \<and> is ! j \<noteq> last is \<and> (\<forall>i \<in> {is ! j, last is}. holds_key elems2 k i)
    \<and> LRU_SET_INVALIDATE elems2 k = (Some (min (is ! j) (last is)), elems3)
    \<and> LRU_SET_FIND_IMMUTABLE elems3 k = Some (max (is ! j) (last is))
    \<and> (last is < is ! j \<longrightarrow> (\<exists>elems4. LRU_SET_FIND_EVICT elems3 k = Some (is ! j, True, elems4)))"
proof -
  let ?p = "is ! j" and ?o = "last is"
  let ?e1 = "elems[?p := (elems ! ?p)\<lparr>line_valid := 0\<rparr>]"
  let ?e2 = "touch ?e1 ?p (length elems) k"
  let ?e3 = "?e2[min ?p ?o := (?e2 ! min ?p ?o)\<lparr>line_valid := 0\<rparr>]"
  note f = full_order [OF assms(1-3)]
  have h2: "holds_key ?e2 k i \<longleftrightarrow> i = ?p \<or> i = ?o" for i
    using f(1-4,7) by (cases "i = ?p") (auto simp: holds_key_def touch_nth k_def nth_list_update)
  have l2: "find_line 0 k ?e2 = Some (min ?p ?o)" using h2 by (intro find_line_least) (auto simp: min_def split: if_splits)
  have h3: "holds_key ?e3 k i \<longleftrightarrow> i = max ?p ?o" for i
    using h2 [of i] f(3) by (auto simp: holds_key_def nth_list_update min_def max_def split: if_splits)
  have l3: "find_line 0 k ?e3 = Some (max ?p ?o)" using h3 by (intro find_line_least) auto
  have "\<exists>e. LRU_SET_FIND_EVICT ?e3 k = Some (?p, True, e)" if "?o < ?p"
  proof (rule find_evict_hit)
    show "holds_key ?e3 k i \<longleftrightarrow> i = ?p" for i using h3 [of i] that by simp
    show "line_valid (?e3 ! ?p) \<noteq> length ?e3" using that f(1) assms(2,3) by (simp add: touch_nth min_def)
  qed
  moreover have "LRU_SET_FIND_EVICT ?e1 k = Some (?p, False, ?e2)"
  proof -
    have "LRU_SET_FIND_EVICT ?e1 k = Some (?p, False, touch ?e1 ?p (length ?e1) k)"
      using f by (intro find_evict_free) (auto simp: k_def nth_list_update holds_key_def)
    then show ?thesis by simp
  qed
  moreover have "LRU_SET_INVALIDATE elems (line_key (elems ! ?p)) = (Some ?p, ?e1)"
    using f(1,5,7) by (subst find_line_least [where i = ?p, THEN invalidate_found]) (auto simp: holds_key_def)
  ultimately show ?thesis using f(3) h2 invalidate_found [OF l2] l3 by (intro exI conjI) (auto simp: LRU_SET_FIND_IMMUTABLE_def)
qed

theorem lru_invalidate_duplicates_witness:
  "let line = \<lambda>v k. \<lparr>line_valid = v, line_key = k :: nat, line_value = ()\<rparr>; elems = [line 4 1, line 3 2, line 2 3, line 1 4]
   in lru_order elems [3, 2, 1, 0] \<and> (\<exists>elems1 elems2 elems3 elems4. LRU_SET_INVALIDATE elems 3 = (Some 2, elems1)
     \<and> LRU_SET_FIND_EVICT elems1 1 = Some (2, False, elems2) \<and> LRU_SET_INVALIDATE elems2 1 = (Some 0, elems3)
     \<and> LRU_SET_FIND_EVICT elems3 1 = Some (2, True, elems4))"
proof -
  let ?line = "\<lambda>v k. \<lparr>line_valid = v, line_key = k :: nat, line_value = ()\<rparr>"
  let ?elems = "[?line 4 1, ?line 3 2, ?line 2 3, ?line 1 4]"
  have o: "lru_order ?elems [3, 2, 1, 0]" by (auto simp: lru_order_def less_Suc_eq eval_nat_numeral)
  then show ?thesis using lru_invalidate_duplicates [OF o, of 1] by (simp add: Let_def eval_nat_numeral) blast
qed

end
