(* ===== verification/Bitfield.thy ===== *)
theory Bitfield
  imports Prelude
begin

text \<open>
  The bit-field accessors of \<^verbatim>\<open>libxmhfutil/include/bitfield.h\<close>, one definition per inline
  function. Bit positions are natural numbers; the C code is defined for positions below the
  width of the word. \<open>BR64_SET_HL\<close> and the functions built on it assert that the value
  fits the field, so they return an \<open>exec\<close>; the offset of \<open>BR64_COPY_BITS_HL\<close> is a signed
  integer, and a negative destination position would be a shift by a negative amount.
\<close>

definition ZERO_HI64 :: "u64 \<Rightarrow> nat \<Rightarrow> u64" where
  "ZERO_HI64 x bits = drop_bit bits (push_bit bits x)"

definition ZERO_LO64 :: "u64 \<Rightarrow> nat \<Rightarrow> u64" where
  "ZERO_LO64 x bits = push_bit bits (drop_bit bits x)"

definition ZERO_HI32 :: "u32 \<Rightarrow> nat \<Rightarrow> u32" where
  "ZERO_HI32 x bits = drop_bit bits (push_bit bits x)"

definition ZERO_LO32 :: "u32 \<Rightarrow> nat \<Rightarrow> u32" where
  "ZERO_LO32 x bits = push_bit bits (drop_bit bits x)"

definition MASKRANGE64 :: "nat \<Rightarrow> nat \<Rightarrow> u64" where
  "MASKRANGE64 hi lo = ZERO_LO64 (ZERO_HI64 0xffffffffffffffff (64 - hi - 1)) lo"

definition MASKRANGE32 :: "nat \<Rightarrow> nat \<Rightarrow> u32" where
  "MASKRANGE32 hi lo = ZERO_LO32 (ZERO_HI32 0xffffffff (32 - hi - 1)) lo"

definition MASKBIT64 :: "nat \<Rightarrow> u64" where
  "MASKBIT64 b = push_bit b 1"

definition MASKBIT32 :: "nat \<Rightarrow> u32" where
  "MASKBIT32 b = push_bit b 1"

definition BR64_GET_HL :: "u64 \<Rightarrow> nat \<Rightarrow> nat \<Rightarrow> u64" where
  "BR64_GET_HL x64 hi lo = drop_bit lo (ZERO_HI64 x64 (63 - hi))"

definition BR32_GET_HL :: "u32 \<Rightarrow> nat \<Rightarrow> nat \<Rightarrow> u64" where
  "BR32_GET_HL x32 hi lo = drop_bit lo (ZERO_HI64 (ucast x32) (31 - hi))"

definition BR64_SET_HL :: "u64 \<Rightarrow> nat \<Rightarrow> nat \<Rightarrow> u64 \<Rightarrow> u64 exec" where
  "BR64_SET_HL x64 hi lo val = do {
     assert_c (ZERO_HI64 val (63 - (hi - lo)) = val);
     Some ((x64 AND NOT (MASKRANGE64 hi lo)) OR push_bit lo val)
   }"

definition BR32_SET_HL :: "u32 \<Rightarrow> nat \<Rightarrow> nat \<Rightarrow> u32 \<Rightarrow> u32 exec" where
  "BR32_SET_HL x32 hi lo val = do {
     assert_c (ZERO_HI64 (ucast val) (31 - (hi - lo)) = ucast val);
     Some ((x32 AND NOT (MASKRANGE32 hi lo)) OR push_bit lo val)
   }"

definition BR64_GET_BIT :: "u64 \<Rightarrow> nat \<Rightarrow> u32" where
  "BR64_GET_BIT x64 pos = ucast (drop_bit pos (x64 AND MASKRANGE64 pos pos))"

definition BR64_SET_BIT :: "u64 \<Rightarrow> nat \<Rightarrow> bool \<Rightarrow> u64" where
  "BR64_SET_BIT x64 pos val =
     (let b = (if val then 1 else 0)
      in (x64 AND NOT (push_bit pos 1)) OR push_bit pos b)"

definition BR32_GET_BIT :: "u32 \<Rightarrow> nat \<Rightarrow> u32" where
  "BR32_GET_BIT x32 pos = drop_bit pos (x32 AND MASKRANGE32 pos pos)"

definition BR32_SET_BIT :: "u32 \<Rightarrow> nat \<Rightarrow> bool \<Rightarrow> u32" where
  "BR32_SET_BIT x32 pos val =
     (let b = (if val then 1 else 0)
      in (x32 AND NOT (push_bit pos 1)) OR push_bit pos b)"

definition BR64_COPY_BITS_HL :: "u64 \<Rightarrow> u64 \<Rightarrow> nat \<Rightarrow> nat \<Rightarrow> int \<Rightarrow> u64 exec" where
  "BR64_COPY_BITS_HL dst src src_hi src_lo offset =
     (if int src_lo + offset < 0 then None
      else BR64_SET_HL dst (nat (int src_hi + offset)) (nat (int src_lo + offset))
             (BR64_GET_HL src src_hi src_lo))"

definition BR32_COPY_BITS_HL :: "u32 \<Rightarrow> u32 \<Rightarrow> nat \<Rightarrow> nat \<Rightarrow> int \<Rightarrow> u32 exec" where
  "BR32_COPY_BITS_HL dst src src_hi src_lo offset =
     (if int src_lo + offset < 0 then None
      else BR32_SET_HL dst (nat (int src_hi + offset)) (nat (int src_lo + offset))
             (ucast (BR32_GET_HL src src_hi src_lo)))"

subsection \<open>What each accessor does, bit by bit\<close>

lemma bit_ZERO_HI64 [bit_field]: "bit (ZERO_HI64 x b) n \<longleftrightarrow> n + b < 64 \<and> bit x n"
  by (auto simp: ZERO_HI64_def bit_simps)

lemma bit_ZERO_LO64 [bit_field]: "bit (ZERO_LO64 x b) n \<longleftrightarrow> b \<le> n \<and> bit x n"
  by (auto simp: ZERO_LO64_def bit_simps dest: bit_imp_le_length)

lemma bit_MASKRANGE64 [bit_field]: "hi < 64 \<Longrightarrow> bit (MASKRANGE64 hi lo) n \<longleftrightarrow> lo \<le> n \<and> n \<le> hi"
proof -
  assume "hi < 64"
  have ones: "(0xffffffffffffffff :: u64) = mask 64" by (simp add: mask_eq_exp_minus_1)
  show ?thesis using \<open>hi < 64\<close>
    unfolding MASKRANGE64_def ones by (auto simp: bit_field bit_simps)
qed

lemma bit_MASKBIT64 [bit_field]: "bit (MASKBIT64 b) n \<longleftrightarrow> n = b \<and> b < 64"
  by (auto simp: MASKBIT64_def bit_simps)

lemma bit_BR64_GET_HL [bit_field]:
  "hi < 64 \<Longrightarrow> bit (BR64_GET_HL x hi lo) n \<longleftrightarrow> n + lo \<le> hi \<and> bit x (n + lo)"
  by (auto simp: BR64_GET_HL_def bit_field bit_simps ac_simps)

lemma BR64_GET_BIT_eq_0 [bit_field]: "pos < 64 \<Longrightarrow> BR64_GET_BIT x pos = 0 \<longleftrightarrow> \<not> bit x pos"
proof -
  assume pos: "pos < 64"
  have "BR64_GET_BIT x pos = of_bool (bit x pos)"
    using pos by (intro bit_word_eqI) (auto simp: BR64_GET_BIT_def bit_field bit_simps)
  then show ?thesis by simp
qed

lemma bit_BR64_SET_BIT [bit_field]:
  "pos < 64 \<Longrightarrow> bit (BR64_SET_BIT x pos v) n \<longleftrightarrow> (if n = pos then v else bit x n)"
  by (auto simp: BR64_SET_BIT_def bit_simps dest: bit_imp_le_length)

lemma AND_MASKBIT64_eq_0 [bit_field]: "b < 64 \<Longrightarrow> x AND MASKBIT64 b = 0 \<longleftrightarrow> \<not> bit x b"
proof -
  assume "b < 64"
  then have "x AND MASKBIT64 b = (if bit x b then MASKBIT64 b else 0)"
    by (intro bit_word_eqI) (auto simp: bit_field bit_simps)
  moreover have "MASKBIT64 b \<noteq> 0"
    using \<open>b < 64\<close> bit_MASKBIT64 [of b b] by (metis bit_0_eq bot_apply bot_bool_def)
  ultimately show ?thesis by simp
qed

text \<open>
  The reference for a field copy: \<open>br_copy dst src hi lo d\<close> is \<open>dst\<close> with the bits
  \<open>hi..lo\<close> of \<open>src\<close> placed at position \<open>d\<close>.
\<close>

definition br_copy :: "u64 \<Rightarrow> u64 \<Rightarrow> nat \<Rightarrow> nat \<Rightarrow> nat \<Rightarrow> u64" where
  "br_copy dst src hi lo d =
     (dst AND NOT (MASKRANGE64 (d + (hi - lo)) d)) OR push_bit d (BR64_GET_HL src hi lo)"

lemma bit_br_copy [bit_field]:
  assumes "lo \<le> hi" "hi < 64" "d + (hi - lo) < 64"
  shows "bit (br_copy dst src hi lo d) n \<longleftrightarrow>
     (if d \<le> n \<and> n \<le> d + (hi - lo) then bit src (n - d + lo) else bit dst n)"
  using assms by (auto simp: br_copy_def bit_field bit_simps dest: bit_imp_le_length)

lemma ZERO_HI64_id: "ZERO_HI64 v b = v \<longleftrightarrow> (\<forall>n < 64. 64 \<le> n + b \<longrightarrow> \<not> bit v n)"
  by (auto simp: bit_eq_iff bit_field)

lemma BR64_SET_HL_total [field_eval]:
  assumes "lo \<le> hi" "hi < 64" "\<forall>n < 64. hi - lo < n \<longrightarrow> \<not> bit v n"
  shows "BR64_SET_HL x hi lo v = Some ((x AND NOT (MASKRANGE64 hi lo)) OR push_bit lo v)"
  using assms by (auto simp: BR64_SET_HL_def ZERO_HI64_id assert_c_def)

lemma BR64_COPY_BITS_HL_total [field_eval]:
  assumes "lo \<le> hi" "hi < 64" "0 \<le> int lo + off" "int hi + off < 64"
  shows "BR64_COPY_BITS_HL dst src hi lo off = Some (br_copy dst src hi lo (nat (int lo + off)))"
proof -
  have d: "nat (int hi + off) = nat (int lo + off) + (hi - lo)" using assms by linarith
  have "BR64_SET_HL dst (nat (int hi + off)) (nat (int lo + off)) (BR64_GET_HL src hi lo) =
      Some (br_copy dst src hi lo (nat (int lo + off)))"
    using assms unfolding br_copy_def d
    by (subst BR64_SET_HL_total) (auto simp: bit_field)
  then show ?thesis using assms by (simp add: BR64_COPY_BITS_HL_def)
qed

text \<open>The accessors as a getter and a setter of one field.\<close>

lemma BR64_SET_HL_bit:
  assumes "BR64_SET_HL x hi lo v = Some y" "lo \<le> hi" "hi < 64"
  shows "bit y n \<longleftrightarrow> (if lo \<le> n \<and> n \<le> hi then bit v (n - lo) else bit x n)"
proof -
  have v: "\<forall>n < 64. hi - lo < n \<longrightarrow> \<not> bit v n"
    using assms by (auto simp: BR64_SET_HL_def ZERO_HI64_id)
  have "\<not> bit v (n - lo)" if "hi < n" "n < 64"
    using v that assms(2) by (simp add: diff_less_mono)
  moreover have "y = (x AND NOT (MASKRANGE64 hi lo)) OR push_bit lo v"
    using assms by (auto simp: BR64_SET_HL_def)
  ultimately show ?thesis
    using assms(2,3) by (cases "hi < n") (auto simp: bit_field bit_simps dest: bit_imp_le_length)
qed

lemma BR64_GET_HL_SET_HL:
  assumes "BR64_SET_HL x hi lo v = Some y" "lo \<le> hi" "hi < 64"
  shows "BR64_GET_HL y hi lo = v"
proof (rule bit_word_eqI)
  fix n assume "n < LENGTH(64)"
  moreover have "\<forall>n < 64. hi - lo < n \<longrightarrow> \<not> bit v n"
    using assms by (auto simp: BR64_SET_HL_def ZERO_HI64_id)
  ultimately show "bit (BR64_GET_HL y hi lo) n = bit v n"
    using assms by (cases "n + lo \<le> hi") (auto simp: bit_field BR64_SET_HL_bit)
qed

end
