(* ===== verification/HptConsts.thy ===== *)
theory HptConsts
  imports Prelude
begin

text \<open>
  The bit positions of \<^verbatim>\<open>libxmhfutil/include/hpt_consts.h\<close> that \<^verbatim>\<open>hpt.c\<close> uses, under the names of
  the header: \<open>HPT_<page table type>_<name>_L<levels>_[M][P]_[LO|HI|BIT]\<close>, where \<open>P\<close> marks an
  entry that maps a page and \<open>M\<close> one that points to the next table.
\<close>

abbreviation (input) HPT_NORM_ADDR_L2_M_HI :: nat where
  "HPT_NORM_ADDR_L2_M_HI \<equiv> 31"

abbreviation (input) HPT_NORM_ADDR_L2_M_LO :: nat where
  "HPT_NORM_ADDR_L2_M_LO \<equiv> 12"

abbreviation (input) HPT_NORM_ADDR3122_L2_P_HI :: nat where
  "HPT_NORM_ADDR3122_L2_P_HI \<equiv> 31"

abbreviation (input) HPT_NORM_ADDR3122_L2_P_LO :: nat where
  "HPT_NORM_ADDR3122_L2_P_LO \<equiv> 22"

abbreviation (input) HPT_NORM_ADDR3932_L2_P_HI :: nat where
  "HPT_NORM_ADDR3932_L2_P_HI \<equiv> 20"

abbreviation (input) HPT_NORM_ADDR3932_L2_P_LO :: nat where
  "HPT_NORM_ADDR3932_L2_P_LO \<equiv> 13"

abbreviation (input) HPT_NORM_PAT_L2_P_BIT :: nat where
  "HPT_NORM_PAT_L2_P_BIT \<equiv> 12"

abbreviation (input) HPT_NORM_ADDR_L1_P_HI :: nat where
  "HPT_NORM_ADDR_L1_P_HI \<equiv> 31"

abbreviation (input) HPT_NORM_ADDR_L1_P_LO :: nat where
  "HPT_NORM_ADDR_L1_P_LO \<equiv> 12"

abbreviation (input) HPT_NORM_PS_L2_MP_BIT :: nat where
  "HPT_NORM_PS_L2_MP_BIT \<equiv> 7"

abbreviation (input) HPT_NORM_PAT_L1_P_BIT :: nat where
  "HPT_NORM_PAT_L1_P_BIT \<equiv> 7"

abbreviation (input) HPT_NORM_PCD_L21_MP_BIT :: nat where
  "HPT_NORM_PCD_L21_MP_BIT \<equiv> 4"

abbreviation (input) HPT_NORM_PWT_L21_MP_BIT :: nat where
  "HPT_NORM_PWT_L21_MP_BIT \<equiv> 3"

abbreviation (input) HPT_NORM_US_L21_MP_BIT :: nat where
  "HPT_NORM_US_L21_MP_BIT \<equiv> 2"

abbreviation (input) HPT_NORM_RW_L21_MP_BIT :: nat where
  "HPT_NORM_RW_L21_MP_BIT \<equiv> 1"

abbreviation (input) HPT_NORM_P_L21_MP_BIT :: nat where
  "HPT_NORM_P_L21_MP_BIT \<equiv> 0"

abbreviation (input) HPT_PAE_NX_L21_MP_BIT :: nat where
  "HPT_PAE_NX_L21_MP_BIT \<equiv> 63"

abbreviation (input) HPT_PAE_ADDR_L321_M_HI :: nat where
  "HPT_PAE_ADDR_L321_M_HI \<equiv> 51"

abbreviation (input) HPT_PAE_ADDR_L321_M_LO :: nat where
  "HPT_PAE_ADDR_L321_M_LO \<equiv> 12"

abbreviation (input) HPT_PAE_ADDR_L2_P_HI :: nat where
  "HPT_PAE_ADDR_L2_P_HI \<equiv> 51"

abbreviation (input) HPT_PAE_ADDR_L2_P_LO :: nat where
  "HPT_PAE_ADDR_L2_P_LO \<equiv> 13"

abbreviation (input) HPT_PAE_PAT_L2_P_BIT :: nat where
  "HPT_PAE_PAT_L2_P_BIT \<equiv> 12"

abbreviation (input) HPT_PAE_ADDR_L1_P_HI :: nat where
  "HPT_PAE_ADDR_L1_P_HI \<equiv> 51"

abbreviation (input) HPT_PAE_ADDR_L1_P_LO :: nat where
  "HPT_PAE_ADDR_L1_P_LO \<equiv> 12"

abbreviation (input) HPT_PAE_PS_L2_MP_BIT :: nat where
  "HPT_PAE_PS_L2_MP_BIT \<equiv> 7"

abbreviation (input) HPT_PAE_PAT_L1_P_BIT :: nat where
  "HPT_PAE_PAT_L1_P_BIT \<equiv> 7"

abbreviation (input) HPT_PAE_PCD_L321_MP_BIT :: nat where
  "HPT_PAE_PCD_L321_MP_BIT \<equiv> 4"

abbreviation (input) HPT_PAE_PWT_L321_MP_BIT :: nat where
  "HPT_PAE_PWT_L321_MP_BIT \<equiv> 3"

abbreviation (input) HPT_PAE_US_L21_MP_BIT :: nat where
  "HPT_PAE_US_L21_MP_BIT \<equiv> 2"

abbreviation (input) HPT_PAE_RW_L21_MP_BIT :: nat where
  "HPT_PAE_RW_L21_MP_BIT \<equiv> 1"

abbreviation (input) HPT_PAE_P_L321_MP_BIT :: nat where
  "HPT_PAE_P_L321_MP_BIT \<equiv> 0"

abbreviation (input) HPT_LONG_NX_L4321_MP_BIT :: nat where
  "HPT_LONG_NX_L4321_MP_BIT \<equiv> 63"

abbreviation (input) HPT_LONG_ADDR_L4321_M_HI :: nat where
  "HPT_LONG_ADDR_L4321_M_HI \<equiv> 51"

abbreviation (input) HPT_LONG_ADDR_L4321_M_LO :: nat where
  "HPT_LONG_ADDR_L4321_M_LO \<equiv> 12"

abbreviation (input) HPT_LONG_ADDR_L32_P_HI :: nat where
  "HPT_LONG_ADDR_L32_P_HI \<equiv> 51"

abbreviation (input) HPT_LONG_ADDR_L32_P_LO :: nat where
  "HPT_LONG_ADDR_L32_P_LO \<equiv> 13"

abbreviation (input) HPT_LONG_ADDR_L1_P_HI :: nat where
  "HPT_LONG_ADDR_L1_P_HI \<equiv> 51"

abbreviation (input) HPT_LONG_ADDR_L1_P_LO :: nat where
  "HPT_LONG_ADDR_L1_P_LO \<equiv> 12"

abbreviation (input) HPT_LONG_PAT_L32_P_BIT :: nat where
  "HPT_LONG_PAT_L32_P_BIT \<equiv> 12"

abbreviation (input) HPT_LONG_PS_L32_MP_BIT :: nat where
  "HPT_LONG_PS_L32_MP_BIT \<equiv> 7"

abbreviation (input) HPT_LONG_PAT_L1_P_BIT :: nat where
  "HPT_LONG_PAT_L1_P_BIT \<equiv> 7"

abbreviation (input) HPT_LONG_PCD_L4321_MP_BIT :: nat where
  "HPT_LONG_PCD_L4321_MP_BIT \<equiv> 4"

abbreviation (input) HPT_LONG_PWT_L4321_MP_BIT :: nat where
  "HPT_LONG_PWT_L4321_MP_BIT \<equiv> 3"

abbreviation (input) HPT_LONG_US_L4321_MP_BIT :: nat where
  "HPT_LONG_US_L4321_MP_BIT \<equiv> 2"

abbreviation (input) HPT_LONG_RW_L4321_MP_BIT :: nat where
  "HPT_LONG_RW_L4321_MP_BIT \<equiv> 1"

abbreviation (input) HPT_LONG_P_L4321_MP_BIT :: nat where
  "HPT_LONG_P_L4321_MP_BIT \<equiv> 0"

abbreviation (input) HPT_EPT_MAXPHYADDR :: nat where
  "HPT_EPT_MAXPHYADDR \<equiv> 52"

abbreviation (input) HPT_EPT_ADDR_L4321_MP_HI :: nat where
  "HPT_EPT_ADDR_L4321_MP_HI \<equiv> HPT_EPT_MAXPHYADDR - 1"

abbreviation (input) HPT_EPT_ADDR_L4321_MP_LO :: nat where
  "HPT_EPT_ADDR_L4321_MP_LO \<equiv> 12"

abbreviation (input) HPT_EPT_PS_L32_MP_BIT :: nat where
  "HPT_EPT_PS_L32_MP_BIT \<equiv> 7"

abbreviation (input) HPT_EPT_MT_L321_P_HI :: nat where
  "HPT_EPT_MT_L321_P_HI \<equiv> 5"

abbreviation (input) HPT_EPT_MT_L321_P_LO :: nat where
  "HPT_EPT_MT_L321_P_LO \<equiv> 3"

abbreviation (input) HPT_EPT_X_L4321_MP_BIT :: nat where
  "HPT_EPT_X_L4321_MP_BIT \<equiv> 2"

abbreviation (input) HPT_EPT_W_L4321_MP_BIT :: nat where
  "HPT_EPT_W_L4321_MP_BIT \<equiv> 1"

abbreviation (input) HPT_EPT_R_L4321_MP_BIT :: nat where
  "HPT_EPT_R_L4321_MP_BIT \<equiv> 0"

abbreviation (input) HPT_EPT_PROT_L4321_MP_HI :: nat where
  "HPT_EPT_PROT_L4321_MP_HI \<equiv> 2"

abbreviation (input) HPT_EPT_PROT_L4321_MP_LO :: nat where
  "HPT_EPT_PROT_L4321_MP_LO \<equiv> 0"

abbreviation (input) HPT_CR3_PML4_LONG_HI :: nat where
  "HPT_CR3_PML4_LONG_HI \<equiv> 51"

abbreviation (input) HPT_CR3_PML4_LONG_LO :: nat where
  "HPT_CR3_PML4_LONG_LO \<equiv> 12"

abbreviation (input) HPT_CR3_PML3_PAE_HI :: nat where
  "HPT_CR3_PML3_PAE_HI \<equiv> 31"

abbreviation (input) HPT_CR3_PML3_PAE_LO :: nat where
  "HPT_CR3_PML3_PAE_LO \<equiv> 5"

abbreviation (input) HPT_CR3_PML2_NORM_HI :: nat where
  "HPT_CR3_PML2_NORM_HI \<equiv> 31"

abbreviation (input) HPT_CR3_PML2_NORM_LO :: nat where
  "HPT_CR3_PML2_NORM_LO \<equiv> 12"

abbreviation (input) HPT_CR3_MBZ11_NORM_HI :: nat where
  "HPT_CR3_MBZ11_NORM_HI \<equiv> 11"

abbreviation (input) HPT_CR3_MBZ11_NORM_LO :: nat where
  "HPT_CR3_MBZ11_NORM_LO \<equiv> 5"

abbreviation (input) HPT_CR3_MBZ2_HI :: nat where
  "HPT_CR3_MBZ2_HI \<equiv> 2"

abbreviation (input) HPT_CR3_MBZ2_LO :: nat where
  "HPT_CR3_MBZ2_LO \<equiv> 0"

abbreviation (input) HPT_EPTP_PML4_HI :: nat where
  "HPT_EPTP_PML4_HI \<equiv> HPT_EPT_MAXPHYADDR - 1"

abbreviation (input) HPT_EPTP_PML4_LO :: nat where
  "HPT_EPTP_PML4_LO \<equiv> 12"

end
