(* ===== verification/Hpt.thy ===== *)
theory Hpt
  imports Bitfield HptConsts
begin

text \<open>
  The page-map-entry accessors of \<^verbatim>\<open>libxmhfutil/hpt.c\<close>: one definition per function, in
  the order of the file. A page map entry is a 64-bit word; its layout depends on the
  paging type and the level. Each C \<open>assert\<close> is an \<open>assert_c\<close>, and a table read with
  \<open>HPT_TYPE_INVALID\<close> or with level \<open>-1\<close>, which C would do outside the array, is \<open>None\<close>.
  Levels are natural numbers: the code only ever counts down from the root level to 1.
\<close>

datatype hpt_type =
  HPT_TYPE_NORM | HPT_TYPE_PAE | HPT_TYPE_LONG | HPT_TYPE_EPT | HPT_TYPE_INVALID

type_synonym hpt_pme = u64
type_synonym hpt_prot = u64
type_synonym hpt_va = u64
type_synonym hpt_pa = u64
type_synonym hpt_pmt = u64

abbreviation (input) HPT_MAX_LEVEL :: nat where "HPT_MAX_LEVEL \<equiv> 4"
abbreviation (input) HPT_LVL_PDPT3 :: nat where "HPT_LVL_PDPT3 \<equiv> 3"
abbreviation (input) HPT_PM_SIZE :: u16 where "HPT_PM_SIZE \<equiv> 4096"

abbreviation (input) HPT_PROT_READ_MASK :: hpt_prot where "HPT_PROT_READ_MASK \<equiv> 1"
abbreviation (input) HPT_PROT_WRITE_MASK :: hpt_prot where "HPT_PROT_WRITE_MASK \<equiv> 2"
abbreviation (input) HPT_PROT_EXEC_MASK :: hpt_prot where "HPT_PROT_EXEC_MASK \<equiv> 4"

abbreviation (input) HPT_PROTS_RWX :: hpt_prot where "HPT_PROTS_RWX \<equiv> 7"
abbreviation (input) HPT_PROTS_RW :: hpt_prot where "HPT_PROTS_RW \<equiv> 3"
abbreviation (input) HPT_PROTS_RX :: hpt_prot where "HPT_PROTS_RX \<equiv> 5"
abbreviation (input) HPT_PROTS_R :: hpt_prot where "HPT_PROTS_R \<equiv> 1"
abbreviation (input) HPT_PROTS_W :: hpt_prot where "HPT_PROTS_W \<equiv> 2"
abbreviation (input) HPT_PROTS_NONE :: hpt_prot where "HPT_PROTS_NONE \<equiv> 0"

abbreviation (input) HPT_PMT_UC :: hpt_pmt where "HPT_PMT_UC \<equiv> 0"
abbreviation (input) HPT_PMT_WC :: hpt_pmt where "HPT_PMT_WC \<equiv> 1"
abbreviation (input) HPT_PMT_WT :: hpt_pmt where "HPT_PMT_WT \<equiv> 4"
abbreviation (input) HPT_PMT_WP :: hpt_pmt where "HPT_PMT_WP \<equiv> 5"
abbreviation (input) HPT_PMT_WB :: hpt_pmt where "HPT_PMT_WB \<equiv> 6"

subsection \<open>Tables\<close>

definition arr_get :: "'a list \<Rightarrow> nat \<Rightarrow> 'a exec" where
  "arr_get xs i = (if i < length xs then Some (xs ! i) else None)"

definition hpt_pm_sizes :: "hpt_type \<Rightarrow> u16 list" where
  "hpt_pm_sizes t = (case t of
     HPT_TYPE_NORM \<Rightarrow> [0, HPT_PM_SIZE, HPT_PM_SIZE, 0, 0]
   | HPT_TYPE_PAE \<Rightarrow> [0, HPT_PM_SIZE, HPT_PM_SIZE, 4 * 8, 0]
   | HPT_TYPE_LONG \<Rightarrow> [0, HPT_PM_SIZE, HPT_PM_SIZE, HPT_PM_SIZE, HPT_PM_SIZE]
   | HPT_TYPE_EPT \<Rightarrow> [0, HPT_PM_SIZE, HPT_PM_SIZE, HPT_PM_SIZE, HPT_PM_SIZE]
   | HPT_TYPE_INVALID \<Rightarrow> [])"

definition hpt_pm_alignments :: "hpt_type \<Rightarrow> u16 list" where
  "hpt_pm_alignments t = (case t of
     HPT_TYPE_NORM \<Rightarrow> [0, HPT_PM_SIZE, HPT_PM_SIZE, 0, 0]
   | HPT_TYPE_PAE \<Rightarrow> [0, HPT_PM_SIZE, HPT_PM_SIZE, 32, 0]
   | HPT_TYPE_LONG \<Rightarrow> [0, HPT_PM_SIZE, HPT_PM_SIZE, HPT_PM_SIZE, 1]
   | HPT_TYPE_EPT \<Rightarrow> [0, HPT_PM_SIZE, HPT_PM_SIZE, HPT_PM_SIZE, HPT_PM_SIZE]
   | HPT_TYPE_INVALID \<Rightarrow> [])"

definition hpt_va_idx_hi :: "hpt_type \<Rightarrow> nat list" where
  "hpt_va_idx_hi t = (case t of
     HPT_TYPE_NORM \<Rightarrow> [11, 21, 31, 0, 0]
   | HPT_TYPE_PAE \<Rightarrow> [11, 20, 29, 31, 0]
   | HPT_TYPE_LONG \<Rightarrow> [11, 20, 29, 38, 47]
   | HPT_TYPE_EPT \<Rightarrow> [11, 20, 29, 38, 47]
   | HPT_TYPE_INVALID \<Rightarrow> [])"

definition hpt_type_max_lvl :: "hpt_type \<Rightarrow> nat exec" where
  "hpt_type_max_lvl t = (case t of
     HPT_TYPE_NORM \<Rightarrow> Some 2
   | HPT_TYPE_PAE \<Rightarrow> Some 3
   | HPT_TYPE_LONG \<Rightarrow> Some 4
   | HPT_TYPE_EPT \<Rightarrow> Some 4
   | HPT_TYPE_INVALID \<Rightarrow> None)"

definition hpt_pm_size :: "hpt_type \<Rightarrow> nat \<Rightarrow> u64 exec" where
  "hpt_pm_size t lvl = do {
     assert_c (lvl \<le> HPT_MAX_LEVEL);
     rv \<leftarrow> arr_get (hpt_pm_sizes t) lvl;
     assert_c (rv \<noteq> 0);
     Some (ucast rv)
   }"

subsection \<open>Root pointers\<close>

definition hpt_cr3_set_address :: "hpt_type \<Rightarrow> u64 \<Rightarrow> hpt_pa \<Rightarrow> u64 exec" where
  "hpt_cr3_set_address t cr3 a =
     (if t = HPT_TYPE_NORM then do {
        cr3 \<leftarrow> BR64_COPY_BITS_HL cr3 a HPT_CR3_PML2_NORM_HI HPT_CR3_PML2_NORM_LO 0;
        cr3 \<leftarrow> BR64_COPY_BITS_HL cr3 0 HPT_CR3_MBZ11_NORM_HI HPT_CR3_MBZ11_NORM_LO 0;
        BR64_COPY_BITS_HL cr3 0 HPT_CR3_MBZ2_HI HPT_CR3_MBZ2_LO 0
      }
      else if t = HPT_TYPE_PAE then do {
        cr3 \<leftarrow> BR64_COPY_BITS_HL cr3 a HPT_CR3_PML3_PAE_HI HPT_CR3_PML3_PAE_LO 0;
        BR64_COPY_BITS_HL cr3 0 HPT_CR3_MBZ2_HI HPT_CR3_MBZ2_LO 0
      }
      else if t = HPT_TYPE_LONG then
        BR64_COPY_BITS_HL cr3 a HPT_CR3_PML4_LONG_HI HPT_CR3_PML4_LONG_LO 0
      else None)"

definition hpt_cr3_get_address :: "hpt_type \<Rightarrow> u64 \<Rightarrow> hpt_pa exec" where
  "hpt_cr3_get_address t cr3 =
     (if t = HPT_TYPE_NORM then
        BR64_COPY_BITS_HL 0 cr3 HPT_CR3_PML2_NORM_HI HPT_CR3_PML2_NORM_LO 0
      else if t = HPT_TYPE_PAE then
        BR64_COPY_BITS_HL 0 cr3 HPT_CR3_PML3_PAE_HI HPT_CR3_PML3_PAE_LO 0
      else if t = HPT_TYPE_LONG then
        BR64_COPY_BITS_HL 0 cr3 HPT_CR3_PML4_LONG_HI HPT_CR3_PML4_LONG_LO 0
      else None)"

definition hpt_eptp_set_address :: "hpt_type \<Rightarrow> u64 \<Rightarrow> hpt_pa \<Rightarrow> u64 exec" where
  "hpt_eptp_set_address t eptp a = do {
     assert_c (t = HPT_TYPE_EPT);
     BR64_COPY_BITS_HL eptp a HPT_EPTP_PML4_HI HPT_EPTP_PML4_LO 0
   }"

definition hpt_eptp_get_address :: "hpt_type \<Rightarrow> u64 \<Rightarrow> hpt_pa exec" where
  "hpt_eptp_get_address t eptp = do {
     assert_c (t = HPT_TYPE_EPT);
     BR64_COPY_BITS_HL 0 eptp HPT_EPTP_PML4_HI HPT_EPTP_PML4_LO 0
   }"

subsection \<open>Validity\<close>

definition hpt_prot_is_valid :: "hpt_type \<Rightarrow> nat \<Rightarrow> hpt_prot \<Rightarrow> bool" where
  "hpt_prot_is_valid t lvl perms =
     (if t = HPT_TYPE_NORM then
        perms = HPT_PROTS_NONE \<or> perms = HPT_PROTS_RX \<or> perms = HPT_PROTS_RWX
      else if t = HPT_TYPE_PAE then
        perms = HPT_PROTS_NONE \<or> perms = HPT_PROTS_RWX
        \<or> ((lvl \<noteq> HPT_LVL_PDPT3 \<and> perms = HPT_PROTS_R)
            \<or> perms = HPT_PROTS_RX \<or> perms = HPT_PROTS_RW)
      else if t = HPT_TYPE_LONG then
        perms = HPT_PROTS_NONE \<or> perms = HPT_PROTS_R \<or> perms = HPT_PROTS_RX
        \<or> perms = HPT_PROTS_RW \<or> perms = HPT_PROTS_RWX
      else if t = HPT_TYPE_EPT then True
      else False)"

definition hpt_lvl_is_valid :: "hpt_type \<Rightarrow> nat \<Rightarrow> bool exec" where
  "hpt_lvl_is_valid t lvl = do { m \<leftarrow> hpt_type_max_lvl t; Some (lvl \<le> m) }"

definition hpt_type_is_valid :: "hpt_type \<Rightarrow> bool" where
  "hpt_type_is_valid t \<longleftrightarrow> t \<noteq> HPT_TYPE_INVALID"

definition hpt_root_lvl :: "hpt_type \<Rightarrow> nat exec" where
  "hpt_root_lvl t = do { assert_c (hpt_type_is_valid t); hpt_type_max_lvl t }"

subsection \<open>User and protection bits\<close>

definition hpt_pme_setuser :: "hpt_type \<Rightarrow> nat \<Rightarrow> hpt_pme \<Rightarrow> bool \<Rightarrow> hpt_pme exec" where
  "hpt_pme_setuser t lvl entry user_accessible =
     (if t = HPT_TYPE_NORM then
        Some (BR64_SET_BIT entry HPT_NORM_US_L21_MP_BIT user_accessible)
      else if t = HPT_TYPE_PAE then
        (if lvl = 3 then do { assert_c user_accessible; Some entry }
         else Some (BR64_SET_BIT entry HPT_PAE_US_L21_MP_BIT user_accessible))
      else if t = HPT_TYPE_LONG then
        Some (BR64_SET_BIT entry HPT_LONG_US_L4321_MP_BIT user_accessible)
      else if t = HPT_TYPE_EPT then do { assert_c user_accessible; Some entry }
      else None)"

definition hpt_pme_getuser :: "hpt_type \<Rightarrow> nat \<Rightarrow> hpt_pme \<Rightarrow> bool exec" where
  "hpt_pme_getuser t lvl entry =
     (if t = HPT_TYPE_NORM then Some (BR64_GET_BIT entry HPT_NORM_US_L21_MP_BIT \<noteq> 0)
      else if t = HPT_TYPE_PAE then
        (if lvl = 3 then Some True
         else Some (BR64_GET_BIT entry HPT_PAE_US_L21_MP_BIT \<noteq> 0))
      else if t = HPT_TYPE_LONG then Some (BR64_GET_BIT entry HPT_LONG_US_L4321_MP_BIT \<noteq> 0)
      else if t = HPT_TYPE_EPT then Some True
      else None)"

definition hpt_pme_setprot :: "hpt_type \<Rightarrow> nat \<Rightarrow> hpt_pme \<Rightarrow> hpt_prot \<Rightarrow> hpt_pme exec" where
  "hpt_pme_setprot t lvl entry perms = do {
     lvl_ok \<leftarrow> hpt_lvl_is_valid t lvl;
     assert_c lvl_ok;
     assert_c (hpt_prot_is_valid t lvl perms);
     if t = HPT_TYPE_NORM then
       (let rv = BR64_SET_BIT entry HPT_NORM_P_L21_MP_BIT (perms AND HPT_PROT_READ_MASK \<noteq> 0);
            rv = BR64_SET_BIT rv HPT_NORM_RW_L21_MP_BIT (perms AND HPT_PROT_WRITE_MASK \<noteq> 0)
        in Some rv)
     else if t = HPT_TYPE_PAE then
       (let rv = BR64_SET_BIT entry HPT_PAE_P_L321_MP_BIT (perms AND HPT_PROT_READ_MASK \<noteq> 0)
        in if lvl = 2 \<or> lvl = 1 then
             (let rv = BR64_SET_BIT rv HPT_PAE_RW_L21_MP_BIT (perms AND HPT_PROT_WRITE_MASK \<noteq> 0);
                  rv = BR64_SET_BIT rv HPT_PAE_NX_L21_MP_BIT (\<not> perms AND HPT_PROT_EXEC_MASK \<noteq> 0)
              in Some rv)
           else Some rv)
     else if t = HPT_TYPE_LONG then
       (let rv = BR64_SET_BIT entry HPT_LONG_P_L4321_MP_BIT (perms AND HPT_PROT_READ_MASK \<noteq> 0);
            rv = BR64_SET_BIT rv HPT_LONG_RW_L4321_MP_BIT (perms AND HPT_PROT_WRITE_MASK \<noteq> 0);
            rv = BR64_SET_BIT rv HPT_LONG_NX_L4321_MP_BIT (\<not> perms AND HPT_PROT_EXEC_MASK \<noteq> 0)
        in Some rv)
     else if t = HPT_TYPE_EPT then
       BR64_SET_HL entry HPT_EPT_PROT_L4321_MP_HI HPT_EPT_PROT_L4321_MP_LO perms
     else None
   }"

definition hpt_pme_getprot :: "hpt_type \<Rightarrow> nat \<Rightarrow> hpt_pme \<Rightarrow> hpt_prot exec" where
  "hpt_pme_getprot t lvl entry = do {
     lvl_ok \<leftarrow> hpt_lvl_is_valid t lvl;
     assert_c lvl_ok;
     (r, w, x) \<leftarrow>
       (if t = HPT_TYPE_NORM then
          (let r = (entry AND MASKBIT64 HPT_NORM_P_L21_MP_BIT \<noteq> 0)
           in Some (r, entry AND MASKBIT64 HPT_NORM_RW_L21_MP_BIT \<noteq> 0, r))
        else if t = HPT_TYPE_PAE then
          (let r = (entry AND MASKBIT64 HPT_PAE_P_L321_MP_BIT \<noteq> 0)
           in if lvl = 2 \<or> lvl = 1 then
                Some (r, entry AND MASKBIT64 HPT_PAE_RW_L21_MP_BIT \<noteq> 0,
                         \<not> (entry AND MASKBIT64 HPT_PAE_NX_L21_MP_BIT \<noteq> 0))
              else Some (r, r, r))
        else if t = HPT_TYPE_LONG then
          Some (entry AND MASKBIT64 HPT_LONG_P_L4321_MP_BIT \<noteq> 0,
                entry AND MASKBIT64 HPT_LONG_RW_L4321_MP_BIT \<noteq> 0,
                \<not> (entry AND MASKBIT64 HPT_LONG_NX_L4321_MP_BIT \<noteq> 0))
        else if t = HPT_TYPE_EPT then
          Some (entry AND MASKBIT64 HPT_EPT_R_L4321_MP_BIT \<noteq> 0,
                entry AND MASKBIT64 HPT_EPT_W_L4321_MP_BIT \<noteq> 0,
                entry AND MASKBIT64 HPT_EPT_X_L4321_MP_BIT \<noteq> 0)
        else None);
     let rv = HPT_PROTS_NONE;
         rv = rv OR (if r then HPT_PROT_READ_MASK else 0);
         rv = rv OR (if w then HPT_PROT_WRITE_MASK else 0);
         rv = rv OR (if x then HPT_PROT_EXEC_MASK else 0)
     in Some rv
   }"

subsection \<open>Bits the hardware ignores, presence, page size\<close>

definition hpt_pme_setunused ::
  "hpt_type \<Rightarrow> nat \<Rightarrow> hpt_pme \<Rightarrow> int \<Rightarrow> int \<Rightarrow> hpt_pme \<Rightarrow> hpt_pme exec" where
  "hpt_pme_setunused t lvl entry hi lo val = do {
     assert_c (hi > lo);
     if t = HPT_TYPE_NORM \<or> t = HPT_TYPE_PAE \<or> t = HPT_TYPE_LONG \<or> t = HPT_TYPE_EPT then do {
       assert_c (hi \<le> 2);
       if min 2 hi < 0 then None
       else BR64_COPY_BITS_HL entry val (nat (min 2 hi)) (nat (max 0 lo)) (9 - 0)
     }
     else None
   }"

definition hpt_pme_getunused ::
  "hpt_type \<Rightarrow> nat \<Rightarrow> hpt_pme \<Rightarrow> int \<Rightarrow> int \<Rightarrow> hpt_pme exec" where
  "hpt_pme_getunused t lvl entry hi lo = do {
     assert_c (hi > lo);
     if t = HPT_TYPE_NORM \<or> t = HPT_TYPE_PAE \<or> t = HPT_TYPE_LONG \<or> t = HPT_TYPE_EPT then do {
       assert_c (hi \<le> 2);
       if min 2 hi < 0 then None
       else do {
         rv \<leftarrow> BR64_COPY_BITS_HL 0 entry (nat (min 2 hi)) (nat (max 0 lo)) (9 - 0);
         Some (BR64_GET_HL entry (nat (min 2 hi) + 9) (nat (max 0 lo) + 9))
       }
     }
     else None
   }"

definition hpt_pme_is_present :: "hpt_type \<Rightarrow> nat \<Rightarrow> hpt_pme \<Rightarrow> bool exec" where
  "hpt_pme_is_present t lvl entry =
     (if t = HPT_TYPE_EPT then do {
        prot \<leftarrow> hpt_pme_getprot t lvl entry;
        Some (prot AND HPT_PROTS_RWX \<noteq> 0)
      }
      else do {
        prot \<leftarrow> hpt_pme_getprot t lvl entry;
        Some (prot AND HPT_PROT_READ_MASK \<noteq> 0)
      })"

definition hpt_pme_set_page :: "hpt_type \<Rightarrow> nat \<Rightarrow> hpt_pme \<Rightarrow> bool \<Rightarrow> hpt_pme exec" where
  "hpt_pme_set_page t lvl entry is_page =
     (if lvl = 1 then do { assert_c is_page; Some entry }
      else if t = HPT_TYPE_NORM then do {
        assert_c (lvl \<le> 2);
        Some (BR64_SET_BIT entry HPT_NORM_PS_L2_MP_BIT is_page)
      }
      else if t = HPT_TYPE_PAE then do {
        assert_c (lvl \<le> 3);
        if lvl \<le> 2 then Some (BR64_SET_BIT entry HPT_PAE_PS_L2_MP_BIT is_page)
        else do { assert_c (\<not> is_page); Some entry }
      }
      else if t = HPT_TYPE_LONG then do {
        assert_c (lvl \<le> 4);
        if lvl \<le> 3 then Some (BR64_SET_BIT entry HPT_LONG_PS_L32_MP_BIT is_page)
        else do { assert_c (\<not> is_page); Some entry }
      }
      else if t = HPT_TYPE_EPT then do {
        assert_c (lvl \<le> 4);
        if lvl \<le> 3 then Some (BR64_SET_BIT entry HPT_EPT_PS_L32_MP_BIT is_page)
        else do { assert_c (\<not> is_page); Some entry }
      }
      else None)"

definition hpt_pme_is_page :: "hpt_type \<Rightarrow> nat \<Rightarrow> hpt_pme \<Rightarrow> bool exec" where
  "hpt_pme_is_page t lvl entry =
     (if t = HPT_TYPE_NORM then do {
        assert_c (lvl \<le> 2);
        Some (lvl = 1 \<or> (lvl = 2 \<and> BR64_GET_BIT entry HPT_NORM_PS_L2_MP_BIT \<noteq> 0))
      }
      else if t = HPT_TYPE_PAE then do {
        assert_c (lvl \<le> 3);
        Some (lvl = 1 \<or> (lvl = 2 \<and> BR64_GET_BIT entry HPT_PAE_PS_L2_MP_BIT \<noteq> 0))
      }
      else if t = HPT_TYPE_LONG then do {
        assert_c (lvl \<le> 4);
        Some (lvl = 1 \<or> ((lvl = 2 \<or> lvl = 3) \<and> BR64_GET_BIT entry HPT_LONG_PS_L32_MP_BIT \<noteq> 0))
      }
      else if t = HPT_TYPE_EPT then do {
        assert_c (lvl \<le> 4);
        Some (lvl = 1 \<or> ((lvl = 2 \<or> lvl = 3) \<and> BR64_GET_BIT entry HPT_EPT_PS_L32_MP_BIT \<noteq> 0))
      }
      else None)"

subsection \<open>Addresses\<close>

definition hpt_pme_get_address :: "hpt_type \<Rightarrow> nat \<Rightarrow> hpt_pme \<Rightarrow> hpt_pa exec" where
  "hpt_pme_get_address t lvl entry =
     (if t = HPT_TYPE_NORM then do {
        assert_c (lvl \<le> 2);
        if lvl = 2 then do {
          is_page \<leftarrow> hpt_pme_is_page t lvl entry;
          if is_page then do {
            rv \<leftarrow> BR64_COPY_BITS_HL 0 entry 39 32 (32 - int HPT_NORM_ADDR3932_L2_P_LO);
            BR64_COPY_BITS_HL rv entry 31 22 (22 - int HPT_NORM_ADDR3122_L2_P_LO)
          }
          else BR64_COPY_BITS_HL 0 entry HPT_NORM_ADDR_L2_M_HI HPT_NORM_ADDR_L2_M_LO 0
        }
        else BR64_COPY_BITS_HL 0 entry HPT_NORM_ADDR_L1_P_HI HPT_NORM_ADDR_L1_P_LO 0
      }
      else if t = HPT_TYPE_PAE then do {
        assert_c (lvl \<le> 3);
        is_page \<leftarrow> hpt_pme_is_page t lvl entry;
        if is_page then
          (if lvl = 1 then BR64_COPY_BITS_HL 0 entry HPT_PAE_ADDR_L1_P_HI HPT_PAE_ADDR_L1_P_LO 0
           else do {
             assert_c (lvl = 2);
             BR64_COPY_BITS_HL 0 entry HPT_PAE_ADDR_L2_P_HI HPT_PAE_ADDR_L2_P_LO 0
           })
        else BR64_COPY_BITS_HL 0 entry HPT_PAE_ADDR_L321_M_HI HPT_PAE_ADDR_L321_M_LO 0
      }
      else if t = HPT_TYPE_LONG then do {
        assert_c (lvl \<le> 4);
        is_page \<leftarrow> hpt_pme_is_page t lvl entry;
        if is_page then
          (if lvl = 1 then BR64_COPY_BITS_HL 0 entry HPT_LONG_ADDR_L1_P_HI HPT_LONG_ADDR_L1_P_LO 0
           else BR64_COPY_BITS_HL 0 entry HPT_LONG_ADDR_L32_P_HI HPT_LONG_ADDR_L32_P_LO 0)
        else BR64_COPY_BITS_HL 0 entry HPT_LONG_ADDR_L4321_M_HI HPT_LONG_ADDR_L4321_M_LO 0
      }
      else if t = HPT_TYPE_EPT then do {
        assert_c (lvl \<le> 4);
        BR64_COPY_BITS_HL 0 entry HPT_EPT_ADDR_L4321_MP_HI HPT_EPT_ADDR_L4321_MP_LO 0
      }
      else None)"

definition hpt_pme_set_address :: "hpt_type \<Rightarrow> nat \<Rightarrow> hpt_pme \<Rightarrow> hpt_pa \<Rightarrow> hpt_pme exec" where
  "hpt_pme_set_address t lvl entry addr =
     (if t = HPT_TYPE_NORM then do {
        assert_c (lvl \<le> 2);
        if lvl = 2 then do {
          is_page \<leftarrow> hpt_pme_is_page t lvl entry;
          if is_page then do {
            rv \<leftarrow> BR64_COPY_BITS_HL entry addr HPT_NORM_ADDR3932_L2_P_HI HPT_NORM_ADDR3932_L2_P_LO
                   (int HPT_NORM_ADDR3932_L2_P_LO - 32);
            BR64_COPY_BITS_HL entry addr HPT_NORM_ADDR3122_L2_P_HI HPT_NORM_ADDR3122_L2_P_LO
              (int HPT_NORM_ADDR3122_L2_P_LO - 22)
          }
          else BR64_COPY_BITS_HL entry addr HPT_NORM_ADDR_L2_M_HI HPT_NORM_ADDR_L2_M_LO 0
        }
        else BR64_COPY_BITS_HL entry addr HPT_NORM_ADDR_L1_P_HI HPT_NORM_ADDR_L1_P_LO 0
      }
      else if t = HPT_TYPE_PAE then do {
        assert_c (lvl \<le> 3);
        is_page \<leftarrow> hpt_pme_is_page t lvl entry;
        if is_page then
          (if lvl = 1 then BR64_COPY_BITS_HL entry addr HPT_PAE_ADDR_L1_P_HI HPT_PAE_ADDR_L1_P_LO 0
           else do {
             assert_c (lvl = 2);
             BR64_COPY_BITS_HL entry addr HPT_PAE_ADDR_L2_P_HI HPT_PAE_ADDR_L2_P_LO 0
           })
        else BR64_COPY_BITS_HL entry addr HPT_PAE_ADDR_L321_M_HI HPT_PAE_ADDR_L321_M_LO 0
      }
      else if t = HPT_TYPE_LONG then do {
        assert_c (lvl \<le> 4);
        is_page \<leftarrow> hpt_pme_is_page t lvl entry;
        if is_page then
          (if lvl = 1 then BR64_COPY_BITS_HL entry addr HPT_LONG_ADDR_L1_P_HI HPT_LONG_ADDR_L1_P_LO 0
           else BR64_COPY_BITS_HL entry addr HPT_LONG_ADDR_L32_P_HI HPT_LONG_ADDR_L32_P_LO 0)
        else BR64_COPY_BITS_HL entry addr HPT_LONG_ADDR_L4321_M_HI HPT_LONG_ADDR_L4321_M_LO 0
      }
      else if t = HPT_TYPE_EPT then do {
        assert_c (lvl \<le> 4);
        BR64_COPY_BITS_HL entry addr HPT_EPT_ADDR_L4321_MP_HI HPT_EPT_ADDR_L4321_MP_LO 0
      }
      else None)"

subsection \<open>Memory types\<close>

definition hpt_pme_set_pat :: "hpt_type \<Rightarrow> nat \<Rightarrow> hpt_pme \<Rightarrow> bool \<Rightarrow> hpt_pme exec" where
  "hpt_pme_set_pat t lvl pme pat =
     (if t = HPT_TYPE_NORM then do {
        is_page \<leftarrow> hpt_pme_is_page t lvl pme;
        if is_page \<and> lvl = 1 then Some (BR64_SET_BIT pme HPT_NORM_PAT_L1_P_BIT pat)
        else if is_page \<and> lvl = 2 then Some (BR64_SET_BIT pme HPT_NORM_PAT_L2_P_BIT pat)
        else do { assert_c (\<not> pat); Some pme }
      }
      else if t = HPT_TYPE_PAE then do {
        is_page \<leftarrow> hpt_pme_is_page t lvl pme;
        if is_page \<and> lvl = 1 then Some (BR64_SET_BIT pme HPT_PAE_PAT_L1_P_BIT pat)
        else if is_page \<and> lvl = 2 then Some (BR64_SET_BIT pme HPT_PAE_PAT_L2_P_BIT pat)
        else do { assert_c (\<not> pat); Some pme }
      }
      else if t = HPT_TYPE_LONG then do {
        is_page \<leftarrow> hpt_pme_is_page t lvl pme;
        if is_page \<and> lvl = 1 then Some (BR64_SET_BIT pme HPT_LONG_PAT_L1_P_BIT pat)
        else if is_page \<and> (lvl = 2 \<or> lvl = 3) then Some (BR64_SET_BIT pme HPT_LONG_PAT_L32_P_BIT pat)
        else do { assert_c (\<not> pat); Some pme }
      }
      else None)"

definition hpt_pme_get_pat :: "hpt_type \<Rightarrow> nat \<Rightarrow> hpt_pme \<Rightarrow> bool exec" where
  "hpt_pme_get_pat t lvl pme =
     (if t = HPT_TYPE_NORM then do {
        is_page \<leftarrow> hpt_pme_is_page t lvl pme;
        if is_page \<and> lvl = 1 then Some (BR64_GET_BIT pme HPT_NORM_PAT_L1_P_BIT \<noteq> 0)
        else if is_page \<and> lvl = 2 then Some (BR64_GET_BIT pme HPT_NORM_PAT_L2_P_BIT \<noteq> 0)
        else Some False
      }
      else if t = HPT_TYPE_PAE then do {
        is_page \<leftarrow> hpt_pme_is_page t lvl pme;
        if is_page \<and> lvl = 1 then Some (BR64_GET_BIT pme HPT_PAE_PAT_L1_P_BIT \<noteq> 0)
        else if is_page \<and> lvl = 2 then Some (BR64_GET_BIT pme HPT_PAE_PAT_L2_P_BIT \<noteq> 0)
        else Some False
      }
      else if t = HPT_TYPE_LONG then do {
        is_page \<leftarrow> hpt_pme_is_page t lvl pme;
        if is_page \<and> lvl = 1 then Some (BR64_GET_BIT pme HPT_LONG_PAT_L1_P_BIT \<noteq> 0)
        else if is_page \<and> (lvl = 2 \<or> lvl = 3) then Some (BR64_GET_BIT pme HPT_LONG_PAT_L32_P_BIT \<noteq> 0)
        else Some False
      }
      else None)"

definition hpt_pme_get_pcd :: "hpt_type \<Rightarrow> nat \<Rightarrow> hpt_pme \<Rightarrow> bool exec" where
  "hpt_pme_get_pcd t lvl pme =
     (if t = HPT_TYPE_NORM then Some (BR64_GET_BIT pme HPT_NORM_PCD_L21_MP_BIT \<noteq> 0)
      else if t = HPT_TYPE_PAE then Some (BR64_GET_BIT pme HPT_PAE_PCD_L321_MP_BIT \<noteq> 0)
      else if t = HPT_TYPE_LONG then Some (BR64_GET_BIT pme HPT_LONG_PCD_L4321_MP_BIT \<noteq> 0)
      else None)"

definition hpt_pme_set_pcd :: "hpt_type \<Rightarrow> nat \<Rightarrow> hpt_pme \<Rightarrow> bool \<Rightarrow> hpt_pme exec" where
  "hpt_pme_set_pcd t lvl pme pcd =
     (if t = HPT_TYPE_NORM then Some (BR64_SET_BIT pme HPT_NORM_PCD_L21_MP_BIT pcd)
      else if t = HPT_TYPE_PAE then Some (BR64_SET_BIT pme HPT_PAE_PCD_L321_MP_BIT pcd)
      else if t = HPT_TYPE_LONG then Some (BR64_SET_BIT pme HPT_LONG_PCD_L4321_MP_BIT pcd)
      else None)"

definition hpt_pme_get_pwt :: "hpt_type \<Rightarrow> nat \<Rightarrow> hpt_pme \<Rightarrow> bool exec" where
  "hpt_pme_get_pwt t lvl pme =
     (if t = HPT_TYPE_NORM then Some (BR64_GET_BIT pme HPT_NORM_PWT_L21_MP_BIT \<noteq> 0)
      else if t = HPT_TYPE_PAE then Some (BR64_GET_BIT pme HPT_PAE_PWT_L321_MP_BIT \<noteq> 0)
      else if t = HPT_TYPE_LONG then Some (BR64_GET_BIT pme HPT_LONG_PWT_L4321_MP_BIT \<noteq> 0)
      else None)"

definition hpt_pme_set_pwt :: "hpt_type \<Rightarrow> nat \<Rightarrow> hpt_pme \<Rightarrow> bool \<Rightarrow> hpt_pme exec" where
  "hpt_pme_set_pwt t lvl pme pwt =
     (if t = HPT_TYPE_NORM then Some (BR64_SET_BIT pme HPT_NORM_PWT_L21_MP_BIT pwt)
      else if t = HPT_TYPE_PAE then Some (BR64_SET_BIT pme HPT_PAE_PWT_L321_MP_BIT pwt)
      else if t = HPT_TYPE_LONG then Some (BR64_SET_BIT pme HPT_LONG_PWT_L4321_MP_BIT pwt)
      else None)"

definition hpt_pme_get_pmt :: "hpt_type \<Rightarrow> nat \<Rightarrow> hpt_pme \<Rightarrow> hpt_pmt exec" where
  "hpt_pme_get_pmt t lvl pme =
     (if t = HPT_TYPE_EPT then do {
        assert_c (lvl \<le> 3);
        is_page \<leftarrow> hpt_pme_is_page t lvl pme;
        assert_c is_page;
        Some (BR64_GET_HL pme HPT_EPT_MT_L321_P_HI HPT_EPT_MT_L321_P_LO)
      }
      else if t = HPT_TYPE_PAE \<or> t = HPT_TYPE_LONG \<or> t = HPT_TYPE_NORM then do {
        pcd \<leftarrow> hpt_pme_get_pcd t lvl pme;
        pwt \<leftarrow> hpt_pme_get_pwt t lvl pme;
        if \<not> pcd \<and> \<not> pwt then Some HPT_PMT_WB
        else if \<not> pcd \<and> pwt then Some HPT_PMT_WT
        else if pcd \<and> \<not> pwt then Some HPT_PMT_WC
        else Some HPT_PMT_UC
      }
      else None)"

definition hpt_pme_set_pmt :: "hpt_type \<Rightarrow> nat \<Rightarrow> hpt_pme \<Rightarrow> hpt_pmt \<Rightarrow> hpt_pme exec" where
  "hpt_pme_set_pmt t lvl pme pmt =
     (if t = HPT_TYPE_EPT then do {
        assert_c (lvl \<le> 3);
        is_page \<leftarrow> hpt_pme_is_page t lvl pme;
        assert_c is_page;
        BR64_SET_HL pme HPT_EPT_MT_L321_P_HI HPT_EPT_MT_L321_P_LO pmt
      }
      else if t = HPT_TYPE_NORM \<or> t = HPT_TYPE_PAE \<or> t = HPT_TYPE_LONG then do {
        (pcd, pwt) \<leftarrow>
          (if pmt = HPT_PMT_UC then Some (True, True)
           else if pmt = HPT_PMT_WC then Some (True, False)
           else if pmt = HPT_PMT_WT then Some (False, True)
           else if pmt = HPT_PMT_WP then None
           else if pmt = HPT_PMT_WB then Some (False, False)
           else None);
        rv \<leftarrow> hpt_pme_set_pat t lvl pme False;
        rv \<leftarrow> hpt_pme_set_pcd t lvl rv pcd;
        hpt_pme_set_pwt t lvl rv pwt
      }
      else None)"

subsection \<open>Page maps in memory\<close>

definition hpt_get_pm_idx :: "hpt_type \<Rightarrow> nat \<Rightarrow> hpt_va \<Rightarrow> u32 exec" where
  "hpt_get_pm_idx t lvl va = do {
     assert_c (hpt_type_is_valid t);
     lvl_ok \<leftarrow> hpt_lvl_is_valid t lvl;
     assert_c lvl_ok;
     hi \<leftarrow> arr_get (hpt_va_idx_hi t) lvl;
     lo \<leftarrow> (if lvl = 0 then None else arr_get (hpt_va_idx_hi t) (lvl - 1));
     Some (ucast (BR64_GET_HL va hi (lo + 1)))
   }"

definition hpt_pm_get_pme_by_idx ::
  "hpt_type \<Rightarrow> nat \<Rightarrow> memory \<Rightarrow> u64 \<Rightarrow> u32 \<Rightarrow> hpt_pme exec" where
  "hpt_pm_get_pme_by_idx t lvl m pm idx =
     (if t = HPT_TYPE_EPT \<or> t = HPT_TYPE_PAE \<or> t = HPT_TYPE_LONG then
        Some (load_le m (pm + 8 * scast idx) 8)
      else if t = HPT_TYPE_NORM then Some (load_le m (pm + 4 * scast idx) 4)
      else None)"

definition hpt_pm_set_pme_by_idx ::
  "hpt_type \<Rightarrow> nat \<Rightarrow> memory \<Rightarrow> u64 \<Rightarrow> u32 \<Rightarrow> hpt_pme \<Rightarrow> memory exec" where
  "hpt_pm_set_pme_by_idx t lvl m pm idx pme =
     (if t = HPT_TYPE_EPT \<or> t = HPT_TYPE_PAE \<or> t = HPT_TYPE_LONG then
        Some (store_le m (pm + 8 * scast idx) 8 pme)
      else if t = HPT_TYPE_NORM then Some (store_le m (pm + 4 * scast idx) 4 pme)
      else None)"

definition hpt_pm_get_pme_by_va ::
  "hpt_type \<Rightarrow> nat \<Rightarrow> memory \<Rightarrow> u64 \<Rightarrow> hpt_va \<Rightarrow> hpt_pme exec" where
  "hpt_pm_get_pme_by_va t lvl m pm va = do {
     idx \<leftarrow> hpt_get_pm_idx t lvl va;
     hpt_pm_get_pme_by_idx t lvl m pm idx
   }"

definition hpt_pm_set_pme_by_va ::
  "hpt_type \<Rightarrow> nat \<Rightarrow> memory \<Rightarrow> u64 \<Rightarrow> hpt_va \<Rightarrow> hpt_pme \<Rightarrow> memory exec" where
  "hpt_pm_set_pme_by_va t lvl m pm va pme = do {
     idx \<leftarrow> hpt_get_pm_idx t lvl va;
     hpt_pm_set_pme_by_idx t lvl m pm idx pme
   }"

subsection \<open>Vocabulary of the specification\<close>

text \<open>
  The bits that each field occupies in an entry of a given type and level: the bits its getter
  reads and its setter writes, the values the field can hold, and the position and width of
  the index of a level inside a virtual address.
\<close>

definition prot_of :: "bool \<Rightarrow> bool \<Rightarrow> bool \<Rightarrow> hpt_prot" where
  "prot_of r w x = (if r then 1 else 0) OR (if w then 2 else 0) OR (if x then 4 else 0)"

definition prot_bits :: "hpt_type \<Rightarrow> nat \<Rightarrow> nat set" where
  "prot_bits t lvl = (case t of
     HPT_TYPE_NORM \<Rightarrow> {0, 1}
   | HPT_TYPE_PAE \<Rightarrow> (if lvl = 1 \<or> lvl = 2 then {0, 1, 63} else {0})
   | HPT_TYPE_LONG \<Rightarrow> {0, 1, 63}
   | HPT_TYPE_EPT \<Rightarrow> {0, 1, 2}
   | HPT_TYPE_INVALID \<Rightarrow> {})"

definition addr_mask :: "hpt_type \<Rightarrow> nat \<Rightarrow> bool \<Rightarrow> u64" where
  "addr_mask t lvl page = (case t of
     HPT_TYPE_NORM \<Rightarrow> MASKRANGE64 31 12
   | HPT_TYPE_EPT \<Rightarrow> MASKRANGE64 51 12
   | _ \<Rightarrow> MASKRANGE64 51 (if page \<and> lvl \<noteq> 1 then 13 else 12))"

definition user_bits :: "hpt_type \<Rightarrow> nat \<Rightarrow> nat set" where
  "user_bits t lvl = (if t = HPT_TYPE_EPT \<or> t = HPT_TYPE_PAE \<and> lvl = 3 then {} else {2})"

definition pmt_rbits :: "hpt_type \<Rightarrow> nat set" where
  "pmt_rbits t = (if t = HPT_TYPE_EPT then {3, 4, 5, 7} else {3, 4})"

definition pmt_wbits :: "hpt_type \<Rightarrow> nat \<Rightarrow> nat set" where
  "pmt_wbits t lvl = (if t = HPT_TYPE_EPT then {3, 4, 5} else if lvl = 1 then {3, 4, 7} else {3, 4, 12})"

definition prot_representable :: "hpt_type \<Rightarrow> nat \<Rightarrow> hpt_prot \<Rightarrow> bool" where
  "prot_representable t lvl p \<longleftrightarrow> 0 < lvl
     \<and> \<not> (t = HPT_TYPE_PAE \<and> lvl = 3 \<and> (p = HPT_PROTS_RX \<or> p = HPT_PROTS_RW))"

definition pme_size :: "hpt_type \<Rightarrow> nat" where
  "pme_size t = (if t = HPT_TYPE_NORM then 4 else 8)"

definition pm_shift :: "hpt_type \<Rightarrow> nat \<Rightarrow> nat" where
  "pm_shift t lvl = (if t = HPT_TYPE_NORM then 12 + 10 * (lvl - 1) else 12 + 9 * (lvl - 1))"

definition pm_width :: "hpt_type \<Rightarrow> nat \<Rightarrow> nat" where
  "pm_width t lvl = (if t = HPT_TYPE_NORM then 10 else if t = HPT_TYPE_PAE \<and> lvl = 3 then 2 else 9)"

definition lvl_ok :: "hpt_type \<Rightarrow> nat \<Rightarrow> bool" where
  "lvl_ok t lvl \<longleftrightarrow> 0 < lvl \<and> (case hpt_type_max_lvl t of None \<Rightarrow> False | Some m \<Rightarrow> lvl \<le> m)"

subsection \<open>What the accessors compute\<close>

lemma hpt_type_max_lvl_simps [simp]:
  "hpt_type_max_lvl HPT_TYPE_NORM = Some 2" "hpt_type_max_lvl HPT_TYPE_PAE = Some 3"
  "hpt_type_max_lvl HPT_TYPE_LONG = Some 4" "hpt_type_max_lvl HPT_TYPE_EPT = Some 4"
  "hpt_type_max_lvl HPT_TYPE_INVALID = None"
  by (simp_all add: hpt_type_max_lvl_def)

lemma hpt_lvl_is_valid_simps [simp]:
  "hpt_lvl_is_valid HPT_TYPE_NORM lvl = Some (lvl \<le> 2)" "hpt_lvl_is_valid HPT_TYPE_PAE lvl = Some (lvl \<le> 3)"
  "hpt_lvl_is_valid HPT_TYPE_LONG lvl = Some (lvl \<le> 4)" "hpt_lvl_is_valid HPT_TYPE_EPT lvl = Some (lvl \<le> 4)"
  "hpt_lvl_is_valid HPT_TYPE_INVALID lvl = None"
  by (simp_all add: hpt_lvl_is_valid_def)

lemma bit_prot_of [bit_field]:
  "bit (prot_of r w x) n \<longleftrightarrow> n = 0 \<and> r \<or> n = 1 \<and> w \<or> n = 2 \<and> x"
  by (cases n; cases "n - 1"; cases "n - 2") (auto simp: prot_of_def bit_simps bit_Suc)

lemma prot_of_bits: "(\<forall>n < 64. 2 < n \<longrightarrow> \<not> bit p n) \<Longrightarrow> prot_of (bit p 0) (bit p 1) (bit p 2) = p"
proof (rule bit_word_eqI)
  fix n assume p: "\<forall>n < 64. 2 < n \<longrightarrow> \<not> bit p n" and "n < LENGTH(64)"
  consider "n = 0" | "n = 1" | "n = 2" | "2 < n" by linarith
  then show "bit (prot_of (bit p 0) (bit p 1) (bit p 2)) n = bit p n"
    using p \<open>n < LENGTH(64)\<close> by cases (auto simp: bit_field)
qed

lemma prot_mask_bits [bit_field]:
  "(p :: u64) AND 1 = 0 \<longleftrightarrow> \<not> bit p 0" "p AND 2 = 0 \<longleftrightarrow> \<not> bit p 1" "p AND 4 = 0 \<longleftrightarrow> \<not> bit p 2"
  using AND_MASKBIT64_eq_0 [of 0 p] AND_MASKBIT64_eq_0 [of 1 p] AND_MASKBIT64_eq_0 [of 2 p]
  by (simp_all add: MASKBIT64_def)

lemma hpt_pme_getprot_eq:
  "hpt_pme_getprot HPT_TYPE_NORM lvl e = (if lvl \<le> 2 then Some (prot_of (bit e 0) (bit e 1) (bit e 0)) else None)"
  "hpt_pme_getprot HPT_TYPE_PAE lvl e = (if lvl = 1 \<or> lvl = 2 then Some (prot_of (bit e 0) (bit e 1) (\<not> bit e 63))
     else if lvl \<le> 3 then Some (prot_of (bit e 0) (bit e 0) (bit e 0)) else None)"
  "hpt_pme_getprot HPT_TYPE_LONG lvl e = (if lvl \<le> 4 then Some (prot_of (bit e 0) (bit e 1) (\<not> bit e 63)) else None)"
  "hpt_pme_getprot HPT_TYPE_EPT lvl e = (if lvl \<le> 4 then Some (prot_of (bit e 0) (bit e 1) (bit e 2)) else None)"
  "hpt_pme_getprot HPT_TYPE_INVALID lvl e = None"
  by (auto simp: hpt_pme_getprot_def prot_of_def bit_field Let_def)

lemma prot_small_bits: "hpt_prot_is_valid t lvl p \<Longrightarrow> t \<noteq> HPT_TYPE_EPT \<Longrightarrow> prot_of (bit p 0) (bit p 1) (bit p 2) = p"
  by (cases t) (auto simp: hpt_prot_is_valid_def prot_of_def)

lemma hpt_pme_setprot_getprot:
  assumes "hpt_pme_setprot t lvl e p = Some e'" "0 < lvl"
    and "\<not> (t = HPT_TYPE_PAE \<and> lvl = 3 \<and> (p = HPT_PROTS_RX \<or> p = HPT_PROTS_RW))"
  shows "hpt_pme_getprot t lvl e' = Some p"
proof (cases t)
  case HPT_TYPE_EPT
  then have "BR64_SET_HL e 2 0 p = Some e'" and "lvl \<le> 4"
    using assms(1) by (auto simp: hpt_pme_setprot_def)
  then have p: "BR64_GET_HL e' 2 0 = p" by (intro BR64_GET_HL_SET_HL) auto
  have "prot_of (bit e' 0) (bit e' 1) (bit e' 2) = BR64_GET_HL e' 2 0"
    by (subst prot_of_bits [symmetric]) (auto simp: bit_field)
  then show ?thesis using HPT_TYPE_EPT p \<open>lvl \<le> 4\<close> by (simp add: hpt_pme_getprot_eq)
next
  case HPT_TYPE_NORM
  with assms show ?thesis
    by (auto simp: hpt_pme_setprot_def hpt_pme_getprot_eq hpt_prot_is_valid_def bit_field prot_of_def)
next
  case HPT_TYPE_PAE
  with assms show ?thesis
    by (auto simp: hpt_pme_setprot_def hpt_pme_getprot_eq hpt_prot_is_valid_def bit_field prot_of_def
             split: if_splits)
next
  case HPT_TYPE_LONG
  with assms show ?thesis
    by (auto simp: hpt_pme_setprot_def hpt_pme_getprot_eq hpt_prot_is_valid_def bit_field prot_of_def)
qed (use assms in \<open>auto simp: hpt_pme_setprot_def\<close>)

lemma hpt_pme_setprot_frame:
  assumes "hpt_pme_setprot t lvl e p = Some e'" "n \<notin> prot_bits t lvl"
  shows "bit e' n \<longleftrightarrow> bit e n"
proof (cases t)
  case HPT_TYPE_EPT
  then have "BR64_SET_HL e 2 0 p = Some e'" using assms(1) by (auto simp: hpt_pme_setprot_def)
  then show ?thesis
    using assms(2) HPT_TYPE_EPT by (auto simp: prot_bits_def BR64_SET_HL_bit)
qed (use assms in \<open>auto simp: hpt_pme_setprot_def prot_bits_def bit_field Let_def split: if_splits\<close>)

lemma hpt_pme_is_page_eq:
  "hpt_pme_is_page t lvl e = (case t of
     HPT_TYPE_NORM \<Rightarrow> if lvl \<le> 2 then Some (lvl = 1 \<or> lvl = 2 \<and> bit e 7) else None
   | HPT_TYPE_PAE \<Rightarrow> if lvl \<le> 3 then Some (lvl = 1 \<or> lvl = 2 \<and> bit e 7) else None
   | HPT_TYPE_INVALID \<Rightarrow> None
   | _ \<Rightarrow> if lvl \<le> 4 then Some (lvl = 1 \<or> (lvl = 2 \<or> lvl = 3) \<and> bit e 7) else None)"
  by (cases t) (auto simp: hpt_pme_is_page_def bit_field)

lemma br_copy_mask:
  "lo \<le> hi \<Longrightarrow> hi < 64 \<Longrightarrow>
   br_copy e a hi lo lo = (e AND NOT (MASKRANGE64 hi lo)) OR (a AND MASKRANGE64 hi lo)"
  by (rule bit_word_eqI) (auto simp: bit_field bit_simps)

lemma hpt_pme_get_address_eq:
  assumes "hpt_pme_is_page t lvl e = Some pg" "\<not> (t = HPT_TYPE_NORM \<and> lvl = 2 \<and> pg)"
  shows "hpt_pme_get_address t lvl e = Some (e AND addr_mask t lvl pg)"
  using assms
  by (cases t) (auto simp: hpt_pme_is_page_eq hpt_pme_get_address_def addr_mask_def field_eval br_copy_mask
                     split: if_splits)

lemma hpt_pme_set_address_eq:
  assumes "hpt_pme_is_page t lvl e = Some pg" "\<not> (t = HPT_TYPE_NORM \<and> lvl = 2 \<and> pg)"
  shows "hpt_pme_set_address t lvl e a =
    Some ((e AND NOT (addr_mask t lvl pg)) OR (a AND addr_mask t lvl pg))"
  using assms
  by (cases t) (auto simp: hpt_pme_is_page_eq hpt_pme_set_address_def addr_mask_def field_eval br_copy_mask
                     split: if_splits)

lemma hpt_pme_set_address_4M: "hpt_pme_is_page HPT_TYPE_NORM 2 e = Some True \<Longrightarrow>
    hpt_pme_set_address HPT_TYPE_NORM 2 e a = None"
  by (simp add: hpt_pme_set_address_def BR64_COPY_BITS_HL_def)

lemma bit_addr_mask [bit_field]: "bit (addr_mask t lvl pg) n \<longleftrightarrow>
  (case t of HPT_TYPE_NORM \<Rightarrow> 12 \<le> n \<and> n \<le> 31 | HPT_TYPE_EPT \<Rightarrow> 12 \<le> n \<and> n \<le> 51
   | _ \<Rightarrow> (if pg \<and> lvl \<noteq> 1 then 13 else 12) \<le> n \<and> n \<le> 51)"
  by (cases t) (auto simp: addr_mask_def bit_field)

lemma hpt_pme_set_address_is_page:
  assumes "hpt_pme_set_address t lvl e a = Some e'"
  shows "hpt_pme_is_page t lvl e' = hpt_pme_is_page t lvl e"
proof (cases "hpt_pme_is_page t lvl e")
  case None
  with assms show ?thesis
    by (cases t) (auto simp: hpt_pme_set_address_def hpt_pme_is_page_eq split: if_splits)
next
  case (Some pg)
  show ?thesis
  proof (cases "t = HPT_TYPE_NORM \<and> lvl = 2 \<and> pg")
    case True
    with assms Some hpt_pme_set_address_4M show ?thesis by simp
  next
    case False
    with assms Some have "e' = (e AND NOT (addr_mask t lvl pg)) OR (a AND addr_mask t lvl pg)"
      by (simp add: hpt_pme_set_address_eq)
    then have "bit e' 7 = bit e 7" by (auto simp: bit_simps bit_field split: hpt_type.splits)
    then show ?thesis by (simp add: hpt_pme_is_page_eq split: hpt_type.splits)
  qed
qed

lemma hpt_pme_set_address_SomeD:
  assumes "hpt_pme_set_address t lvl e a = Some e'"
  obtains pg where "hpt_pme_is_page t lvl e = Some pg" "\<not> (t = HPT_TYPE_NORM \<and> lvl = 2 \<and> pg)"
    "e' = (e AND NOT (addr_mask t lvl pg)) OR (a AND addr_mask t lvl pg)"
proof (cases "hpt_pme_is_page t lvl e")
  case None
  with assms show ?thesis
    by (cases t) (auto simp: hpt_pme_set_address_def hpt_pme_is_page_eq split: if_splits)
next
  case (Some pg)
  then have "\<not> (t = HPT_TYPE_NORM \<and> lvl = 2 \<and> pg)" using assms hpt_pme_set_address_4M by auto
  with Some assms that show ?thesis by (simp add: hpt_pme_set_address_eq)
qed


subsection \<open>The fields of an entry as an interface\<close>

locale entry_field =
  fixes get_field :: "hpt_pme \<Rightarrow> 'v exec"
    and set_field :: "hpt_pme \<Rightarrow> 'v \<Rightarrow> hpt_pme exec"
    and rbits :: "nat set" and wbits :: "nat set"
    and representable :: "'v \<Rightarrow> bool"
  assumes get_set: "set_field e v = Some e' \<Longrightarrow> representable v \<Longrightarrow> get_field e' = Some v"
    and set_frame: "set_field e v = Some e' \<Longrightarrow> n \<notin> wbits \<Longrightarrow> bit e' n = bit e n"
    and get_local: "(\<And>n. n \<in> rbits \<Longrightarrow> bit e n = bit e' n) \<Longrightarrow> get_field e = get_field e'"

locale independent_fields =
  a: entry_field get_a set_a rbits_a wbits_a repr_a +
  b: entry_field get_b set_b rbits_b wbits_b repr_b
  for get_a :: "hpt_pme \<Rightarrow> 'v exec" and set_a rbits_a wbits_a repr_a
    and get_b :: "hpt_pme \<Rightarrow> 'w exec" and set_b rbits_b wbits_b repr_b +
  assumes disjoint: "wbits_a \<inter> rbits_b = {}"
begin

lemma get_unchanged: "set_a e v = Some e' \<Longrightarrow> get_b e' = get_b e"
  using a.set_frame disjoint by (intro b.get_local) blast

lemma get_both:
  "set_b e w = Some e1 \<Longrightarrow> repr_b w \<Longrightarrow> set_a e1 v = Some e2 \<Longrightarrow> repr_a v \<Longrightarrow>
   get_a e2 = Some v \<and> get_b e2 = Some w"
  using a.get_set b.get_set get_unchanged by simp

end

lemma getprot_local:
  "(\<And>n. n \<in> prot_bits t lvl \<Longrightarrow> bit e n = bit e' n) \<Longrightarrow> hpt_pme_getprot t lvl e = hpt_pme_getprot t lvl e'"
  by (cases t) (simp_all add: hpt_pme_getprot_eq prot_bits_def)

interpretation prot_field:
  entry_field "hpt_pme_getprot t lvl" "hpt_pme_setprot t lvl" "prot_bits t lvl" "prot_bits t lvl"
    "prot_representable t lvl" for t lvl
  by (unfold_locales; (rule hpt_pme_setprot_frame getprot_local; assumption)?)
    (auto simp: prot_representable_def intro: hpt_pme_setprot_getprot)

interpretation user_field:
  entry_field "hpt_pme_getuser t lvl" "hpt_pme_setuser t lvl" "user_bits t lvl" "user_bits t lvl"
    "\<lambda>_. True" for t lvl
  by unfold_locales
    (auto simp: hpt_pme_getuser_def hpt_pme_setuser_def user_bits_def bit_field split: if_splits)

interpretation page_field:
  entry_field "hpt_pme_is_page t lvl" "hpt_pme_set_page t lvl" "{7}" "{7}"
    "\<lambda>_. 0 < lvl \<and> t \<noteq> HPT_TYPE_INVALID" for t lvl
  apply unfold_locales
  subgoal by (cases t) (auto simp: hpt_pme_is_page_eq hpt_pme_set_page_def bit_field split: if_splits)
  subgoal by (auto simp: hpt_pme_set_page_def bit_field split: if_splits)
  subgoal by (cases t) (auto simp: hpt_pme_is_page_eq)
  done

lemma BR64_GET_HL_local:
  "(\<And>n. lo \<le> n \<Longrightarrow> n \<le> hi \<Longrightarrow> bit e n = bit e' n) \<Longrightarrow> hi < 64 \<Longrightarrow> BR64_GET_HL e hi lo = BR64_GET_HL e' hi lo"
  by (rule bit_word_eqI) (auto simp: bit_field)

lemma get_address_local:
  assumes "\<And>n. n \<in> {7} \<union> {12..51} \<Longrightarrow> bit e n = bit e' n"
  shows "hpt_pme_get_address t lvl e = hpt_pme_get_address t lvl e'"
proof -
  have pg: "hpt_pme_is_page t lvl e = hpt_pme_is_page t lvl e'"
    using assms by (intro page_field.get_local) simp
  have hl: "BR64_GET_HL e 51 12 = BR64_GET_HL e' 51 12" "BR64_GET_HL e 51 13 = BR64_GET_HL e' 51 13"
    "BR64_GET_HL e 39 32 = BR64_GET_HL e' 39 32" "BR64_GET_HL e 31 22 = BR64_GET_HL e' 31 22"
    "BR64_GET_HL e 31 12 = BR64_GET_HL e' 31 12"
    using assms by (auto intro!: BR64_GET_HL_local)
  show ?thesis unfolding hpt_pme_get_address_def BR64_COPY_BITS_HL_def pg hl by (simp add: hl)
qed

lemma set_address_get_address:
  assumes "hpt_pme_set_address t lvl e a = Some e'" "a AND addr_mask t lvl True = a"
  shows "hpt_pme_get_address t lvl e' = Some a"
proof -
  obtain pg where pg: "hpt_pme_is_page t lvl e = Some pg" "\<not> (t = HPT_TYPE_NORM \<and> lvl = 2 \<and> pg)"
    and e': "e' = (e AND NOT (addr_mask t lvl pg)) OR (a AND addr_mask t lvl pg)"
    by (rule hpt_pme_set_address_SomeD [OF assms(1)])
  have "hpt_pme_get_address t lvl e' = Some (e' AND addr_mask t lvl pg)"
    using pg hpt_pme_set_address_is_page [OF assms(1)] by (intro hpt_pme_get_address_eq) auto
  also have "e' AND addr_mask t lvl pg = a AND addr_mask t lvl pg"
    unfolding e' by (rule bit_word_eqI) (auto simp: bit_simps)
  also have "\<dots> = (a AND addr_mask t lvl True) AND addr_mask t lvl pg" using assms(2) by simp
  also have "\<dots> = a AND addr_mask t lvl True"
    by (rule bit_word_eqI) (auto simp: bit_simps bit_field split: hpt_type.splits if_splits)
  finally show ?thesis using assms(2) by simp
qed

lemma set_address_frame:
  assumes "hpt_pme_set_address t lvl e a = Some e'" "n \<notin> {12..51}"
  shows "bit e' n = bit e n"
proof (rule hpt_pme_set_address_SomeD [OF assms(1)])
  fix pg assume "e' = (e AND NOT (addr_mask t lvl pg)) OR (a AND addr_mask t lvl pg)"
  then show ?thesis using assms(2)
    by (auto simp: bit_simps bit_field split: hpt_type.splits if_splits dest: bit_imp_le_length)
qed

interpretation addr_field:
  entry_field "hpt_pme_get_address t lvl" "hpt_pme_set_address t lvl" "{7} \<union> {12..51}" "{12..51}"
    "\<lambda>a. a AND addr_mask t lvl True = a" for t lvl
  by (unfold_locales; (rule set_address_frame get_address_local; assumption)?)
    (auto intro: set_address_get_address)

lemma get_pmt_eq:
  "hpt_pme_get_pmt t lvl e = (case t of
     HPT_TYPE_EPT \<Rightarrow> if lvl \<le> 3 \<and> (lvl = 1 \<or> (lvl = 2 \<or> lvl = 3) \<and> bit e 7) then Some (BR64_GET_HL e 5 3) else None
   | HPT_TYPE_INVALID \<Rightarrow> None
   | _ \<Rightarrow> Some (if bit e 4 then if bit e 3 then HPT_PMT_UC else HPT_PMT_WC
               else if bit e 3 then HPT_PMT_WT else HPT_PMT_WB))"
  by (cases t) (auto simp: hpt_pme_get_pmt_def hpt_pme_is_page_eq hpt_pme_get_pcd_def hpt_pme_get_pwt_def
                  bit_field)

lemma set_pmt_get_pmt:
  assumes "hpt_pme_set_pmt t lvl e v = Some e'"
  shows "hpt_pme_get_pmt t lvl e' = Some v"
proof (cases "t = HPT_TYPE_EPT")
  case True
  with assms have s: "BR64_SET_HL e 5 3 v = Some e'" and pg: "hpt_pme_is_page t lvl e = Some True" "lvl \<le> 3"
    by (auto simp: hpt_pme_set_pmt_def bind_eq_Some_conv)
  have "bit e' 7 = bit e 7" using BR64_SET_HL_bit [OF s] by simp
  moreover have "BR64_GET_HL e' 5 3 = v" by (rule BR64_GET_HL_SET_HL [OF s]) auto
  ultimately show ?thesis using pg True by (auto simp: get_pmt_eq hpt_pme_is_page_eq split: if_splits)
next
  case False
  with assms show ?thesis
    by (cases t) (auto simp: hpt_pme_set_pmt_def hpt_pme_set_pat_def hpt_pme_set_pcd_def hpt_pme_set_pwt_def
       hpt_pme_is_page_eq get_pmt_eq bit_field split: if_splits)
qed

lemma set_pmt_frame:
  assumes "hpt_pme_set_pmt t lvl e v = Some e'" "n \<notin> pmt_wbits t lvl"
  shows "bit e' n = bit e n"
proof (cases "t = HPT_TYPE_EPT")
  case True
  with assms have s: "BR64_SET_HL e 5 3 v = Some e'" by (auto simp: hpt_pme_set_pmt_def bind_eq_Some_conv)
  then show ?thesis using True assms(2) BR64_SET_HL_bit [OF s, of n] by (auto simp: pmt_wbits_def)
next
  case False
  with assms show ?thesis
    by (cases t) (auto simp: hpt_pme_set_pmt_def hpt_pme_set_pat_def hpt_pme_set_pcd_def hpt_pme_set_pwt_def
       hpt_pme_is_page_eq pmt_wbits_def bit_field split: if_splits)
qed

lemma get_pmt_local:
  "(\<And>n. n \<in> pmt_rbits t \<Longrightarrow> bit e n = bit e' n) \<Longrightarrow> hpt_pme_get_pmt t lvl e = hpt_pme_get_pmt t lvl e'"
  using BR64_GET_HL_local [of 3 5 e e']
  by (cases t) (auto simp: get_pmt_eq pmt_rbits_def numeral_eq_Suc le_Suc_eq)

interpretation pmt_field:
  entry_field "hpt_pme_get_pmt t lvl" "hpt_pme_set_pmt t lvl" "pmt_rbits t" "pmt_wbits t lvl"
    "\<lambda>_. True" for t lvl
  by (unfold_locales; rule set_pmt_get_pmt set_pmt_frame get_pmt_local; assumption)


interpretation prot_addr: independent_fields
    "hpt_pme_getprot t lvl" "hpt_pme_setprot t lvl" "prot_bits t lvl" "prot_bits t lvl"
    "prot_representable t lvl"
    "hpt_pme_get_address t lvl" "hpt_pme_set_address t lvl" "{7} \<union> {12..51}" "{12..51}"
    "\<lambda>a. a AND addr_mask t lvl True = a" for t lvl
  by unfold_locales (cases t; simp add: prot_bits_def)

interpretation addr_prot: independent_fields
    "hpt_pme_get_address t lvl" "hpt_pme_set_address t lvl" "{7} \<union> {12..51}" "{12..51}"
    "\<lambda>a. a AND addr_mask t lvl True = a"
    "hpt_pme_getprot t lvl" "hpt_pme_setprot t lvl" "prot_bits t lvl" "prot_bits t lvl"
    "prot_representable t lvl" for t lvl
  by unfold_locales (cases t; simp add: prot_bits_def)

interpretation prot_user: independent_fields
    "hpt_pme_getprot t lvl" "hpt_pme_setprot t lvl" "prot_bits t lvl" "prot_bits t lvl"
    "prot_representable t lvl"
    "hpt_pme_getuser t lvl" "hpt_pme_setuser t lvl" "user_bits t lvl" "user_bits t lvl" "\<lambda>_. True"
    for t lvl
  by unfold_locales (cases t; simp add: prot_bits_def user_bits_def)

interpretation addr_user: independent_fields
    "hpt_pme_get_address t lvl" "hpt_pme_set_address t lvl" "{7} \<union> {12..51}" "{12..51}"
    "\<lambda>a. a AND addr_mask t lvl True = a"
    "hpt_pme_getuser t lvl" "hpt_pme_setuser t lvl" "user_bits t lvl" "user_bits t lvl" "\<lambda>_. True"
    for t lvl
  by unfold_locales (cases t; simp add: user_bits_def)

interpretation prot_pmt: independent_fields
    "hpt_pme_getprot t lvl" "hpt_pme_setprot t lvl" "prot_bits t lvl" "prot_bits t lvl"
    "prot_representable t lvl"
    "hpt_pme_get_pmt t lvl" "hpt_pme_set_pmt t lvl" "pmt_rbits t" "pmt_wbits t lvl" "\<lambda>_. True"
    for t lvl
  by unfold_locales (cases t; simp add: prot_bits_def pmt_rbits_def)

interpretation addr_pmt: independent_fields
    "hpt_pme_get_address t lvl" "hpt_pme_set_address t lvl" "{7} \<union> {12..51}" "{12..51}"
    "\<lambda>a. a AND addr_mask t lvl True = a"
    "hpt_pme_get_pmt t lvl" "hpt_pme_set_pmt t lvl" "pmt_rbits t" "pmt_wbits t lvl" "\<lambda>_. True"
    for t lvl
  by unfold_locales (cases t; simp add: pmt_rbits_def)

interpretation pmt_prot: independent_fields
    "hpt_pme_get_pmt t lvl" "hpt_pme_set_pmt t lvl" "pmt_rbits t" "pmt_wbits t lvl" "\<lambda>_. True"
    "hpt_pme_getprot t lvl" "hpt_pme_setprot t lvl" "prot_bits t lvl" "prot_bits t lvl"
    "prot_representable t lvl" for t lvl
  by unfold_locales (cases t; simp add: prot_bits_def pmt_wbits_def)

interpretation prot_page: independent_fields
    "hpt_pme_getprot t lvl" "hpt_pme_setprot t lvl" "prot_bits t lvl" "prot_bits t lvl"
    "prot_representable t lvl"
    "hpt_pme_is_page t lvl" "hpt_pme_set_page t lvl" "{7}" "{7}"
    "\<lambda>_. 0 < lvl \<and> t \<noteq> HPT_TYPE_INVALID" for t lvl
  by unfold_locales (cases t; simp add: prot_bits_def)

interpretation page_prot: independent_fields
    "hpt_pme_is_page t lvl" "hpt_pme_set_page t lvl" "{7}" "{7}"
    "\<lambda>_. 0 < lvl \<and> t \<noteq> HPT_TYPE_INVALID"
    "hpt_pme_getprot t lvl" "hpt_pme_setprot t lvl" "prot_bits t lvl" "prot_bits t lvl"
    "prot_representable t lvl" for t lvl
  by unfold_locales (cases t; simp add: prot_bits_def)

interpretation user_prot: independent_fields
    "hpt_pme_getuser t lvl" "hpt_pme_setuser t lvl" "user_bits t lvl" "user_bits t lvl" "\<lambda>_. True"
    "hpt_pme_getprot t lvl" "hpt_pme_setprot t lvl" "prot_bits t lvl" "prot_bits t lvl"
    "prot_representable t lvl" for t lvl
  by unfold_locales (cases t; simp add: prot_bits_def user_bits_def)

subsection \<open>Indexing page maps\<close>

lemma lvl_ok_cases:
  assumes "lvl_ok t lvl"
  obtains "t = HPT_TYPE_NORM" "lvl = 1 \<or> lvl = 2" | "t = HPT_TYPE_PAE" "lvl = 1 \<or> lvl = 2 \<or> lvl = 3"
    | "t = HPT_TYPE_LONG \<or> t = HPT_TYPE_EPT" "lvl = 1 \<or> lvl = 2 \<or> lvl = 3 \<or> lvl = 4"
proof -
  have "lvl \<le> 4" "0 < lvl" using assms by (cases t; simp add: lvl_ok_def)+
  then have "lvl = 1 \<or> lvl = 2 \<or> lvl = 3 \<or> lvl = 4" by linarith
  then show ?thesis using assms that by (cases t) (auto simp: lvl_ok_def)
qed

lemma BR64_GET_HL_take_drop:
  "s + w \<le> 64 \<Longrightarrow> 0 < w \<Longrightarrow> BR64_GET_HL va (s + w - 1) s = take_bit w (drop_bit s va)"
  by (intro bit_word_eqI) (auto simp: bit_field bit_simps ac_simps)

lemma hpt_get_pm_idx_lohi:
  assumes "lvl_ok t lvl"
  shows "hpt_get_pm_idx t lvl va =
    Some (ucast (BR64_GET_HL va (pm_shift t lvl + pm_width t lvl - 1) (pm_shift t lvl)))"
  using assms by (elim lvl_ok_cases disjE; simp add: hpt_get_pm_idx_def hpt_type_is_valid_def arr_get_def
        hpt_va_idx_hi_def pm_shift_def pm_width_def)

lemma pm_range: "lvl_ok t lvl \<Longrightarrow> pm_shift t lvl + pm_width t lvl \<le> 64 \<and> 0 < pm_width t lvl"
  by (erule lvl_ok_cases) (auto simp: pm_shift_def pm_width_def)

lemma hpt_get_pm_idx_eq:
  assumes "lvl_ok t lvl"
  shows "hpt_get_pm_idx t lvl va =
    Some (ucast (take_bit (pm_width t lvl) (drop_bit (pm_shift t lvl) va)))"
  using pm_range [OF assms] BR64_GET_HL_take_drop [of "pm_shift t lvl" "pm_width t lvl" va]
  by (simp only: hpt_get_pm_idx_lohi [OF assms])

lemma hpt_get_pm_idx_SomeD: "hpt_get_pm_idx t lvl va = Some i \<Longrightarrow> lvl_ok t lvl"
  by (cases t) (auto simp: hpt_get_pm_idx_def hpt_type_is_valid_def lvl_ok_def bind_eq_Some_conv split: if_splits)

lemma hpt_get_pm_idx_less:
  assumes "hpt_get_pm_idx t lvl va = Some i"
  shows "unat i < 2 ^ pm_width t lvl"
proof -
  have ok: "lvl_ok t lvl" using assms by (rule hpt_get_pm_idx_SomeD)
  let ?x = "take_bit (pm_width t lvl) (drop_bit (pm_shift t lvl) va)"
  have "unat ?x < 2 ^ pm_width t lvl" by (simp add: unsigned_take_bit_eq)
  moreover have "unat (ucast ?x :: u32) = unat ?x"
    using \<open>unat ?x < _\<close> by (auto simp: unsigned_ucast_eq pm_width_def split: if_splits intro!: take_bit_nat_eq_self)
  ultimately show ?thesis using assms ok by (auto simp: hpt_get_pm_idx_eq)
qed

lemma hpt_pm_size_eq:
  "lvl_ok t lvl \<Longrightarrow> hpt_pm_size t lvl = Some (of_nat (pme_size t * 2 ^ pm_width t lvl))"
  by (erule lvl_ok_cases) (auto simp: hpt_pm_size_def arr_get_def hpt_pm_sizes_def pme_size_def pm_width_def)

lemma scast_small: "unat (i :: u32) < 2 ^ 31 \<Longrightarrow> (scast i :: u64) = of_nat (unat i)"
proof (rule bit_word_eqI)
  fix n assume i: "unat i < 2 ^ 31" and n: "n < LENGTH(64)"
  have hi: "\<not> bit i k" if "31 \<le> k" for k
  proof
    assume "bit i k"
    then have "bit (unat i) k" by (simp add: bit_unsigned_iff)
    then have "2 ^ k \<le> unat i"
      using not_less_eq_eq by (metis bit_imp_possible_bit bit_take_bit_iff linorder_not_le nat_less_le take_bit_nat_eq_self)
    moreover have "(2 :: nat) ^ 31 \<le> 2 ^ k" using that by (rule power_increasing) simp
    ultimately show False using i by linarith
  qed
  show "bit (scast i :: u64) n = bit (of_nat (unat i) :: u64) n"
    using n hi [of n] hi [of 31] by (cases "n < 31") (auto simp: bit_simps)
qed

lemma hpt_get_pm_idx_scast:
  assumes "hpt_get_pm_idx t lvl va = Some i"
  shows "(scast i :: u64) = of_nat (unat i)"
proof -
  have "(2 :: nat) ^ pm_width t lvl \<le> 2 ^ 31" by (rule power_increasing) (simp_all add: pm_width_def)
  then show ?thesis using hpt_get_pm_idx_less [OF assms] by (intro scast_small) linarith
qed

lemma hpt_pm_get_pme_by_va_eq:
  assumes "hpt_get_pm_idx t lvl va = Some i"
  shows "hpt_pm_get_pme_by_va t lvl m pm va =
    Some (load_le m (pm + of_nat (pme_size t * unat i)) (pme_size t))"
  using assms hpt_get_pm_idx_SomeD [OF assms]
  by (cases t) (simp_all add: hpt_pm_get_pme_by_va_def hpt_pm_get_pme_by_idx_def pme_size_def
      hpt_get_pm_idx_scast lvl_ok_def)

lemma hpt_pm_set_pme_by_va_eq:
  assumes "hpt_get_pm_idx t lvl va = Some i"
  shows "hpt_pm_set_pme_by_va t lvl m pm va pme =
    Some (store_le m (pm + of_nat (pme_size t * unat i)) (pme_size t) pme)"
  using assms hpt_get_pm_idx_SomeD [OF assms]
  by (cases t) (simp_all add: hpt_pm_set_pme_by_va_def hpt_pm_set_pme_by_idx_def pme_size_def
      hpt_get_pm_idx_scast lvl_ok_def)

lemma pme_size_facts: "pme_size t \<le> 8" "pme_size t dvd 2 ^ 64" "0 < pme_size t"
  by (simp_all add: pme_size_def)

lemma hpt_pm_set_pme_by_va_SomeD:
  assumes "hpt_pm_set_pme_by_va t lvl m pm va pme = Some m'"
  obtains i where "hpt_get_pm_idx t lvl va = Some i"
    "m' = store_le m (pm + of_nat (pme_size t * unat i)) (pme_size t) pme"
  using assms hpt_pm_set_pme_by_va_eq [of t lvl va] by (auto simp: hpt_pm_set_pme_by_va_def bind_eq_Some_conv)

lemma get_pme_set_pme_same:
  assumes "hpt_pm_set_pme_by_va t lvl m pm va pme = Some m'"
  shows "hpt_pm_get_pme_by_va t lvl m' pm va = Some (take_bit (8 * pme_size t) pme)"
  using assms by (rule hpt_pm_set_pme_by_va_SomeD)
    (simp add: hpt_pm_get_pme_by_va_eq load_store_le_same pme_size_facts)

lemma pm_entry_unat:
  assumes "hpt_get_pm_idx t lvl va = Some i"
  shows "unat (of_nat (pme_size t * unat i) :: u64) = pme_size t * unat i"
    and "pme_size t * unat i + pme_size t \<le> pme_size t * 2 ^ pm_width t lvl"
proof -
  have "Suc (unat i) \<le> 2 ^ pm_width t lvl" using hpt_get_pm_idx_less [OF assms] by simp
  then have "pme_size t * Suc (unat i) \<le> pme_size t * 2 ^ pm_width t lvl" by (rule mult_le_mono2)
  then show le: "pme_size t * unat i + pme_size t \<le> pme_size t * 2 ^ pm_width t lvl" by simp
  have "pme_size t * 2 ^ pm_width t lvl \<le> 4096" by (simp add: pme_size_def pm_width_def)
  then show "unat (of_nat (pme_size t * unat i) :: u64) = pme_size t * unat i"
    using le by (intro unat_of_nat_64) simp
qed

lemma get_pme_set_pme_other:
  assumes "hpt_pm_set_pme_by_va t lvl m pm va pme = Some m'"
    and "pme_size t dvd unat pm" "hpt_get_pm_idx t lvl va' \<noteq> hpt_get_pm_idx t lvl va"
  shows "hpt_pm_get_pme_by_va t lvl m' pm va' = hpt_pm_get_pme_by_va t lvl m pm va'"
proof (rule hpt_pm_set_pme_by_va_SomeD [OF assms(1)])
  fix i assume i: "hpt_get_pm_idx t lvl va = Some i"
    and m': "m' = store_le m (pm + of_nat (pme_size t * unat i)) (pme_size t) pme"
  have ok: "lvl_ok t lvl" using i by (rule hpt_get_pm_idx_SomeD)
  then obtain j where j: "hpt_get_pm_idx t lvl va' = Some j" using hpt_get_pm_idx_eq by blast
  then have "j \<noteq> i" using i assms(3) by simp
  have al: "pme_size t dvd unat (pm + of_nat (pme_size t * unat k))" if "hpt_get_pm_idx t lvl v = Some k" for v k
  proof -
    have "unat (pm + of_nat (pme_size t * unat k)) = (unat pm + pme_size t * unat k) mod 2 ^ 64"
      using pm_entry_unat [OF that] by (simp add: unat_word_ariths)
    then show ?thesis using assms(2) pme_size_facts(2) [of t] by (simp add: dvd_mod_iff)
  qed
  have "of_nat (pme_size t * unat i) \<noteq> (of_nat (pme_size t * unat j) :: u64)"
    using pm_entry_unat(1) [OF i] pm_entry_unat(1) [OF j] \<open>j \<noteq> i\<close> pme_size_facts(3) [of t]
    by (metis mult_cancel1 nat_neq_iff word_unat_eq_iff)
  then show ?thesis
    using al [OF i] al [OF j] pme_size_facts by (simp add: hpt_pm_get_pme_by_va_eq [OF j] m' load_store_le_other)
qed

lemma set_pme_frame:
  assumes "hpt_pm_set_pme_by_va t lvl m pm va pme = Some m'" "hpt_pm_size t lvl = Some sz"
    and "sz \<le> a - pm"
  shows "m' a = m a"
proof (rule hpt_pm_set_pme_by_va_SomeD [OF assms(1)])
  fix i assume i: "hpt_get_pm_idx t lvl va = Some i"
    and m': "m' = store_le m (pm + of_nat (pme_size t * unat i)) (pme_size t) pme"
  have sz: "sz = of_nat (pme_size t * 2 ^ pm_width t lvl)"
    using assms(2) hpt_get_pm_idx_SomeD [OF i] by (simp add: hpt_pm_size_eq)
  have "pme_size t * 2 ^ pm_width t lvl \<le> 4096" by (simp add: pme_size_def pm_width_def)
  then have "unat sz = pme_size t * 2 ^ pm_width t lvl" unfolding sz by (intro unat_of_nat_64) simp
  with assms(3) have ge: "pme_size t * unat i + pme_size t \<le> unat (a - pm)"
    using pm_entry_unat(2) [OF i] by (simp add: word_le_nat_alt)
  have "unat (a - (pm + of_nat (pme_size t * unat i))) = unat (a - pm) - pme_size t * unat i"
    using ge pm_entry_unat(1) [OF i] by (subst diff_diff_eq [symmetric]) (subst unat_sub, auto simp: word_le_nat_alt)
  then have "\<not> a - (pm + of_nat (pme_size t * unat i)) < of_nat (pme_size t)"
    using ge pme_size_facts(1) [of t] by (simp add: word_less_nat_alt unat_of_nat_64)
  then show ?thesis by (simp add: m' store_le_apply pme_size_facts)
qed

text \<open>Root pointers.\<close>

lemma cr3_address_roundtrip:
  assumes "hpt_cr3_set_address t cr3 a = Some cr3'"
  shows "hpt_cr3_get_address t cr3' = hpt_cr3_get_address t a"
  using assms
  by (cases t; simp add: hpt_cr3_set_address_def hpt_cr3_get_address_def field_eval)
    (drule sym, simp, rule bit_word_eqI, simp add: bit_field)+

lemma eptp_address_roundtrip:
  assumes "hpt_eptp_set_address t eptp a = Some eptp'"
  shows "hpt_eptp_get_address t eptp' = hpt_eptp_get_address t a"
  using assms
  by (auto simp: hpt_eptp_set_address_def hpt_eptp_get_address_def field_eval bit_field split: if_splits
    intro!: bit_word_eqI)

lemma address_readback:
  assumes "hpt_pme_is_page t lvl e = Some pg" "a AND addr_mask t lvl pg = a" "hpt_pme_set_address t lvl e a = Some e'"
  shows "hpt_pme_get_address t lvl e' = Some a"
proof -
  have n: "\<not> (t = HPT_TYPE_NORM \<and> lvl = 2 \<and> pg)" using assms(1,3) hpt_pme_set_address_4M by auto
  then have e': "e' = (e AND NOT (addr_mask t lvl pg)) OR a" using hpt_pme_set_address_eq [OF assms(1), of a] assms(2,3) by simp
  have "hpt_pme_is_page t lvl e' = Some pg" using hpt_pme_set_address_is_page [OF assms(3)] assms(1) by simp
  from hpt_pme_get_address_eq [OF this n] have "hpt_pme_get_address t lvl e' = Some (e' AND addr_mask t lvl pg)" .
  also have "e' AND addr_mask t lvl pg = a AND addr_mask t lvl pg" unfolding e' by (rule bit_word_eqI) (auto simp: bit_simps)
  finally show ?thesis using assms(2) by simp
qed

subsection \<open>Properties\<close>

text \<open>
  C25: address and protection of an entry do not disturb each other. Let an address be set that this kind of entry can hold (a page, or a
  link to a table, of its paging type and level), and then a protection that the type and level can represent. Then the getters return
  exactly these, and the user bit, the memory type and the page/table bit are those of the old entry.
\<close>

theorem pme_setters_independent:
  assumes "hpt_pme_is_page t lvl e = Some pg" "a AND addr_mask t lvl pg = a"
    and "hpt_pme_set_address t lvl e a = Some e1" "hpt_pme_setprot t lvl e1 p = Some e2" "prot_representable t lvl p"
  shows "hpt_pme_get_address t lvl e2 = Some a \<and> hpt_pme_getprot t lvl e2 = Some p
    \<and> hpt_pme_getuser t lvl e2 = hpt_pme_getuser t lvl e \<and> hpt_pme_get_pmt t lvl e2 = hpt_pme_get_pmt t lvl e
    \<and> hpt_pme_is_page t lvl e2 = Some pg"
  using prot_field.get_set [OF assms(4,5)] prot_addr.get_unchanged [OF assms(4)] address_readback [OF assms(1-3)]
    prot_user.get_unchanged [OF assms(4)] addr_user.get_unchanged [OF assms(3)]
    prot_pmt.get_unchanged [OF assms(4)] addr_pmt.get_unchanged [OF assms(3)]
    prot_page.get_unchanged [OF assms(4)] hpt_pme_set_address_is_page [OF assms(3)] assms(1) by simp

theorem pme_setters_independent_witness:
  "hpt_pme_set_address HPT_TYPE_EPT 1 0x30 0x12345000 = Some 0x12345030
   \<and> hpt_pme_setprot HPT_TYPE_EPT 1 0x12345030 HPT_PROTS_RX = Some 0x12345035
   \<and> hpt_pme_get_address HPT_TYPE_EPT 1 0x12345035 = Some 0x12345000
   \<and> hpt_pme_get_pmt HPT_TYPE_EPT 1 0x12345035 = hpt_pme_get_pmt HPT_TYPE_EPT 1 0x30"
proof -
  have mask: "MASKRANGE64 51 12 = 0xFFFFFFFFFF000" by (simp add: MASKRANGE64_def ZERO_LO64_def ZERO_HI64_def)
  have a: "hpt_pme_set_address HPT_TYPE_EPT 1 0x30 0x12345000 = Some 0x12345030"
    using hpt_pme_set_address_eq [of HPT_TYPE_EPT 1 "0x30" True "0x12345000"]
    by (simp add: hpt_pme_is_page_eq addr_mask_def mask)
  have p: "hpt_pme_setprot HPT_TYPE_EPT 1 0x12345030 HPT_PROTS_RX = Some 0x12345035"
    by (simp add: hpt_pme_setprot_def hpt_prot_is_valid_def BR64_SET_HL_def MASKRANGE64_def ZERO_LO64_def ZERO_HI64_def)
  show ?thesis using pme_setters_independent [OF _ _ a p, of True] a p by (simp add: addr_mask_def mask prot_representable_def hpt_pme_is_page_eq)
qed

text \<open>
  C26: the memory type that \<open>hpt_pme_set_pmt\<close> stores is the one \<open>hpt_pme_get_pmt\<close> reads
  back, and the protection stays.
\<close>

theorem pme_pmt_roundtrip:
  assumes "hpt_pme_set_pmt t lvl e v = Some e'"
  shows "hpt_pme_get_pmt t lvl e' = Some v \<and> hpt_pme_getprot t lvl e' = hpt_pme_getprot t lvl e"
  using set_pmt_get_pmt [OF assms] pmt_prot.get_unchanged [OF assms] by simp

theorem pme_pmt_roundtrip_witness:
  "hpt_pme_set_pmt HPT_TYPE_LONG 1 0x1003 HPT_PMT_UC = Some 0x101B \<and> hpt_pme_get_pmt HPT_TYPE_LONG 1 0x101B = Some HPT_PMT_UC"
proof -
  have s: "hpt_pme_set_pmt HPT_TYPE_LONG 1 0x1003 HPT_PMT_UC = Some 0x101B"
    by (simp add: hpt_pme_set_pmt_def hpt_pme_set_pat_def hpt_pme_set_pcd_def hpt_pme_set_pwt_def hpt_pme_is_page_eq
        BR64_SET_BIT_def MASKBIT64_def)
  show ?thesis using pme_pmt_roundtrip [OF s] s by simp
qed

text \<open>
  C31: a page-map directory pointer entry of PAE paging has no permission bits of its own. The
  protections that \<open>hpt_prot_is_valid\<close> accepts at that level are none, read-execute,
  read-write and read-write-execute, but only none and read-write-execute survive: read-write and read-execute
  are accepted by \<open>hpt_pme_setprot\<close> and read back as read-write-execute.
\<close>

theorem pae_pdpte_prot_widened:
  assumes "hpt_pme_setprot HPT_TYPE_PAE 3 e p = Some e'"
  shows "hpt_pme_getprot HPT_TYPE_PAE 3 e' = Some (if p = HPT_PROTS_NONE then HPT_PROTS_NONE else HPT_PROTS_RWX)"
  using assms
  by (auto simp: hpt_pme_setprot_def hpt_pme_getprot_eq hpt_prot_is_valid_def prot_of_def bit_field split: if_splits)

theorem pae_pdpte_prot_widened_witness:
  "hpt_prot_is_valid HPT_TYPE_PAE 3 HPT_PROTS_RX \<and>
   hpt_pme_setprot HPT_TYPE_PAE 3 0 HPT_PROTS_RX = Some 1 \<and> hpt_pme_getprot HPT_TYPE_PAE 3 1 = Some HPT_PROTS_RWX"
proof -
  have s: "hpt_pme_setprot HPT_TYPE_PAE 3 0 HPT_PROTS_RX = Some 1"
    by (simp add: hpt_pme_setprot_def hpt_prot_is_valid_def BR64_SET_BIT_def MASKBIT64_def)
  show ?thesis using pae_pdpte_prot_widened [OF s] s by (simp add: hpt_prot_is_valid_def)
qed

text \<open>
  C24: a store through \<open>hpt_pm_set_pme_by_va\<close> is what \<open>hpt_pm_get_pme_by_va\<close> then reads at every address of
  the same entry, it changes no other entry of the page map, and no byte outside the page map.
\<close>

theorem pm_store_load:
  assumes "hpt_pm_set_pme_by_va t lvl m pm va pme = Some m'" "pme_size t dvd unat pm" "hpt_pm_size t lvl = Some sz"
  shows "hpt_pm_get_pme_by_va t lvl m' pm va' = (if hpt_get_pm_idx t lvl va' = hpt_get_pm_idx t lvl va
      then Some (take_bit (8 * pme_size t) pme) else hpt_pm_get_pme_by_va t lvl m pm va')
    \<and> (sz \<le> a - pm \<longrightarrow> m' a = m a)"
proof -
  have "hpt_pm_get_pme_by_va t lvl m' pm va' = Some (take_bit (8 * pme_size t) pme)"
    if "hpt_get_pm_idx t lvl va' = hpt_get_pm_idx t lvl va"
    using get_pme_set_pme_same [OF assms(1)] that by (simp add: hpt_pm_get_pme_by_va_def)
  then show ?thesis using get_pme_set_pme_other [OF assms(1,2)] set_pme_frame [OF assms(1,3)] by simp
qed

theorem pm_store_load_witness:
  "\<exists>m'. hpt_pm_set_pme_by_va HPT_TYPE_EPT 1 (\<lambda>_. 0) 0x5000 0x3000 0x1007 = Some m'
     \<and> hpt_pm_get_pme_by_va HPT_TYPE_EPT 1 m' 0x5000 0x3abc = Some 0x1007
     \<and> hpt_pm_get_pme_by_va HPT_TYPE_EPT 1 m' 0x5000 0x4000 = hpt_pm_get_pme_by_va HPT_TYPE_EPT 1 (\<lambda>_. 0) 0x5000 0x4000"
proof -
  have idx: "hpt_get_pm_idx HPT_TYPE_EPT 1 va = Some (ucast (take_bit 9 (drop_bit 12 va)))" for va
    using hpt_get_pm_idx_eq [of HPT_TYPE_EPT 1 va] by (simp add: lvl_ok_def pm_width_def pm_shift_def)
  have i: "hpt_get_pm_idx HPT_TYPE_EPT 1 0x3000 = Some 3" "hpt_get_pm_idx HPT_TYPE_EPT 1 0x3abc = Some 3"
    "hpt_get_pm_idx HPT_TYPE_EPT 1 0x4000 = Some 4"
    unfolding idx by simp_all
  obtain m' where m': "hpt_pm_set_pme_by_va HPT_TYPE_EPT 1 (\<lambda>_. 0) 0x5000 0x3000 0x1007 = Some m'"
    using hpt_pm_set_pme_by_va_eq [OF idx [of "0x3000"]] by blast
  have sz: "hpt_pm_size HPT_TYPE_EPT 1 = Some 4096"
    using hpt_pm_size_eq [of HPT_TYPE_EPT 1] by (simp add: lvl_ok_def pm_width_def pme_size_def)
  have "hpt_pm_get_pme_by_va HPT_TYPE_EPT 1 m' 0x5000 0x3abc = Some 0x1007"
    using pm_store_load [OF m' _ sz, of "0x3abc" 0] unfolding i by (simp add: pme_size_def)
  moreover have "hpt_pm_get_pme_by_va HPT_TYPE_EPT 1 m' 0x5000 0x4000 = hpt_pm_get_pme_by_va HPT_TYPE_EPT 1 (\<lambda>_. 0) 0x5000 0x4000"
    using pm_store_load [OF m' _ sz, of "0x4000" 0] unfolding i by (simp add: pme_size_def)
  ultimately show ?thesis using m' by blast
qed

text \<open>
  C32: where the address of an entry can be set. For every paging type and address, \<open>hpt_pme_set_address\<close>
  has a defined result exactly at the levels up to the highest one of the type, except for the pages of 4 MiB of 32-bit paging: there it computes the
  place of address bits 39:32 as \<open>13 - 32\<close>, a negative shift, whatever the address is.
\<close>

theorem set_address_defined:
  "hpt_pme_set_address t lvl e a \<noteq> None \<longleftrightarrow>
     (\<exists>m. hpt_type_max_lvl t = Some m \<and> lvl \<le> m) \<and> \<not> (t = HPT_TYPE_NORM \<and> lvl = 2 \<and> hpt_pme_is_page t lvl e = Some True)"
proof (cases "hpt_pme_is_page t lvl e")
  case None
  then show ?thesis by (cases t) (auto simp: hpt_pme_is_page_eq hpt_pme_set_address_def split: if_splits)
next
  case (Some pg)
  then have "\<exists>m. hpt_type_max_lvl t = Some m \<and> lvl \<le> m" by (cases t) (auto simp: hpt_pme_is_page_eq split: if_splits)
  then show ?thesis using hpt_pme_set_address_eq [OF Some, of a] hpt_pme_set_address_4M [of e a] Some by (cases pg) auto
qed

end
