(* ===== verification/Hpto.thy ===== *)
theory Hpto
  imports Hpt
begin

text \<open>
  Page map objects and page map entry objects, \<^verbatim>\<open>libxmhfutil/hpto.c\<close>: a page map or an entry
  together with its paging type and level (\<open>hpt_pmo_t\<close> and \<open>hpt_pmeo_t\<close> of \<^verbatim>\<open>hpt.h\<close>). The
  functions that change an object return the changed object. The page sizes are computed with
  \<open>1 << n\<close> on a C \<open>int\<close>, which is defined for \<open>n\<close> below 31.
\<close>

record hpt_pmo =
  pmo_pm :: u64
  pmo_t :: hpt_type
  pmo_lvl :: nat

record hpt_pmeo =
  pmeo_pme :: hpt_pme
  pmeo_t :: hpt_type
  pmeo_lvl :: nat

definition hpt_pmeo_get_address :: "hpt_pmeo \<Rightarrow> hpt_pa exec" where
  "hpt_pmeo_get_address pmeo = hpt_pme_get_address (pmeo_t pmeo) (pmeo_lvl pmeo) (pmeo_pme pmeo)"

definition hpt_pmeo_set_address :: "hpt_pmeo \<Rightarrow> hpt_pa \<Rightarrow> hpt_pmeo exec" where
  "hpt_pmeo_set_address pmeo addr = do {
     e \<leftarrow> hpt_pme_set_address (pmeo_t pmeo) (pmeo_lvl pmeo) (pmeo_pme pmeo) addr;
     Some (pmeo\<lparr>pmeo_pme := e\<rparr>)
   }"

definition hpt_pmeo_is_present :: "hpt_pmeo \<Rightarrow> bool exec" where
  "hpt_pmeo_is_present pmeo = hpt_pme_is_present (pmeo_t pmeo) (pmeo_lvl pmeo) (pmeo_pme pmeo)"

definition hpt_pmeo_set_page :: "hpt_pmeo \<Rightarrow> bool \<Rightarrow> hpt_pmeo exec" where
  "hpt_pmeo_set_page pmeo is_page = do {
     e \<leftarrow> hpt_pme_set_page (pmeo_t pmeo) (pmeo_lvl pmeo) (pmeo_pme pmeo) is_page;
     Some (pmeo\<lparr>pmeo_pme := e\<rparr>)
   }"

definition hpt_pmeo_is_page :: "hpt_pmeo \<Rightarrow> bool exec" where
  "hpt_pmeo_is_page pmeo = hpt_pme_is_page (pmeo_t pmeo) (pmeo_lvl pmeo) (pmeo_pme pmeo)"

definition hpt_pmeo_setprot :: "hpt_pmeo \<Rightarrow> hpt_prot \<Rightarrow> hpt_pmeo exec" where
  "hpt_pmeo_setprot pmeo perms = do {
     e \<leftarrow> hpt_pme_setprot (pmeo_t pmeo) (pmeo_lvl pmeo) (pmeo_pme pmeo) perms;
     Some (pmeo\<lparr>pmeo_pme := e\<rparr>)
   }"

definition hpt_pmeo_getprot :: "hpt_pmeo \<Rightarrow> hpt_prot exec" where
  "hpt_pmeo_getprot pmeo = hpt_pme_getprot (pmeo_t pmeo) (pmeo_lvl pmeo) (pmeo_pme pmeo)"

definition hpt_pmeo_getcache :: "hpt_pmeo \<Rightarrow> hpt_pmt exec" where
  "hpt_pmeo_getcache pmeo = hpt_pme_get_pmt (pmeo_t pmeo) (pmeo_lvl pmeo) (pmeo_pme pmeo)"

definition hpt_pmeo_setcache :: "hpt_pmeo \<Rightarrow> hpt_pmt \<Rightarrow> hpt_pmeo exec" where
  "hpt_pmeo_setcache pmeo pmt = do {
     e \<leftarrow> hpt_pme_set_pmt (pmeo_t pmeo) (pmeo_lvl pmeo) (pmeo_pme pmeo) pmt;
     Some (pmeo\<lparr>pmeo_pme := e\<rparr>)
   }"

definition hpt_pmeo_getuser :: "hpt_pmeo \<Rightarrow> bool exec" where
  "hpt_pmeo_getuser pmeo = hpt_pme_getuser (pmeo_t pmeo) (pmeo_lvl pmeo) (pmeo_pme pmeo)"

definition hpt_pmeo_setuser :: "hpt_pmeo \<Rightarrow> bool \<Rightarrow> hpt_pmeo exec" where
  "hpt_pmeo_setuser pmeo user = do {
     e \<leftarrow> hpt_pme_setuser (pmeo_t pmeo) (pmeo_lvl pmeo) (pmeo_pme pmeo) user;
     Some (pmeo\<lparr>pmeo_pme := e\<rparr>)
   }"

definition hpt_pm_get_pmeo_by_va :: "memory \<Rightarrow> hpt_pmo \<Rightarrow> hpt_va \<Rightarrow> hpt_pmeo exec" where
  "hpt_pm_get_pmeo_by_va m pmo va = do {
     e \<leftarrow> hpt_pm_get_pme_by_va (pmo_t pmo) (pmo_lvl pmo) m (pmo_pm pmo) va;
     Some \<lparr>pmeo_pme = e, pmeo_t = pmo_t pmo, pmeo_lvl = pmo_lvl pmo\<rparr>
   }"

definition hpt_pmo_set_pme_by_va :: "memory \<Rightarrow> hpt_pmo \<Rightarrow> hpt_pmeo \<Rightarrow> hpt_va \<Rightarrow> memory exec" where
  "hpt_pmo_set_pme_by_va m pmo pmeo va =
     hpt_pm_set_pme_by_va (pmo_t pmo) (pmo_lvl pmo) m (pmo_pm pmo) va (pmeo_pme pmeo)"

definition hpt_pmeo_va_to_pa :: "hpt_pmeo \<Rightarrow> hpt_va \<Rightarrow> hpt_pa exec" where
  "hpt_pmeo_va_to_pa pmeo va = do {
     is_page \<leftarrow> hpt_pme_is_page (pmeo_t pmeo) (pmeo_lvl pmeo) (pmeo_pme pmeo);
     assert_c is_page;
     base \<leftarrow> hpt_pmeo_get_address pmeo;
     offset_hi \<leftarrow> (if pmeo_lvl pmeo = 0 then None
                   else arr_get (hpt_va_idx_hi (pmeo_t pmeo)) (pmeo_lvl pmeo - 1));
     let offset = va AND MASKRANGE64 offset_hi 0 in Some (base + offset)
   }"

definition hpt_pmeo_page_size_log_2 :: "hpt_pmeo \<Rightarrow> nat exec" where
  "hpt_pmeo_page_size_log_2 pmeo = do {
     offset_hi \<leftarrow> (if pmeo_lvl pmeo = 0 then None
                   else arr_get (hpt_va_idx_hi (pmeo_t pmeo)) (pmeo_lvl pmeo - 1));
     Some (offset_hi + 1)
   }"

definition hpt_pmeo_page_size :: "hpt_pmeo \<Rightarrow> u64 exec" where
  "hpt_pmeo_page_size pmeo = do {
     n \<leftarrow> hpt_pmeo_page_size_log_2 pmeo;
     if n < 31 then Some (push_bit n 1) else None
   }"

definition hpt_remaining_on_page :: "hpt_pmeo \<Rightarrow> hpt_va \<Rightarrow> u64 exec" where
  "hpt_remaining_on_page pmeo va = do {
     page_size_log_2 \<leftarrow> hpt_pmeo_page_size_log_2 pmeo;
     page_size \<leftarrow> (if page_size_log_2 < 31 then Some (push_bit page_size_log_2 1) else None);
     let offset_on_page = va AND MASKRANGE64 (page_size_log_2 - 1) 0
     in Some (page_size - offset_on_page)
   }"

text \<open>
  A leaf that is aligned to the page it maps keeps the page offset, and the bytes that
  \<open>hpt_remaining_on_page\<close> grants end exactly at the end of that page.
\<close>

definition leaf_aligned :: "hpt_pmeo \<Rightarrow> bool" where
  "leaf_aligned e \<longleftrightarrow> (case hpt_pmeo_get_address e of
     None \<Rightarrow> False | Some a \<Rightarrow> take_bit (pm_shift (pmeo_t e) (pmeo_lvl e)) a = 0)"

subsection \<open>Page sizes and offsets\<close>

lemma MASKRANGE64_low: "hi < 64 \<Longrightarrow> va AND MASKRANGE64 hi 0 = take_bit (Suc hi) va"
  by (rule bit_word_eqI) (auto simp: bit_field bit_simps)

lemma va_idx_hi_shift:
  assumes "lvl_ok t lvl"
  shows "arr_get (hpt_va_idx_hi t) (lvl - 1) = Some (pm_shift t lvl - 1)"
    and "0 < pm_shift t lvl" "pm_shift t lvl < 40" "0 < lvl"
  using assms by (elim lvl_ok_cases disjE; simp add: arr_get_def hpt_va_idx_hi_def pm_shift_def)+

lemma is_page_lvl_ok:
  assumes "hpt_pme_is_page t lvl e = Some True"
  shows "lvl_ok t lvl" and "pm_shift t lvl < 31"
  using assms by (cases t; auto simp: hpt_pme_is_page_eq lvl_ok_def pm_shift_def split: if_splits)+

lemma get_address_total: "lvl_ok t lvl \<Longrightarrow> \<exists>a. hpt_pme_get_address t lvl e = Some a"
  by (elim lvl_ok_cases disjE; simp add: hpt_pme_get_address_def hpt_pme_is_page_eq field_eval)

lemma hpt_pmeo_page_size_log_2_eq:
  "lvl_ok (pmeo_t e) (pmeo_lvl e) \<Longrightarrow> hpt_pmeo_page_size_log_2 e = Some (pm_shift (pmeo_t e) (pmeo_lvl e))"
  using va_idx_hi_shift [of "pmeo_t e" "pmeo_lvl e"] by (simp add: hpt_pmeo_page_size_log_2_def)

lemma hpt_remaining_on_page_eq:
  assumes "lvl_ok (pmeo_t e) (pmeo_lvl e)" "pm_shift (pmeo_t e) (pmeo_lvl e) < 31"
  shows "hpt_remaining_on_page e va =
    Some (2 ^ pm_shift (pmeo_t e) (pmeo_lvl e) - take_bit (pm_shift (pmeo_t e) (pmeo_lvl e)) va)"
  using assms va_idx_hi_shift [OF assms(1)]
  by (simp add: hpt_remaining_on_page_def hpt_pmeo_page_size_log_2_eq MASKRANGE64_low push_bit_eq_mult)

lemma unat_take_bit_less: "unat (take_bit k (x :: u64)) < 2 ^ k"
  by (simp add: unsigned_take_bit_eq)

lemma unat_remaining:
  assumes "k < 64"
  shows "unat (2 ^ k - take_bit k (x :: u64)) = 2 ^ k - unat (take_bit k x)"
proof -
  have "(2 :: nat) ^ k < 2 ^ 64" using assms by (rule power_strict_increasing) simp
  then have "unat (2 ^ k :: u64) = 2 ^ k" using unat_of_nat_64 [of "2 ^ k"] by simp
  then show ?thesis using unat_take_bit_less [of k x] by (subst unat_sub) (auto simp: word_le_nat_alt)
qed

lemma hpt_pmeo_va_to_pa_eq:
  assumes "hpt_pmeo_is_page e = Some True" "hpt_pmeo_get_address e = Some base"
  shows "hpt_pmeo_va_to_pa e va = Some (base + take_bit (pm_shift (pmeo_t e) (pmeo_lvl e)) va)"
proof -
  have ok: "lvl_ok (pmeo_t e) (pmeo_lvl e)"
    using assms(1) is_page_lvl_ok by (simp add: hpt_pmeo_is_page_def)
  show ?thesis using assms va_idx_hi_shift [OF ok]
    by (simp add: hpt_pmeo_va_to_pa_def hpt_pmeo_is_page_def MASKRANGE64_low)
qed

lemma take_bit_add_aligned:
  assumes "take_bit k (base :: u64) = 0"
  shows "take_bit k (base + take_bit k va) = take_bit k va"
proof -
  have "base AND take_bit k va = take_bit k base AND va" by (rule bit_word_eqI) (auto simp: bit_simps)
  then have "base + take_bit k va = base OR take_bit k va" using assms by (simp add: disjunctive_add_eq_or)
  then show ?thesis using assms by (simp add: take_bit_or)
qed

lemma remaining_on_page:
  assumes "hpt_pmeo_is_page e = Some True" "leaf_aligned e"
    and "hpt_pmeo_va_to_pa e va = Some pa" "hpt_remaining_on_page e pa = Some r"
  shows "unat (take_bit (pm_shift (pmeo_t e) (pmeo_lvl e)) va) + unat r = 2 ^ pm_shift (pmeo_t e) (pmeo_lvl e)"
proof -
  let ?k = "pm_shift (pmeo_t e) (pmeo_lvl e)"
  have ok: "lvl_ok (pmeo_t e) (pmeo_lvl e)" and k: "?k < 31"
    using assms(1) is_page_lvl_ok by (auto simp: hpt_pmeo_is_page_def)
  obtain base where base: "hpt_pmeo_get_address e = Some base" "take_bit ?k base = 0"
    using assms(2) by (auto simp: leaf_aligned_def split: option.splits)
  have "take_bit ?k pa = take_bit ?k va"
    using assms(3) base by (auto simp: hpt_pmeo_va_to_pa_eq [OF assms(1)] take_bit_add_aligned)
  then have "r = 2 ^ ?k - take_bit ?k va"
    using assms(4) by (simp add: hpt_remaining_on_page_eq [OF ok k])
  then show ?thesis using k unat_remaining [of ?k va] unat_take_bit_less [of ?k va] by simp
qed

end
