(* ===== verification/Hptw.thy ===== *)
theory Hptw
  imports Hpto
begin

text \<open>
  The page-table walker of \<^verbatim>\<open>libxmhfutil/hptw.c\<close>, one definition per function. A walking
  context (\<open>hptw_ctx_t\<close>) carries three callbacks, which the clients of the walker supply; they
  are parameters here. \<open>pa2ptr\<close> and \<open>ptr2pa\<close> read the machine state, \<open>gzp\<close> may change it. A walk
  is a \<open>while\<close> loop over \<open>hptw_next_lvl\<close>, which takes the page map one level down, so
  each loop is a \<open>function\<close> with the level as its measure. The copy loops advance by the
  number of bytes that the callback grants, which nothing in this file bounds from below, so
  they are partial functions; that they return is a theorem under the contract of the callback.
\<close>

type_synonym hptw_cpl = u32

abbreviation (input) HPTW_CPL0 :: hptw_cpl where "HPTW_CPL0 \<equiv> 0"
abbreviation (input) HPTW_CPL3 :: hptw_cpl where "HPTW_CPL3 \<equiv> 3"

record 's hptw_ctx =
  gzp :: "'s \<Rightarrow> u64 \<Rightarrow> u64 \<Rightarrow> (u64 \<times> 's) exec"
  pa2ptr :: "'s \<Rightarrow> hpt_pa \<Rightarrow> u64 \<Rightarrow> hpt_prot \<Rightarrow> hptw_cpl \<Rightarrow> (u64 \<times> u64) exec"
  ptr2pa :: "'s \<Rightarrow> u64 \<Rightarrow> hpt_pa exec"
  root_pa :: hpt_pa
  ctx_t :: hpt_type

definition hptw_get_root :: "'s hptw_ctx \<Rightarrow> 's \<Rightarrow> hpt_pmo ret exec" where
  "hptw_get_root ctx s = do {
     lvl \<leftarrow> hpt_type_max_lvl (ctx_t ctx);
     pm_sz \<leftarrow> hpt_pm_size (ctx_t ctx) lvl;
     (pm, avail) \<leftarrow> pa2ptr ctx s (root_pa ctx) pm_sz HPT_PROTS_RW HPTW_CPL0;
     if pm = 0 then Some ERR
     else if avail \<noteq> pm_sz then Some ERR
     else Some (OK \<lparr>pmo_pm = pm, pmo_t = ctx_t ctx, pmo_lvl = lvl\<rparr>)
   }"

definition hptw_next_lvl ::
  "'x mach_scheme hptw_ctx \<Rightarrow> 'x mach_scheme \<Rightarrow> hpt_pmo \<Rightarrow> hpt_va \<Rightarrow> (bool \<times> hpt_pmo) exec" where
  "hptw_next_lvl ctx s pmo va = do {
     pmeo \<leftarrow> hpt_pm_get_pmeo_by_va (mem s) pmo va;
     assert_c (pmo_pm pmo \<noteq> 0);
     present \<leftarrow> hpt_pmeo_is_present pmeo;
     is_page \<leftarrow> hpt_pmeo_is_page pmeo;
     if \<not> present \<or> is_page then Some (False, pmo)
     else do {
       pm_sz \<leftarrow> hpt_pm_size (pmo_t pmo) (pmo_lvl pmo - 1);
       pa \<leftarrow> hpt_pmeo_get_address pmeo;
       (pm, avail) \<leftarrow> pa2ptr ctx s pa pm_sz HPT_PROTS_R HPTW_CPL0;
       if pm = 0 then Some (False, pmo\<lparr>pmo_pm := pm, pmo_t := HPT_TYPE_INVALID, pmo_lvl := 0\<rparr>)
       else do {
         assert_c (avail = pm_sz);
         Some (True, pmo\<lparr>pmo_pm := pm, pmo_lvl := pmo_lvl pmo - 1\<rparr>)
       }
     }
   }"

lemma hptw_next_lvl_True:
  assumes "hptw_next_lvl ctx s pmo va = Some (True, pmo')"
  shows "pmo_lvl pmo' < pmo_lvl pmo" and "pmo_t pmo' = pmo_t pmo" and "pmo_lvl pmo = Suc (pmo_lvl pmo')"
proof -
  have "hpt_pm_get_pme_by_va (pmo_t pmo) (pmo_lvl pmo) (mem s) (pmo_pm pmo) va \<noteq> None"
    using assms by (auto simp: hptw_next_lvl_def hpt_pm_get_pmeo_by_va_def bind_eq_Some_conv)
  then have "0 < pmo_lvl pmo"
    using hpt_get_pm_idx_SomeD by (force simp: hpt_pm_get_pme_by_va_def bind_eq_Some_conv lvl_ok_def)
  moreover have "pmo_lvl pmo' = pmo_lvl pmo - 1" "pmo_t pmo' = pmo_t pmo"
    using assms by (auto simp: hptw_next_lvl_def bind_eq_Some_conv split: if_splits)
  ultimately show "pmo_lvl pmo' < pmo_lvl pmo" "pmo_t pmo' = pmo_t pmo" "pmo_lvl pmo = Suc (pmo_lvl pmo')"
    by simp_all
qed

function hptw_get_pmo_loop ::
  "'x mach_scheme hptw_ctx \<Rightarrow> 'x mach_scheme \<Rightarrow> hpt_pmo \<Rightarrow> nat \<Rightarrow> hpt_va \<Rightarrow> hpt_pmo exec" where
  "hptw_get_pmo_loop ctx s pmo end_lvl va =
     (if pmo_lvl pmo > end_lvl then do {
        (descended, pmo') \<leftarrow> hptw_next_lvl ctx s pmo va;
        if descended then hptw_get_pmo_loop ctx s pmo' end_lvl va else Some pmo'
      }
      else Some pmo)"
  by pat_completeness auto
termination
  by (relation "measure (\<lambda>(ctx, s, pmo, end_lvl, va). pmo_lvl pmo)") (auto dest: hptw_next_lvl_True)

declare hptw_get_pmo_loop.simps [simp del]

definition hptw_get_pmo ::
  "'x mach_scheme hptw_ctx \<Rightarrow> 'x mach_scheme \<Rightarrow> nat \<Rightarrow> hpt_va \<Rightarrow> hpt_pmo exec" where
  "hptw_get_pmo ctx s end_lvl va = do {
     root \<leftarrow> hptw_get_root ctx s;
     case root of ERR \<Rightarrow> None | OK pmo \<Rightarrow> hptw_get_pmo_loop ctx s pmo end_lvl va
   }"

definition hptw_get_pmeo ::
  "'x mach_scheme hptw_ctx \<Rightarrow> 'x mach_scheme \<Rightarrow> nat \<Rightarrow> hpt_va \<Rightarrow> hpt_pmeo exec" where
  "hptw_get_pmeo ctx s end_lvl va = do {
     end_pmo \<leftarrow> hptw_get_pmo ctx s end_lvl va;
     hpt_pm_get_pmeo_by_va (mem s) end_pmo va
   }"

definition hptw_insert_pmeo ::
  "'x mach_scheme hptw_ctx \<Rightarrow> 'x mach_scheme \<Rightarrow> hpt_pmeo \<Rightarrow> hpt_va \<Rightarrow> (unit ret \<times> 'x mach_scheme) exec" where
  "hptw_insert_pmeo ctx s pmeo va = do {
     pmo \<leftarrow> hptw_get_pmo ctx s (pmeo_lvl pmeo) va;
     if pmo_pm pmo = 0 then Some (ERR, s)
     else if pmo_lvl pmo \<noteq> pmeo_lvl pmeo then Some (ERR, s)
     else do {
       m \<leftarrow> hpt_pmo_set_pme_by_va (mem s) pmo pmeo va;
       Some (OK (), s\<lparr>mem := m\<rparr>)
     }
   }"

function hptw_get_pmo_alloc_loop ::
  "'x mach_scheme hptw_ctx \<Rightarrow> 'x mach_scheme \<Rightarrow> hpt_pmo \<Rightarrow> nat \<Rightarrow> hpt_va
    \<Rightarrow> (hpt_pmo ret \<times> 'x mach_scheme) exec" where
  "hptw_get_pmo_alloc_loop ctx s pmo end_lvl va =
     (if pmo_lvl pmo > end_lvl then do {
        pmeo \<leftarrow> hpt_pm_get_pmeo_by_va (mem s) pmo va;
        is_page \<leftarrow> hpt_pmeo_is_page pmeo;
        if is_page then Some (ERR, s)
        else do {
          present \<leftarrow> hpt_pmeo_is_present pmeo;
          (r, s) \<leftarrow>
            (if \<not> present then do {
               sz \<leftarrow> hpt_pm_size (pmo_t pmo) (pmo_lvl pmo - 1);
               (pm, s) \<leftarrow> gzp ctx s 4096 sz;
               if pm = 0 then Some (ERR, s)
               else do {
                 pa \<leftarrow> ptr2pa ctx s pm;
                 pmeo \<leftarrow> hpt_pmeo_set_address pmeo pa;
                 pmeo \<leftarrow> hpt_pmeo_setprot pmeo HPT_PROTS_RWX;
                 pmeo \<leftarrow> hpt_pmeo_setuser pmeo True;
                 m \<leftarrow> hpt_pmo_set_pme_by_va (mem s) pmo pmeo va;
                 Some (OK (), s\<lparr>mem := m\<rparr>)
               }
             }
             else Some (OK (), s));
          case r of
            ERR \<Rightarrow> Some (ERR, s)
          | OK _ \<Rightarrow> do {
              (walked_next_lvl, pmo') \<leftarrow> hptw_next_lvl ctx s pmo va;
              if walked_next_lvl then hptw_get_pmo_alloc_loop ctx s pmo' end_lvl va else None
            }
        }
      }
      else Some (OK pmo, s))"
  by pat_completeness auto
termination
  by (relation "measure (\<lambda>(ctx, s, pmo, end_lvl, va). pmo_lvl pmo)") (auto dest: hptw_next_lvl_True)

declare hptw_get_pmo_alloc_loop.simps [simp del]

definition hptw_get_pmo_alloc ::
  "'x mach_scheme hptw_ctx \<Rightarrow> 'x mach_scheme \<Rightarrow> nat \<Rightarrow> hpt_va \<Rightarrow> (hpt_pmo ret \<times> 'x mach_scheme) exec" where
  "hptw_get_pmo_alloc ctx s end_lvl va = do {
     root \<leftarrow> hptw_get_root ctx s;
     case root of ERR \<Rightarrow> Some (ERR, s) | OK pmo \<Rightarrow> hptw_get_pmo_alloc_loop ctx s pmo end_lvl va
   }"

definition hptw_insert_pmeo_alloc ::
  "'x mach_scheme hptw_ctx \<Rightarrow> 'x mach_scheme \<Rightarrow> hpt_pmeo \<Rightarrow> hpt_va \<Rightarrow> (unit ret \<times> 'x mach_scheme) exec" where
  "hptw_insert_pmeo_alloc ctx s pmeo va = do {
     (r, s) \<leftarrow> hptw_get_pmo_alloc ctx s (pmeo_lvl pmeo) va;
     case r of
       ERR \<Rightarrow> Some (ERR, s)
     | OK pmo \<Rightarrow>
         if pmo_pm pmo = 0 then Some (ERR, s)
         else if pmo_lvl pmo \<noteq> pmeo_lvl pmeo then Some (ERR, s)
         else do {
           m \<leftarrow> hpt_pmo_set_pme_by_va (mem s) pmo pmeo va;
           Some (OK (), s\<lparr>mem := m\<rparr>)
         }
   }"

function hptw_effective_prots_loop ::
  "'x mach_scheme hptw_ctx \<Rightarrow> 'x mach_scheme \<Rightarrow> hpt_pmo \<Rightarrow> hpt_va \<Rightarrow> hpt_prot \<Rightarrow> bool
    \<Rightarrow> (hpt_prot \<times> bool \<times> hpt_pmo) exec" where
  "hptw_effective_prots_loop ctx s pmo va prots user = do {
     pmeo \<leftarrow> hpt_pm_get_pmeo_by_va (mem s) pmo va;
     p \<leftarrow> hpt_pmeo_getprot pmeo;
     u \<leftarrow> hpt_pmeo_getuser pmeo;
     (descended, pmo') \<leftarrow> hptw_next_lvl ctx s pmo va;
     if descended then hptw_effective_prots_loop ctx s pmo' va (prots AND p) (user \<and> u)
     else Some (prots AND p, user \<and> u, pmo')
   }"
  by pat_completeness auto
termination
  by (relation "measure (\<lambda>(ctx, s, pmo, va, prots, user). pmo_lvl pmo)") (auto dest: hptw_next_lvl_True)

declare hptw_effective_prots_loop.simps [simp del]

text \<open>
  The result is the protections and what is written through \<open>user_accessible\<close> when that
  pointer is not null (\<open>None\<close>: it keeps its old value).
\<close>

definition hptw_get_effective_prots ::
  "'x mach_scheme hptw_ctx \<Rightarrow> 'x mach_scheme \<Rightarrow> hpt_va \<Rightarrow> (hpt_prot \<times> bool option) exec" where
  "hptw_get_effective_prots ctx s va = do {
     root \<leftarrow> hptw_get_root ctx s;
     case root of
       ERR \<Rightarrow> Some (HPT_PROTS_NONE, None)
     | OK pmo \<Rightarrow> do {
         (prots, user, pmo') \<leftarrow> hptw_effective_prots_loop ctx s pmo va HPT_PROTS_RWX True;
         if pmo_t pmo' = HPT_TYPE_INVALID then Some (HPT_PROTS_NONE, None)
         else Some (prots, Some user)
       }
   }"

definition hptw_set_prot ::
  "'x mach_scheme hptw_ctx \<Rightarrow> 'x mach_scheme \<Rightarrow> hpt_va \<Rightarrow> hpt_prot \<Rightarrow> 'x mach_scheme exec" where
  "hptw_set_prot ctx s va prot = do {
     pmo \<leftarrow> hptw_get_pmo ctx s 1 va;
     assert_c (pmo_pm pmo \<noteq> 0);
     assert_c (pmo_lvl pmo = 1);
     pmeo \<leftarrow> hpt_pm_get_pmeo_by_va (mem s) pmo va;
     pmeo \<leftarrow> hpt_pmeo_setprot pmeo prot;
     m \<leftarrow> hpt_pmo_set_pme_by_va (mem s) pmo pmeo va;
     Some (s\<lparr>mem := m\<rparr>)
   }"

definition hptw_va_to_pa ::
  "'x mach_scheme hptw_ctx \<Rightarrow> 'x mach_scheme \<Rightarrow> hpt_va \<Rightarrow> hpt_pa exec" where
  "hptw_va_to_pa ctx s va = do {
     pmeo \<leftarrow> hptw_get_pmeo ctx s 1 va;
     hpt_pmeo_va_to_pa pmeo va
   }"

definition hptw_gpa_to_spa ::
  "'x mach_scheme hptw_ctx \<Rightarrow> 'x mach_scheme \<Rightarrow> hpt_pa \<Rightarrow> u64 exec" where
  "hptw_gpa_to_spa ctx s gpa = hptw_va_to_pa ctx s gpa"

definition hptw_access_va ::
  "'x mach_scheme hptw_ctx \<Rightarrow> 'x mach_scheme \<Rightarrow> hpt_va \<Rightarrow> u64 \<Rightarrow> (u64 \<times> u64) exec" where
  "hptw_access_va ctx s va requested_sz = do {
     pmeo \<leftarrow> hptw_get_pmeo ctx s 1 va;
     pa \<leftarrow> hpt_pmeo_va_to_pa pmeo va;
     remaining \<leftarrow> hpt_remaining_on_page pmeo pa;
     pa2ptr ctx s pa (min requested_sz remaining) HPT_PROTS_R HPTW_CPL0
   }"

function hptw_checked_get_pmeo_loop ::
  "'x mach_scheme hptw_ctx \<Rightarrow> 'x mach_scheme \<Rightarrow> hpt_prot \<Rightarrow> hptw_cpl \<Rightarrow> hpt_va \<Rightarrow> hpt_pmo
    \<Rightarrow> (hpt_pmeo \<times> hpt_pmo) ret exec" where
  "hptw_checked_get_pmeo_loop ctx s access_type cpl va pmo = do {
     pmeo \<leftarrow> hpt_pm_get_pmeo_by_va (mem s) pmo va;
     p \<leftarrow> hpt_pmeo_getprot pmeo;
     u \<leftarrow> hpt_pmeo_getuser pmeo;
     if \<not> (access_type AND p = access_type \<and> (cpl = HPTW_CPL0 \<or> u)) then Some ERR
     else do {
       (descended, pmo') \<leftarrow> hptw_next_lvl ctx s pmo va;
       if descended then hptw_checked_get_pmeo_loop ctx s access_type cpl va pmo'
       else Some (OK (pmeo, pmo'))
     }
   }"
  by pat_completeness auto
termination
  by (relation "measure (\<lambda>(ctx, s, access_type, cpl, va, pmo). pmo_lvl pmo)")
    (auto dest: hptw_next_lvl_True)

declare hptw_checked_get_pmeo_loop.simps [simp del]

definition hptw_checked_get_pmeo ::
  "'x mach_scheme hptw_ctx \<Rightarrow> 'x mach_scheme \<Rightarrow> hpt_prot \<Rightarrow> hptw_cpl \<Rightarrow> hpt_va \<Rightarrow> hpt_pmeo ret exec" where
  "hptw_checked_get_pmeo ctx s access_type cpl va = do {
     root \<leftarrow> hptw_get_root ctx s;
     case root of
       ERR \<Rightarrow> Some ERR
     | OK pmo \<Rightarrow> do {
         r \<leftarrow> hptw_checked_get_pmeo_loop ctx s access_type cpl va pmo;
         case r of
           ERR \<Rightarrow> Some ERR
         | OK (pmeo, pmo') \<Rightarrow>
             if pmo_t pmo' = HPT_TYPE_INVALID then Some ERR
             else do {
               present \<leftarrow> hpt_pmeo_is_present pmeo;
               if \<not> present then Some ERR
               else do {
                 is_page \<leftarrow> hpt_pmeo_is_page pmeo;
                 assert_c is_page;
                 Some (OK pmeo)
               }
             }
       }
   }"

definition hptw_checked_access_va ::
  "'x mach_scheme hptw_ctx \<Rightarrow> 'x mach_scheme \<Rightarrow> hpt_prot \<Rightarrow> hptw_cpl \<Rightarrow> hpt_va \<Rightarrow> u64
    \<Rightarrow> (u64 \<times> u64) exec" where
  "hptw_checked_access_va ctx s access_type cpl va requested_sz = do {
     r \<leftarrow> hptw_checked_get_pmeo ctx s access_type cpl va;
     case r of
       ERR \<Rightarrow> Some (0, 0)
     | OK pmeo \<Rightarrow> do {
         pa \<leftarrow> hpt_pmeo_va_to_pa pmeo va;
         remaining \<leftarrow> hpt_remaining_on_page pmeo pa;
         pa2ptr ctx s pa (min requested_sz remaining) access_type cpl
       }
   }"

partial_function (option) hptw_copy_from_va_loop ::
  "'x mach_scheme hptw_ctx \<Rightarrow> 'x mach_scheme \<Rightarrow> hptw_cpl \<Rightarrow> u64 \<Rightarrow> hpt_va \<Rightarrow> u64 \<Rightarrow> u64
    \<Rightarrow> (unit ret \<times> 'x mach_scheme) exec" where
  "hptw_copy_from_va_loop ctx s cpl dst src_va_base len copied =
     (if copied < len then do {
        (src, to_copy) \<leftarrow> hptw_checked_access_va ctx s HPT_PROTS_R cpl (src_va_base + copied) (len - copied);
        if src = 0 then Some (ERR, s)
        else hptw_copy_from_va_loop ctx (s\<lparr>mem := memcpy (mem s) (dst + copied) src to_copy\<rparr>)
               cpl dst src_va_base len (copied + to_copy)
      }
      else Some (OK (), s))"

definition hptw_checked_copy_from_va ::
  "'x mach_scheme hptw_ctx \<Rightarrow> 'x mach_scheme \<Rightarrow> hptw_cpl \<Rightarrow> u64 \<Rightarrow> hpt_va \<Rightarrow> u64
    \<Rightarrow> (unit ret \<times> 'x mach_scheme) exec" where
  "hptw_checked_copy_from_va ctx s cpl dst src_va_base len =
     hptw_copy_from_va_loop ctx s cpl dst src_va_base len 0"

partial_function (option) hptw_copy_to_va_loop ::
  "'x mach_scheme hptw_ctx \<Rightarrow> 'x mach_scheme \<Rightarrow> hptw_cpl \<Rightarrow> hpt_va \<Rightarrow> u64 \<Rightarrow> u64 \<Rightarrow> u64
    \<Rightarrow> (unit ret \<times> 'x mach_scheme) exec" where
  "hptw_copy_to_va_loop ctx s cpl dst_va_base src len copied =
     (if copied < len then do {
        (dst, to_copy) \<leftarrow> hptw_checked_access_va ctx s HPT_PROTS_W cpl (dst_va_base + copied) (len - copied);
        if dst = 0 then Some (ERR, s)
        else hptw_copy_to_va_loop ctx (s\<lparr>mem := memcpy (mem s) dst (src + copied) to_copy\<rparr>)
               cpl dst_va_base src len (copied + to_copy)
      }
      else Some (OK (), s))"

definition hptw_checked_copy_to_va ::
  "'x mach_scheme hptw_ctx \<Rightarrow> 'x mach_scheme \<Rightarrow> hptw_cpl \<Rightarrow> hpt_va \<Rightarrow> u64 \<Rightarrow> u64
    \<Rightarrow> (unit ret \<times> 'x mach_scheme) exec" where
  "hptw_checked_copy_to_va ctx s cpl dst_va_base src len =
     hptw_copy_to_va_loop ctx s cpl dst_va_base src len 0"

partial_function (option) hptw_copy_va_to_va_loop ::
  "'x mach_scheme hptw_ctx \<Rightarrow> 'x mach_scheme \<Rightarrow> hptw_cpl \<Rightarrow> hpt_va
    \<Rightarrow> 'x mach_scheme hptw_ctx \<Rightarrow> hptw_cpl \<Rightarrow> hpt_va \<Rightarrow> u64 \<Rightarrow> u64 \<Rightarrow> (unit ret \<times> 'x mach_scheme) exec" where
  "hptw_copy_va_to_va_loop dst_ctx s dst_cpl dst_va_base src_ctx src_cpl src_va_base len copied =
     (if copied < len then do {
        (dst, to_copy) \<leftarrow>
          hptw_checked_access_va dst_ctx s HPT_PROTS_W dst_cpl (dst_va_base + copied) (len - copied);
        if dst = 0 then Some (ERR, s)
        else do {
          (src, to_copy) \<leftarrow>
            hptw_checked_access_va src_ctx s HPT_PROTS_R src_cpl (src_va_base + copied) to_copy;
          if src = 0 then Some (ERR, s)
          else hptw_copy_va_to_va_loop dst_ctx (s\<lparr>mem := memcpy (mem s) dst src to_copy\<rparr>) dst_cpl dst_va_base
                 src_ctx src_cpl src_va_base len (copied + to_copy)
        }
      }
      else Some (OK (), s))"

definition hptw_checked_copy_va_to_va ::
  "'x mach_scheme hptw_ctx \<Rightarrow> 'x mach_scheme \<Rightarrow> hptw_cpl \<Rightarrow> hpt_va
    \<Rightarrow> 'x mach_scheme hptw_ctx \<Rightarrow> hptw_cpl \<Rightarrow> hpt_va \<Rightarrow> u64 \<Rightarrow> (unit ret \<times> 'x mach_scheme) exec" where
  "hptw_checked_copy_va_to_va dst_ctx s dst_cpl dst_va_base src_ctx src_cpl src_va_base len =
     hptw_copy_va_to_va_loop dst_ctx s dst_cpl dst_va_base src_ctx src_cpl src_va_base len 0"

partial_function (option) hptw_memset_va_loop ::
  "'x mach_scheme hptw_ctx \<Rightarrow> 'x mach_scheme \<Rightarrow> hptw_cpl \<Rightarrow> hpt_va \<Rightarrow> u8 \<Rightarrow> u64 \<Rightarrow> u64
    \<Rightarrow> (unit ret \<times> 'x mach_scheme) exec" where
  "hptw_memset_va_loop ctx s cpl dst_va_base c len n =
     (if n < len then do {
        (dst, to_set) \<leftarrow> hptw_checked_access_va ctx s HPT_PROTS_W cpl (dst_va_base + n) (len - n);
        if dst = 0 then Some (ERR, s)
        else hptw_memset_va_loop ctx (s\<lparr>mem := memset (mem s) dst c to_set\<rparr>)
               cpl dst_va_base c len (n + to_set)
      }
      else Some (OK (), s))"

definition hptw_checked_memset_va ::
  "'x mach_scheme hptw_ctx \<Rightarrow> 'x mach_scheme \<Rightarrow> hptw_cpl \<Rightarrow> hpt_va \<Rightarrow> u8 \<Rightarrow> u64
    \<Rightarrow> (unit ret \<times> 'x mach_scheme) exec" where
  "hptw_checked_memset_va ctx s cpl dst_va_base c len =
     hptw_memset_va_loop ctx s cpl dst_va_base c len 0"

subsection \<open>Walks\<close>

text \<open>
  \<open>hptw_walk ctx s va pmo es pmo'\<close>: walking down from the page map \<open>pmo\<close> reads the
  entries \<open>es\<close>, the last of which is where the walk ends, and leaves the loop variable at
  \<open>pmo'\<close>. The loops of the walker are characterised by this relation.
\<close>

inductive hptw_walk ::
  "'x mach_scheme hptw_ctx \<Rightarrow> 'x mach_scheme \<Rightarrow> hpt_va \<Rightarrow> hpt_pmo \<Rightarrow> hpt_pmeo list \<Rightarrow> hpt_pmo \<Rightarrow> bool"
  for ctx s va where
  leaf: "hpt_pm_get_pmeo_by_va (mem s) pmo va = Some e \<Longrightarrow> hptw_next_lvl ctx s pmo va = Some (False, pmo')
    \<Longrightarrow> hptw_walk ctx s va pmo [e] pmo'"
| step: "hpt_pm_get_pmeo_by_va (mem s) pmo va = Some e \<Longrightarrow> hptw_next_lvl ctx s pmo va = Some (True, pmo1)
    \<Longrightarrow> hptw_walk ctx s va pmo1 es pmo' \<Longrightarrow> hptw_walk ctx s va pmo (e # es) pmo'"

definition entry_prot :: "hpt_pmeo \<Rightarrow> hpt_prot" where
  "entry_prot e = the (hpt_pmeo_getprot e)"

definition entry_user :: "hpt_pmeo \<Rightarrow> bool" where
  "entry_user e = the (hpt_pmeo_getuser e)"

definition entry_allows :: "hpt_prot \<Rightarrow> hptw_cpl \<Rightarrow> hpt_pmeo \<Rightarrow> bool" where
  "entry_allows access cpl e \<longleftrightarrow> access AND entry_prot e = access \<and> (cpl = HPTW_CPL0 \<or> entry_user e)"

lemma get_pmeo_SomeD:
  assumes "hpt_pm_get_pmeo_by_va m pmo va = Some e"
  shows "pmeo_t e = pmo_t pmo" "pmeo_lvl e = pmo_lvl pmo" "lvl_ok (pmo_t pmo) (pmo_lvl pmo)"
  using assms hpt_get_pm_idx_SomeD
  by (auto simp: hpt_pm_get_pmeo_by_va_def hpt_pm_get_pme_by_va_def bind_eq_Some_conv)

lemma get_pmeo_total: "lvl_ok (pmo_t pmo) (pmo_lvl pmo) \<Longrightarrow> \<exists>e. hpt_pm_get_pmeo_by_va m pmo va = Some e"
  by (simp add: hpt_pm_get_pmeo_by_va_def hpt_pm_get_pme_by_va_eq hpt_get_pm_idx_eq)

lemma pme_accessors_total:
  assumes "lvl_ok t lvl"
  shows "\<exists>p. hpt_pme_getprot t lvl e = Some p" "\<exists>u. hpt_pme_getuser t lvl e = Some u"
    "\<exists>b. hpt_pme_is_page t lvl e = Some b" "\<exists>b. hpt_pme_is_present t lvl e = Some b"
proof -
  show p: "\<exists>p. hpt_pme_getprot t lvl e = Some p"
    using assms by (cases rule: lvl_ok_cases) (auto simp: hpt_pme_getprot_eq)
  then show "\<exists>b. hpt_pme_is_present t lvl e = Some b" by (auto simp: hpt_pme_is_present_def)
  show "\<exists>u. hpt_pme_getuser t lvl e = Some u"
    using assms by (cases rule: lvl_ok_cases) (auto simp: hpt_pme_getuser_def)
  show "\<exists>b. hpt_pme_is_page t lvl e = Some b"
    using assms by (cases rule: lvl_ok_cases) (auto simp: hpt_pme_is_page_eq)
qed

lemma accessors_total:
  assumes "lvl_ok (pmeo_t e) (pmeo_lvl e)"
  shows "hpt_pmeo_getprot e = Some (entry_prot e)" "hpt_pmeo_getuser e = Some (entry_user e)"
    "\<exists>b. hpt_pmeo_is_page e = Some b" "\<exists>b. hpt_pmeo_is_present e = Some b"
  using pme_accessors_total [OF assms, of "pmeo_pme e"]
  by (auto simp: entry_prot_def entry_user_def hpt_pmeo_getprot_def hpt_pmeo_getuser_def
      hpt_pmeo_is_page_def hpt_pmeo_is_present_def)

lemma walked_entry:
  assumes "hpt_pm_get_pmeo_by_va m pmo va = Some e"
  shows "hpt_pmeo_getprot e = Some (entry_prot e)" "hpt_pmeo_getuser e = Some (entry_user e)"
  using accessors_total get_pmeo_SomeD [OF assms] by auto

lemma hptw_walk_nonempty: "hptw_walk ctx s va pmo es pmo' \<Longrightarrow> es \<noteq> []"
  by (erule hptw_walk.cases) auto

lemma hptw_walk_checked:
  "hptw_walk ctx s va pmo es pmo' \<Longrightarrow>
   hptw_checked_get_pmeo_loop ctx s access cpl va pmo =
     Some (if \<forall>e \<in> set es. entry_allows access cpl e then OK (last es, pmo') else ERR)"
proof (induction rule: hptw_walk.induct)
  case (leaf pmo e pmo')
  then show ?case
    by (subst hptw_checked_get_pmeo_loop.simps) (simp add: walked_entry entry_allows_def)
next
  case (step pmo e pmo1 es pmo')
  note unfolded = hptw_checked_get_pmeo_loop.simps [of ctx s access cpl va pmo]
  show ?case
  proof (cases "entry_allows access cpl e")
    case True
    then have "hptw_checked_get_pmeo_loop ctx s access cpl va pmo =
        hptw_checked_get_pmeo_loop ctx s access cpl va pmo1"
      using step.hyps by (auto simp: unfolded walked_entry entry_allows_def)
    then show ?thesis using step.IH True hptw_walk_nonempty [OF step.hyps(3)] by simp
  next
    case False
    then show ?thesis using step.hyps by (simp add: unfolded walked_entry entry_allows_def)
  qed
qed

lemma hptw_walk_effective:
  "hptw_walk ctx s va pmo es pmo' \<Longrightarrow>
   hptw_effective_prots_loop ctx s pmo va prots user =
     Some (fold (\<lambda>e p. p AND entry_prot e) es prots, user \<and> (\<forall>e \<in> set es. entry_user e), pmo')"
proof (induction arbitrary: prots user rule: hptw_walk.induct)
  case (leaf pmo e pmo')
  then show ?case by (subst hptw_effective_prots_loop.simps) (simp add: walked_entry)
next
  case (step pmo e pmo1 es pmo')
  then show ?case by (subst hptw_effective_prots_loop.simps) (simp add: walked_entry)
qed

lemma effective_loop_walk:
  "hptw_effective_prots_loop ctx s pmo va prots user = Some r \<Longrightarrow> \<exists>es pmo'. hptw_walk ctx s va pmo es pmo'"
proof (induction ctx s pmo va prots user rule: hptw_effective_prots_loop.induct)
  case (1 ctx s pmo va prots user)
  note unfolded = "1.prems" [unfolded hptw_effective_prots_loop.simps [of ctx s pmo va prots user]]
  obtain e p u where e: "hpt_pm_get_pmeo_by_va (mem s) pmo va = Some e" "hpt_pmeo_getprot e = Some p"
      "hpt_pmeo_getuser e = Some u"
    using unfolded by (fastforce simp: bind_eq_Some_conv)
  then obtain d pm1 where n: "hptw_next_lvl ctx s pmo va = Some (d, pm1)"
    using unfolded by (fastforce simp: bind_eq_Some_conv)
  show ?case
  proof (cases d)
    case True
    then have "hptw_effective_prots_loop ctx s pm1 va (prots AND p) (user \<and> u) = Some r"
      using unfolded e n by simp
    then obtain es pmo' where "hptw_walk ctx s va pm1 es pmo'" using "1.IH" [OF e n refl] True by auto
    then have "hptw_walk ctx s va pmo (e # es) pmo'" using n True by (intro hptw_walk.step [OF e(1)]) auto
    then show ?thesis by blast
  next
    case False
    then show ?thesis using hptw_walk.leaf [OF e(1)] n by auto
  qed
qed

lemma and_subset_iff: "a AND b = a \<longleftrightarrow> (\<forall>n. bit a n \<longrightarrow> bit b n)" for a b :: u64
proof
  show "\<forall>n. bit a n \<longrightarrow> bit b n" if "a AND b = a" using that by (metis bit_and_iff)
  show "a AND b = a" if "\<forall>n. bit a n \<longrightarrow> bit b n"
    using that by (intro bit_word_eqI) (auto simp: bit_simps)
qed

lemma and_subset_and: "a AND (b AND c) = a \<longleftrightarrow> a AND b = a \<and> a AND c = a" for a b c :: u64
  unfolding and_subset_iff by (auto simp: bit_simps)

lemma fold_and_subset:
  "access AND fold (\<lambda>e p. p AND f e) es prots = access \<longleftrightarrow>
   access AND prots = (access :: u64) \<and> (\<forall>e \<in> set es. access AND f e = access)"
  by (induction es arbitrary: prots) (simp_all add: and_subset_and)


lemma hptw_next_lvl_False:
  assumes "hptw_next_lvl ctx s pmo va = Some (False, pmo')" "pmo_t pmo' \<noteq> HPT_TYPE_INVALID"
    and "hpt_pm_get_pmeo_by_va (mem s) pmo va = Some e"
  shows "pmo' = pmo" and "hpt_pmeo_is_present e = Some True \<Longrightarrow> hpt_pmeo_is_page e = Some True"
  using assms by (auto simp: hptw_next_lvl_def bind_eq_Some_conv split: if_splits)

text \<open>The end of a walk that did not fail: the last entry is the one the last page map holds.\<close>

lemma hptw_walk_end:
  "hptw_walk ctx s va pmo es pmo' \<Longrightarrow> pmo_t pmo' \<noteq> HPT_TYPE_INVALID \<Longrightarrow>
   hpt_pm_get_pmeo_by_va (mem s) pmo' va = Some (last es)
   \<and> (hpt_pmeo_is_present (last es) = Some True \<longrightarrow> hpt_pmeo_is_page (last es) = Some True)"
proof (induction rule: hptw_walk.induct)
  case (leaf pmo e pmo')
  then show ?case using hptw_next_lvl_False [OF leaf.hyps(2) leaf.prems leaf.hyps(1)] by simp
next
  case (step pmo e pmo1 es pmo')
  then show ?case using hptw_walk_nonempty [OF step.hyps(3)] by simp
qed

lemma next_lvl_level1:
  assumes "hptw_next_lvl ctx s pmo va = Some r" "pmo_lvl pmo = 1"
  shows "r = (False, pmo)"
proof -
  obtain e where e: "hpt_pm_get_pmeo_by_va (mem s) pmo va = Some e"
    using assms(1) by (auto simp: hptw_next_lvl_def bind_eq_Some_conv)
  then have "hpt_pmeo_is_page e = Some True"
    using get_pmeo_SomeD [OF e] assms(2)
    by (cases "pmo_t pmo") (auto simp: hpt_pmeo_is_page_def hpt_pme_is_page_eq lvl_ok_def)
  then show ?thesis using assms(1) e by (auto simp: hptw_next_lvl_def bind_eq_Some_conv)
qed

lemma hptw_walk_lvl_ok: "hptw_walk ctx s va pmo es pmo' \<Longrightarrow> lvl_ok (pmo_t pmo) (pmo_lvl pmo)"
  by (erule hptw_walk.cases) (simp_all add: get_pmeo_SomeD)

lemma hptw_walk_get_pmo:
  "hptw_walk ctx s va pmo es pmo' \<Longrightarrow> hptw_get_pmo_loop ctx s pmo 1 va = Some pmo'"
proof (induction rule: hptw_walk.induct)
  case (leaf pmo e pmo')
  have "0 < pmo_lvl pmo" using get_pmeo_SomeD(3) [OF leaf(1)] by (simp add: lvl_ok_def)
  then show ?case using leaf next_lvl_level1 [of ctx s pmo va]
    by (subst hptw_get_pmo_loop.simps) auto
next
  case (step pmo e pmo1 es pmo')
  have "0 < pmo_lvl pmo1" using hptw_walk_lvl_ok [OF step.hyps(3)] by (simp add: lvl_ok_def)
  then show ?case using step hptw_next_lvl_True(3) [OF step.hyps(2)]
    by (subst hptw_get_pmo_loop.simps) simp
qed

subsection \<open>Access checks\<close>

lemma fold_entry_allows:
  "(\<forall>e \<in> set es. entry_allows access cpl e) \<longleftrightarrow>
   (\<forall>e \<in> set es. access AND entry_prot e = access) \<and> (cpl = HPTW_CPL0 \<or> (\<forall>e \<in> set es. entry_user e))"
  by (auto simp: entry_allows_def)

text \<open>
  What \<open>access_type\<close> must ask for so that a leaf that grants it is present: one of the
  three permissions with EPT, read with the other types.
\<close>

definition implies_present :: "hpt_type \<Rightarrow> hpt_prot \<Rightarrow> bool" where
  "implies_present t access \<longleftrightarrow> (if t = HPT_TYPE_EPT then access AND HPT_PROTS_RWX \<noteq> 0
     else access AND HPT_PROT_READ_MASK \<noteq> 0)"

lemma allowed_present:
  assumes "lvl_ok (pmeo_t e) (pmeo_lvl e)" "access AND entry_prot e = access"
    and "implies_present (pmeo_t e) access"
  shows "hpt_pmeo_is_present e = Some True"
proof -
  have p: "hpt_pme_getprot (pmeo_t e) (pmeo_lvl e) (pmeo_pme e) = Some (entry_prot e)"
    using accessors_total(1) [OF assms(1)] by (simp add: hpt_pmeo_getprot_def)
  have "entry_prot e AND m \<noteq> 0" if "access AND m \<noteq> 0" for m
  proof
    assume "entry_prot e AND m = 0"
    then have "(access AND entry_prot e) AND m = 0" by (simp add: and.assoc)
    with that assms(2) show False by simp
  qed
  then show ?thesis using p assms(3)
    by (auto simp: hpt_pmeo_is_present_def hpt_pme_is_present_def implies_present_def split: if_splits)
qed

lemma hptw_walk_last:
  "hptw_walk ctx s va pmo es pmo' \<Longrightarrow> lvl_ok (pmeo_t (last es)) (pmeo_lvl (last es)) \<and> pmeo_t (last es) = pmo_t pmo"
proof (induction rule: hptw_walk.induct)
  case (leaf pmo e pmo')
  then show ?case using get_pmeo_SomeD [OF leaf(1)] by simp
next
  case (step pmo e pmo1 es pmo')
  then show ?case using hptw_next_lvl_True(2) [OF step.hyps(2)] hptw_walk_nonempty [OF step.hyps(3)] by auto
qed

lemma prot_of_rwx: "prot_of r w x AND HPT_PROTS_RWX = prot_of r w x"
  by (simp add: prot_of_def)

lemma getprot_rwx: "hpt_pme_getprot t lvl e = Some p \<Longrightarrow> p AND HPT_PROTS_RWX = p"
  by (cases t) (auto simp: hpt_pme_getprot_eq prot_of_rwx split: if_splits)

lemma walk_rwx:
  assumes w: "hptw_walk ctx s va pmo es pmo'" and acc: "\<forall>e \<in> set es. access AND entry_prot e = access"
  shows "access AND HPT_PROTS_RWX = access"
proof -
  let ?p = "entry_prot (last es)"
  have "hpt_pmeo_getprot (last es) = Some ?p" using hptw_walk_last [OF w] accessors_total(1) by blast
  then have "?p AND HPT_PROTS_RWX = ?p" unfolding hpt_pmeo_getprot_def by (rule getprot_rwx)
  moreover have "access AND ?p = access" using acc hptw_walk_nonempty [OF w] by simp
  ultimately have "access AND (?p AND HPT_PROTS_RWX) = access" by simp
  then show ?thesis by (simp only: and_subset_and)
qed

lemma effective_of_walk:
  assumes "hptw_get_root ctx s = Some (OK pmo)" "hptw_walk ctx s va pmo es pmo'"
  shows "hptw_get_effective_prots ctx s va = Some (if pmo_t pmo' = HPT_TYPE_INVALID then (HPT_PROTS_NONE, None)
    else (fold (\<lambda>e p. p AND entry_prot e) es HPT_PROTS_RWX, Some (\<forall>e \<in> set es. entry_user e)))"
  using assms(1) by (simp add: hptw_get_effective_prots_def hptw_walk_effective [OF assms(2)])

lemma leaf_of_walk:
  assumes "hptw_get_root ctx s = Some (OK pmo)" "hptw_walk ctx s va pmo es pmo'"
    and "pmo_t pmo' \<noteq> HPT_TYPE_INVALID"
  shows "hptw_get_pmeo ctx s 1 va = Some (last es)"
  using assms(1,3) hptw_walk_end [OF assms(2)]
  by (simp add: hptw_get_pmeo_def hptw_get_pmo_def hptw_walk_get_pmo [OF assms(2), simplified])

lemma root_type: "hptw_get_root ctx s = Some (OK pmo) \<Longrightarrow> pmo_t pmo = ctx_t ctx"
  by (auto simp: hptw_get_root_def bind_eq_Some_conv split: if_splits)

lemma checked_of_walk:
  assumes root: "hptw_get_root ctx s = Some (OK pmo)" and w: "hptw_walk ctx s va pmo es pmo'"
  shows "hptw_checked_get_pmeo ctx s access cpl va = Some (if pmo_t pmo' \<noteq> HPT_TYPE_INVALID
      \<and> (\<forall>e \<in> set es. entry_allows access cpl e) \<and> hpt_pmeo_is_present (last es) = Some True
      then OK (last es) else ERR)"
proof -
  have l: "hptw_checked_get_pmeo_loop ctx s access cpl va pmo =
      Some (if \<forall>e \<in> set es. entry_allows access cpl e then OK (last es, pmo') else ERR)"
    by (rule hptw_walk_checked [OF w])
  show ?thesis
  proof (cases "\<forall>e \<in> set es. entry_allows access cpl e")
    case True
    obtain b where "hpt_pmeo_is_present (last es) = Some b"
      using accessors_total(4) hptw_walk_last [OF w] by blast
    then show ?thesis using l True hptw_walk_end [OF w] root by (cases b) (simp_all add: hptw_checked_get_pmeo_def)
  next
    case False
    then have "hptw_checked_get_pmeo_loop ctx s access cpl va pmo = Some ERR" using l by auto
    then show ?thesis using False root by (auto simp: hptw_checked_get_pmeo_def)
  qed
qed

lemma allowed_leaf_present:
  assumes "hptw_get_root ctx s = Some (OK pmo)" and w: "hptw_walk ctx s va pmo es pmo'"
    and "implies_present (ctx_t ctx) access" "\<forall>e \<in> set es. entry_allows access cpl e"
  shows "hpt_pmeo_is_present (last es) = Some True"
  using assms hptw_walk_last [OF w] hptw_walk_nonempty [OF w] root_type [OF assms(1)]
  by (intro allowed_present [of "last es" access]) (auto simp: entry_allows_def)

lemma effective_root_walk:
  assumes "hptw_get_effective_prots ctx s va = Some r"
  obtains "hptw_get_root ctx s = Some ERR" "r = (HPT_PROTS_NONE, None)"
  | pmo es pmo' where "hptw_get_root ctx s = Some (OK pmo)" "hptw_walk ctx s va pmo es pmo'"
proof -
  obtain root where root: "hptw_get_root ctx s = Some root"
    using assms by (auto simp: hptw_get_effective_prots_def bind_eq_Some_conv)
  show ?thesis
  proof (cases root)
    case ERR
    then show ?thesis using assms root that(1) by (simp add: hptw_get_effective_prots_def)
  next
    case (OK pmo)
    then obtain q where "hptw_effective_prots_loop ctx s pmo va HPT_PROTS_RWX True = Some q"
      using assms root by (auto simp: hptw_get_effective_prots_def bind_eq_Some_conv)
    then show ?thesis using effective_loop_walk root OK that(2) by blast
  qed
qed

lemma checked_get_pmeo_iff_effective:
  assumes eff: "hptw_get_effective_prots ctx s va = Some (P, u)"
    and acc: "implies_present (ctx_t ctx) access"
  shows "if access AND P = access \<and> (cpl = HPTW_CPL0 \<or> u = Some True)
    then \<exists>e. hptw_checked_get_pmeo ctx s access cpl va = Some (OK e) \<and> hptw_get_pmeo ctx s 1 va = Some e
         \<and> hpt_pmeo_is_page e = Some True \<and> hpt_pmeo_is_present e = Some True
    else hptw_checked_get_pmeo ctx s access cpl va = Some ERR"
  using eff
proof (cases rule: effective_root_walk)
  have nz: "access \<noteq> 0" using acc by (auto simp: implies_present_def split: if_splits)
  case 1
  then show ?thesis using nz by (auto simp: hptw_checked_get_pmeo_def)
next
  have nz: "access \<noteq> 0" using acc by (auto simp: implies_present_def split: if_splits)
  case (2 pmo es pmo')
  note checked = checked_of_walk [OF 2] and Pu = effective_of_walk [OF 2]
  show ?thesis
  proof (cases "pmo_t pmo' = HPT_TYPE_INVALID")
    case True
    then show ?thesis using eff nz Pu checked by simp
  next
    case False
    have "access AND P = access \<and> (cpl = HPTW_CPL0 \<or> u = Some True) \<longleftrightarrow>
        (\<forall>e \<in> set es. entry_allows access cpl e)"
      using walk_rwx [OF 2(2), of access] Pu eff False
      by (auto simp: fold_and_subset fold_entry_allows)
    then show ?thesis
      using checked False leaf_of_walk [OF 2] allowed_leaf_present [OF 2 acc] hptw_walk_end [OF 2(2)] by simp
  qed
qed

lemma checked_OK_effective:
  assumes "hptw_checked_get_pmeo ctx s access cpl va = Some (OK e)" "hptw_get_effective_prots ctx s va = Some (P, u)"
  shows "access AND P = access \<and> (cpl = HPTW_CPL0 \<or> u = Some True)"
  using assms(2)
proof (cases rule: effective_root_walk)
  case 1
  then show ?thesis using assms(1) by (simp add: hptw_checked_get_pmeo_def)
next
  case (2 pmo es pmo')
  note checked = checked_of_walk [OF 2, of access cpl] and Pu = effective_of_walk [OF 2]
  have "pmo_t pmo' \<noteq> HPT_TYPE_INVALID" "\<forall>e \<in> set es. entry_allows access cpl e"
    using assms(1) checked by (auto split: if_splits)
  then show ?thesis using walk_rwx [OF 2(2), of access] Pu assms(2)
    by (auto simp: fold_and_subset fold_entry_allows)
qed

subsection \<open>The contract of the callbacks\<close>

definition within_page :: "u64 \<Rightarrow> u64 \<Rightarrow> bool" where
  "within_page pa sz \<longleftrightarrow> unat (take_bit 12 pa) + unat sz \<le> 4096"

text \<open>
  What a walk relies on: the translation callback always comes back, and for a range inside
  one 4 KiB frame it either refuses (a null pointer) or grants the whole range; for any range,
  it never grants more than what was asked, nor nothing.
\<close>

locale walk_env =
  fixes ctx :: "'x mach_scheme hptw_ctx"
  assumes ctx_type: "ctx_t ctx \<noteq> HPT_TYPE_INVALID"
    and pa2ptr_total: "\<exists>p a. pa2ptr ctx s pa sz prot cpl = Some (p, a)"
    and pa2ptr_grant: "pa2ptr ctx s pa sz prot cpl = Some (p, a) \<Longrightarrow> a \<le> sz \<and> (p \<noteq> 0 \<longrightarrow> 0 < sz \<longrightarrow> 0 < a)"
    and pa2ptr_page: "pa2ptr ctx s pa sz prot cpl = Some (p, a) \<Longrightarrow> p \<noteq> 0 \<or> a \<noteq> 0 \<Longrightarrow> within_page pa sz \<Longrightarrow> a = sz"

lemma get_address_aligned:
  assumes "hpt_pme_get_address t lvl e = Some a" "lvl_ok t lvl"
  shows "take_bit 12 a = 0"
proof -
  obtain pg where pg: "hpt_pme_is_page t lvl e = Some pg" using pme_accessors_total(3) [OF assms(2)] by blast
  show ?thesis
  proof (cases "t = HPT_TYPE_NORM \<and> lvl = 2 \<and> pg")
    case True
    then have "a = br_copy (br_copy 0 e 39 32 51) e 31 22 22"
      using assms pg by (simp add: hpt_pme_get_address_def field_eval)
    then show ?thesis by (intro bit_word_eqI) (auto simp: bit_field bit_simps)
  next
    case False
    then have "a = e AND addr_mask t lvl pg" using assms(1) pg hpt_pme_get_address_eq by simp
    then show ?thesis by (intro bit_word_eqI) (auto simp: bit_field bit_simps split: hpt_type.splits)
  qed
qed

lemma pm_size_le_page: "lvl_ok t lvl \<Longrightarrow> hpt_pm_size t lvl = Some sz \<Longrightarrow> unat sz \<le> 4096"
  by (auto simp: hpt_pm_size_eq pme_size_def pm_width_def split: if_splits)

lemma lvl_ok_pred: "lvl_ok t lvl \<Longrightarrow> 1 < lvl \<Longrightarrow> lvl_ok t (lvl - 1)"
  by (auto simp: lvl_ok_def split: option.splits)

lemma not_page_lvl: "hpt_pmeo_is_page e = Some False \<Longrightarrow> lvl_ok (pmeo_t e) (pmeo_lvl e) \<Longrightarrow> 1 < pmeo_lvl e"
  by (cases "pmeo_t e") (auto simp: hpt_pmeo_is_page_def hpt_pme_is_page_eq lvl_ok_def split: if_splits)

lemma lvl_ok_root: "hpt_type_max_lvl t = Some lvl \<Longrightarrow> lvl_ok t lvl"
  by (cases t) (auto simp: lvl_ok_def)

lemma unat_take_bit_mod: "unat (take_bit n (x :: u64)) = unat x mod 2 ^ n"
  unfolding unsigned_take_bit_eq take_bit_nat_def ..

lemma take_bit_add_word:
  fixes a b :: u64
  assumes "n \<le> 64"
  shows "take_bit n (a + b) = take_bit n (take_bit n a + take_bit n b)"
proof -
  have d: "(2 :: nat) ^ n dvd 2 ^ 64" using assms by (rule le_imp_power_dvd)
  have "unat (take_bit n (a + b)) = (unat a + unat b) mod 2 ^ n"
    unfolding unat_take_bit_mod unat_word_ariths using mod_mod_cancel [OF d] by simp
  moreover have "unat (take_bit n (take_bit n a + take_bit n b)) = (unat a mod 2 ^ n + unat b mod 2 ^ n) mod 2 ^ n"
    unfolding unat_take_bit_mod unat_word_ariths using mod_mod_cancel [OF d] by simp
  ultimately show ?thesis by (simp add: word_unat_eq_iff mod_add_eq)
qed

lemma within_page_remaining:
  fixes pa :: u64
  assumes "within_page pa sz" "12 \<le> k" "k < 64"
  shows "sz \<le> 2 ^ k - take_bit k pa"
proof -
  let ?x = "unat (take_bit k pa)"
  have "?x mod 4096 = unat (take_bit 12 pa)"
    using assms(2) unat_take_bit_mod [of 12 "take_bit k pa"] by (simp add: min_def)
  then have x: "?x = 4096 * (?x div 4096) + unat (take_bit 12 pa)" by (metis mult_div_mod_eq)
  have "(2 :: nat) ^ k = 4096 * 2 ^ (k - 12)"
    using assms(2) power_add [of "2 :: nat" 12 "k - 12"] by simp
  moreover have "?x < 2 ^ k" by (rule unat_take_bit_less)
  ultimately have "?x div 4096 < 2 ^ (k - 12)" by (metis less_mult_imp_div_less mult.commute)
  then have "4096 * (?x div 4096) + 4096 \<le> 2 ^ k"
    using \<open>(2 :: nat) ^ k = 4096 * 2 ^ (k - 12)\<close> by simp
  then have "unat sz \<le> 2 ^ k - ?x" using assms(1) x unfolding within_page_def by linarith
  then show ?thesis using unat_remaining [OF assms(3), of pa] by (simp add: word_le_nat_alt)
qed

lemma page_access:
  assumes "hpt_pmeo_is_page e = Some True"
  shows "\<exists>pa r. hpt_pmeo_va_to_pa e va = Some pa \<and> hpt_remaining_on_page e pa = Some r \<and> 0 < r
    \<and> (within_page va sz \<longrightarrow> within_page pa sz \<and> sz \<le> r)"
proof -
  let ?k = "pm_shift (pmeo_t e) (pmeo_lvl e)"
  have ok: "lvl_ok (pmeo_t e) (pmeo_lvl e)" and k: "?k < 31"
    using assms is_page_lvl_ok by (auto simp: hpt_pmeo_is_page_def)
  have k12: "12 \<le> ?k" by (simp add: pm_shift_def)
  obtain base where base: "hpt_pmeo_get_address e = Some base"
    using get_address_total [OF ok] by (auto simp: hpt_pmeo_get_address_def)
  have al: "take_bit 12 base = 0"
    using base get_address_aligned [OF _ ok] by (simp add: hpt_pmeo_get_address_def)
  let ?pa = "base + take_bit ?k va"
  have "take_bit 12 ?pa = take_bit 12 va"
    using k12 take_bit_add_word [of 12 base "take_bit ?k va"] al by (simp add: min_def)
  then have w: "within_page va sz \<Longrightarrow> within_page ?pa sz" by (simp add: within_page_def)
  have "0 < 2 ^ ?k - take_bit ?k ?pa"
    using unat_remaining [of ?k ?pa] unat_take_bit_less [of ?k ?pa] k by (simp add: word_less_nat_alt)
  then show ?thesis
    using hpt_pmeo_va_to_pa_eq [OF assms base] hpt_remaining_on_page_eq [OF ok k, of ?pa]
      within_page_remaining [OF _ k12, of ?pa sz] w k by auto
qed

context walk_env
begin

lemma next_lvl_total:
  assumes "lvl_ok (pmo_t pmo) (pmo_lvl pmo)" "pmo_pm pmo \<noteq> 0"
  shows "\<exists>d pmo'. hptw_next_lvl ctx s pmo va = Some (d, pmo')
    \<and> (d \<longrightarrow> lvl_ok (pmo_t pmo') (pmo_lvl pmo') \<and> pmo_pm pmo' \<noteq> 0)"
proof -
  obtain e where e: "hpt_pm_get_pmeo_by_va (mem s) pmo va = Some e" using get_pmeo_total assms(1) by blast
  note eok = get_pmeo_SomeD [OF e]
  then have ok: "lvl_ok (pmeo_t e) (pmeo_lvl e)" by simp
  obtain present pg where pp: "hpt_pmeo_is_present e = Some present" "hpt_pmeo_is_page e = Some pg"
    using accessors_total(3,4) [OF ok] by blast
  show ?thesis
  proof (cases "\<not> present \<or> pg")
    case True
    then show ?thesis using e pp assms(2) by (auto simp: hptw_next_lvl_def)
  next
    case False
    then have lvl: "lvl_ok (pmo_t pmo) (pmo_lvl pmo - 1)"
      using pp(2) not_page_lvl [OF _ ok] eok lvl_ok_pred by simp
    then obtain sz where sz: "hpt_pm_size (pmo_t pmo) (pmo_lvl pmo - 1) = Some sz" using hpt_pm_size_eq by blast
    obtain pa where pa: "hpt_pmeo_get_address e = Some pa"
      using get_address_total [OF ok] by (auto simp: hpt_pmeo_get_address_def)
    obtain p a where pa2: "pa2ptr ctx s pa sz HPT_PROTS_R HPTW_CPL0 = Some (p, a)"
      using pa2ptr_total by blast
    have "within_page pa sz"
      using pa ok get_address_aligned pm_size_le_page [OF lvl sz]
      by (simp add: within_page_def hpt_pmeo_get_address_def)
    then have "p \<noteq> 0 \<Longrightarrow> a = sz" using pa2ptr_page pa2 by blast
    then show ?thesis using e pp False sz pa pa2 assms(2) lvl by (auto simp: hptw_next_lvl_def)
  qed
qed

lemma walk_total:
  "lvl_ok (pmo_t pmo) (pmo_lvl pmo) \<Longrightarrow> pmo_pm pmo \<noteq> 0 \<Longrightarrow> \<exists>es pmo'. hptw_walk ctx s va pmo es pmo'"
proof (induction "pmo_lvl pmo" arbitrary: pmo rule: less_induct)
  case less
  obtain e where e: "hpt_pm_get_pmeo_by_va (mem s) pmo va = Some e" using get_pmeo_total less.prems(1) by blast
  obtain d pmo1 where n: "hptw_next_lvl ctx s pmo va = Some (d, pmo1)"
    and ok: "d \<Longrightarrow> lvl_ok (pmo_t pmo1) (pmo_lvl pmo1) \<and> pmo_pm pmo1 \<noteq> 0"
    using next_lvl_total less.prems by blast
  show ?case
  proof (cases d)
    case True
    then have n': "hptw_next_lvl ctx s pmo va = Some (True, pmo1)" using n by simp
    obtain es pmo' where "hptw_walk ctx s va pmo1 es pmo'"
      using less.hyps [OF hptw_next_lvl_True(1) [OF n']] ok True by blast
    then show ?thesis using hptw_walk.step [OF e n'] by blast
  next
    case False
    then have "hptw_next_lvl ctx s pmo va = Some (False, pmo1)" using n by simp
    then show ?thesis using hptw_walk.leaf [OF e] by blast
  qed
qed

lemma root_total: "\<exists>r. hptw_get_root ctx s = Some r
    \<and> (\<forall>pmo. r = OK pmo \<longrightarrow> lvl_ok (pmo_t pmo) (pmo_lvl pmo) \<and> pmo_pm pmo \<noteq> 0)"
proof -
  obtain lvl where lvl: "hpt_type_max_lvl (ctx_t ctx) = Some lvl" using ctx_type by (cases "ctx_t ctx") auto
  then obtain sz where "hpt_pm_size (ctx_t ctx) lvl = Some sz" using hpt_pm_size_eq lvl_ok_root by blast
  then show ?thesis
    using lvl pa2ptr_total [of s "root_pa ctx" sz HPT_PROTS_RW HPTW_CPL0] lvl_ok_root [OF lvl]
    by (auto simp: hptw_get_root_def)
qed

lemma effective_prots_total: "\<exists>r. hptw_get_effective_prots ctx s va = Some r"
proof -
  obtain r where r: "hptw_get_root ctx s = Some r"
    and ok: "\<And>pmo. r = OK pmo \<Longrightarrow> lvl_ok (pmo_t pmo) (pmo_lvl pmo) \<and> pmo_pm pmo \<noteq> 0"
    using root_total by blast
  show ?thesis
  proof (cases r)
    case ERR
    then show ?thesis using r by (simp add: hptw_get_effective_prots_def)
  next
    case (OK pmo)
    then obtain es pmo' where "hptw_walk ctx s va pmo es pmo'" using walk_total ok by blast
    then show ?thesis using effective_of_walk r OK by blast
  qed
qed

lemma checked_get_pmeo_total:
  obtains "hptw_checked_get_pmeo ctx s access cpl va = Some ERR"
  | e where "hptw_checked_get_pmeo ctx s access cpl va = Some (OK e)"
      "hptw_get_pmeo ctx s 1 va = Some e" "hpt_pmeo_is_page e = Some True" "hpt_pmeo_is_present e = Some True"
proof -
  obtain r where r: "hptw_get_root ctx s = Some r"
    and ok: "\<And>pmo. r = OK pmo \<Longrightarrow> lvl_ok (pmo_t pmo) (pmo_lvl pmo) \<and> pmo_pm pmo \<noteq> 0"
    using root_total by blast
  show ?thesis
  proof (cases r)
    case ERR
    then show ?thesis using r that(1) by (simp add: hptw_checked_get_pmeo_def)
  next
    case (OK pmo)
    then obtain es pmo' where w: "hptw_walk ctx s va pmo es pmo'" using walk_total ok by blast
    have root: "hptw_get_root ctx s = Some (OK pmo)" using r OK by simp
    show ?thesis
      using checked_of_walk [OF root w, of access cpl] leaf_of_walk [OF root w] hptw_walk_end [OF w] that
      by (auto split: if_splits)
  qed
qed

lemma checked_access_va_total:
  "\<exists>p a. hptw_checked_access_va ctx s access cpl va sz = Some (p, a)
    \<and> a \<le> sz \<and> (p \<noteq> 0 \<longrightarrow> 0 < sz \<longrightarrow> 0 < a) \<and> (p \<noteq> 0 \<or> a \<noteq> 0 \<longrightarrow> within_page va sz \<longrightarrow> a = sz)"
proof (rule checked_get_pmeo_total [of s access cpl va])
  assume "hptw_checked_get_pmeo ctx s access cpl va = Some ERR"
  then show ?thesis by (simp add: hptw_checked_access_va_def)
next
  fix e assume e: "hptw_checked_get_pmeo ctx s access cpl va = Some (OK e)" "hpt_pmeo_is_page e = Some True"
  obtain pa r where pa: "hpt_pmeo_va_to_pa e va = Some pa" "hpt_remaining_on_page e pa = Some r"
    and r: "0 < r" "within_page va sz \<longrightarrow> within_page pa sz \<and> sz \<le> r"
    using page_access [OF e(2), of va sz] by blast
  obtain p a where p: "pa2ptr ctx s pa (min sz r) access cpl = Some (p, a)" using pa2ptr_total by blast
  have "a \<le> min sz r \<and> (p \<noteq> 0 \<longrightarrow> 0 < min sz r \<longrightarrow> 0 < a)" using pa2ptr_grant [OF p] .
  moreover have "a = sz" if "p \<noteq> 0 \<or> a \<noteq> 0" "within_page va sz"
    using pa2ptr_page [OF p that(1)] r that(2) by (simp add: min_absorb1)
  ultimately show ?thesis using e pa p r by (auto simp: hptw_checked_access_va_def)
qed

end

subsection \<open>Two addresses of one page\<close>

lemma idx_same_page:
  assumes "lvl_ok t lvl" "k \<le> pm_shift t lvl" "drop_bit k va' = drop_bit k va"
  shows "hpt_get_pm_idx t lvl va' = hpt_get_pm_idx t lvl va"
proof -
  have "drop_bit (pm_shift t lvl) v = drop_bit (pm_shift t lvl - k) (drop_bit k v)" for v :: u64
    using assms(2) by (simp add: drop_bit_drop_bit)
  from this [of va'] this [of va] assms(3) have "drop_bit (pm_shift t lvl) va' = drop_bit (pm_shift t lvl) va"
    by simp
  then show ?thesis by (simp add: hpt_get_pm_idx_eq [OF assms(1)])
qed

lemma pmeo_same_page:
  assumes "k \<le> pm_shift (pmo_t pmo) (pmo_lvl pmo)" "drop_bit k va' = drop_bit k va"
  shows "hpt_pm_get_pmeo_by_va m pmo va' = hpt_pm_get_pmeo_by_va m pmo va"
proof (cases "lvl_ok (pmo_t pmo) (pmo_lvl pmo)")
  case True
  then show ?thesis
    using idx_same_page [OF _ assms] by (simp add: hpt_pm_get_pmeo_by_va_def hpt_pm_get_pme_by_va_def)
next
  case False
  then have "hpt_pm_get_pmeo_by_va m pmo v = None" for v
    using get_pmeo_SomeD(3) [of m pmo v] by (cases "hpt_pm_get_pmeo_by_va m pmo v") auto
  then show ?thesis by simp
qed

lemma next_lvl_same_page:
  assumes "k \<le> pm_shift (pmo_t pmo) (pmo_lvl pmo)" "drop_bit k va' = drop_bit k va"
  shows "hptw_next_lvl ctx s pmo va' = hptw_next_lvl ctx s pmo va"
  unfolding hptw_next_lvl_def pmeo_same_page [OF assms] ..

lemma pm_shift_mono: "l \<le> l' \<Longrightarrow> pm_shift t l \<le> pm_shift t l'"
  by (simp add: pm_shift_def)

lemma walk_same_page:
  "hptw_walk ctx s va pmo es pmo' \<Longrightarrow> pmo_t pmo' \<noteq> HPT_TYPE_INVALID \<Longrightarrow>
   drop_bit (pm_shift (pmo_t pmo') (pmo_lvl pmo')) va' = drop_bit (pm_shift (pmo_t pmo') (pmo_lvl pmo')) va \<Longrightarrow>
   hptw_walk ctx s va' pmo es pmo' \<and> pmo_lvl pmo' \<le> pmo_lvl pmo \<and> pmo_t pmo' = pmo_t pmo"
proof (induction rule: hptw_walk.induct)
  case (leaf pmo e pmo')
  have "pmo' = pmo" using hptw_next_lvl_False(1) leaf by blast
  then have k: "drop_bit (pm_shift (pmo_t pmo) (pmo_lvl pmo)) va' = drop_bit (pm_shift (pmo_t pmo) (pmo_lvl pmo)) va"
    using leaf.prems(2) by simp
  have "hptw_walk ctx s va' pmo [e] pmo'"
    using leaf.hyps next_lvl_same_page [OF order_refl k, of ctx s] pmeo_same_page [OF order_refl k]
    by (intro hptw_walk.leaf) auto
  then show ?case using \<open>pmo' = pmo\<close> by simp
next
  case (step pmo e pmo1 es pmo')
  note n = hptw_next_lvl_True [OF step.hyps(2)]
  have IH: "hptw_walk ctx s va' pmo1 es pmo'" "pmo_lvl pmo' \<le> pmo_lvl pmo1" "pmo_t pmo' = pmo_t pmo1"
    using step by auto
  then have k: "pm_shift (pmo_t pmo') (pmo_lvl pmo') \<le> pm_shift (pmo_t pmo) (pmo_lvl pmo)"
    using n pm_shift_mono by simp
  have "hptw_walk ctx s va' pmo (e # es) pmo'"
    using step.hyps(1,2) IH(1) next_lvl_same_page [OF k step.prems(2), of ctx s] pmeo_same_page [OF k step.prems(2)]
    by (intro hptw_walk.step [of s pmo va' e]) auto
  then show ?case using IH n by simp
qed


lemma checked_loop_walk:
  "hptw_checked_get_pmeo_loop ctx s access cpl va pmo = Some (OK r) \<Longrightarrow> \<exists>es. hptw_walk ctx s va pmo es (snd r)"
proof (induction ctx s access cpl va pmo rule: hptw_checked_get_pmeo_loop.induct)
  case (1 ctx s access cpl va pmo)
  note unfolded = "1.prems" [unfolded hptw_checked_get_pmeo_loop.simps [of ctx s access cpl va pmo]]
  obtain e where e: "hpt_pm_get_pmeo_by_va (mem s) pmo va = Some e"
    using unfolded by (cases "hpt_pm_get_pmeo_by_va (mem s) pmo va") auto
  note pu = walked_entry [OF e]
  have ok: "access AND entry_prot e = access \<and> (cpl = HPTW_CPL0 \<or> entry_user e)"
    using unfolded e pu by (simp split: if_splits)
  obtain d pm1 where n: "hptw_next_lvl ctx s pmo va = Some (d, pm1)"
    using unfolded e pu ok by (cases "hptw_next_lvl ctx s pmo va") (auto split: if_splits)
  show ?case
  proof (cases d)
    case True
    then have n': "hptw_next_lvl ctx s pmo va = Some (True, pm1)" using n by simp
    have "hptw_checked_get_pmeo_loop ctx s access cpl va pm1 = Some (OK r)"
      using unfolded e pu ok n' by (simp split: if_splits)
    then obtain es where "hptw_walk ctx s va pm1 es (snd r)" using "1.IH" [OF e pu _ n' refl] ok by auto
    then show ?thesis using hptw_walk.step [OF e n'] by blast
  next
    case False
    then have n': "hptw_next_lvl ctx s pmo va = Some (False, pm1)" using n by simp
    have "snd r = pm1" using unfolded e pu ok n' by (auto split: if_splits)
    then show ?thesis using hptw_walk.leaf [OF e n'] by blast
  qed
qed

lemma root_walk_of_checked:
  assumes "hptw_checked_get_pmeo ctx s access cpl va = Some (OK e)"
  obtains pmo es pmo' where "hptw_get_root ctx s = Some (OK pmo)" "hptw_walk ctx s va pmo es pmo'"
    "pmo_t pmo' \<noteq> HPT_TYPE_INVALID" "e = last es" "pmeo_t e = pmo_t pmo'" "pmeo_lvl e = pmo_lvl pmo'"
proof -
  obtain r where r: "hptw_get_root ctx s = Some r"
    using assms by (cases "hptw_get_root ctx s") (auto simp: hptw_checked_get_pmeo_def)
  then obtain pmo where pmo: "r = OK pmo"
    using assms by (cases r) (auto simp: hptw_checked_get_pmeo_def)
  obtain y where y: "hptw_checked_get_pmeo_loop ctx s access cpl va pmo = Some y"
    using assms r pmo by (cases "hptw_checked_get_pmeo_loop ctx s access cpl va pmo") (auto simp: hptw_checked_get_pmeo_def)
  then obtain q where q: "hptw_checked_get_pmeo_loop ctx s access cpl va pmo = Some (OK q)"
    using assms r pmo by (cases y) (auto simp: hptw_checked_get_pmeo_def)
  then obtain es where w: "hptw_walk ctx s va pmo es (snd q)" using checked_loop_walk by blast
  have root: "hptw_get_root ctx s = Some (OK pmo)" using r pmo by simp
  have e: "e = last es" "pmo_t (snd q) \<noteq> HPT_TYPE_INVALID"
    using checked_of_walk [OF root w, of access cpl] assms by (auto split: if_splits)
  show ?thesis using that [OF root w] e hptw_walk_end [OF w] get_pmeo_SomeD by blast
qed

lemma checked_same_page:
  assumes "hptw_checked_get_pmeo ctx s access cpl va = Some (OK e)"
    and "drop_bit (pm_shift (pmeo_t e) (pmeo_lvl e)) va' = drop_bit (pm_shift (pmeo_t e) (pmeo_lvl e)) va"
  shows "hptw_checked_get_pmeo ctx s access cpl va' = Some (OK e)"
proof (rule root_walk_of_checked [OF assms(1)])
  fix pmo es pmo' assume *: "hptw_get_root ctx s = Some (OK pmo)" "hptw_walk ctx s va pmo es pmo'"
    "pmo_t pmo' \<noteq> HPT_TYPE_INVALID" "pmeo_t e = pmo_t pmo'" "pmeo_lvl e = pmo_lvl pmo'"
  then have "hptw_walk ctx s va' pmo es pmo'" using walk_same_page [OF *(2,3)] assms(2) by simp
  then show ?thesis
    using checked_of_walk [OF *(1), of va' es pmo' access cpl] checked_of_walk [OF *(1,2), of access cpl] assms(1)
    by simp
qed

lemma page_offset_add:
  fixes va j :: u64
  assumes "unat (take_bit k va) + unat j < 2 ^ k" "k < 64"
  shows "drop_bit k (va + j) = drop_bit k va" "take_bit k (va + j) = take_bit k va + j"
proof -
  have split: "unat va = unat va div 2 ^ k * 2 ^ k + unat (take_bit k va)"
    unfolding unat_take_bit_mod by (rule div_mult_mod_eq [symmetric])
  have "unat va < 2 ^ k * 2 ^ (64 - k)" using unsigned_less [of va] assms(2) by (simp flip: power_add)
  then have "unat va div 2 ^ k < 2 ^ (64 - k)" by (simp add: less_mult_imp_div_less mult.commute)
  then have "(unat va div 2 ^ k + 1) * 2 ^ k \<le> 2 ^ (64 - k) * 2 ^ k" by (intro mult_le_mono1) simp
  then have "unat va div 2 ^ k * 2 ^ k + 2 ^ k \<le> 2 ^ 64" using assms(2) by (simp flip: power_add)
  then have sum: "unat (va + j) = unat va + unat j"
    using split assms(1) by (subst unat_add_lem [THEN iffD1]) simp_all
  have eq: "unat va + unat j = (unat (take_bit k va) + unat j) + unat va div 2 ^ k * 2 ^ k" using split by simp
  have d: "(unat va + unat j) div 2 ^ k = unat va div 2 ^ k"
    and m: "(unat va + unat j) mod 2 ^ k = unat (take_bit k va) + unat j"
    unfolding eq using assms(1) by simp_all
  have tb: "take_bit 64 (unat w) = unat w" for w :: u64
    using unsigned_less [of w] by (intro take_bit_nat_eq_self) simp
  show "drop_bit k (va + j) = drop_bit k va"
    using d tb [of va] tb [of "va + j"] by (simp add: word_unat_eq_iff unsigned_drop_bit_eq drop_bit_nat_def sum)
  have "unat (take_bit k va + j) = unat (take_bit k va) + unat j"
    using assms(1) power_strict_increasing [OF assms(2), of "2 :: nat"]
    by (subst unat_add_lem [THEN iffD1]) simp_all
  then show "take_bit k (va + j) = take_bit k va + j"
    by (simp add: word_unat_eq_iff unat_take_bit_mod sum m)
qed

end
