(* ===== verification/HptwCopy.thy ===== *)
theory HptwCopy
  imports Hptw
begin

unbundle bit_operations_syntax

text \<open>
  What the copy loops and the entry updates of \<^verbatim>\<open>hptw.c\<close> do to memory: that they come
  back, which bytes they write and with what, which bytes they leave alone, and which walks
  they do not disturb. The contracts are stated in locales over the translation callbacks of a
  context; the contexts of \<^verbatim>\<open>memp-x86vmx-guestmem.c\<close> interpret them.
\<close>

subsection \<open>Copies\<close>

definition leaves_aligned :: "'x mach_scheme hptw_ctx \<Rightarrow> 'x mach_scheme \<Rightarrow> bool" where
  "leaves_aligned ctx s \<longleftrightarrow> (\<forall>access cpl va e.
     hptw_checked_get_pmeo ctx s access cpl va = Some (OK e) \<longrightarrow> leaf_aligned e)"

definition xlate :: "'x mach_scheme hptw_ctx \<Rightarrow> 'x mach_scheme \<Rightarrow> hpt_prot \<Rightarrow> hptw_cpl \<Rightarrow> hpt_va \<Rightarrow> u64" where
  "xlate ctx s access cpl va = (case hptw_checked_access_va ctx s access cpl va 1 of
     None \<Rightarrow> 0 | Some (p, a) \<Rightarrow> p)"

text \<open>
  One byte is granted when the access function returns a pointer to it, with one byte available. The code takes the null pointer
  for a refusal, so a byte at system address 0 is not granted either.
\<close>

definition byte_granted :: "'x mach_scheme hptw_ctx \<Rightarrow> 'x mach_scheme \<Rightarrow> hpt_prot \<Rightarrow> hptw_cpl \<Rightarrow> hpt_va \<Rightarrow> bool" where
  "byte_granted ctx s access cpl va \<longleftrightarrow> (\<exists>x. x \<noteq> 0 \<and> hptw_checked_access_va ctx s access cpl va 1 = Some (x, 1))"

lemma chunk_arith:
  fixes copied a len :: u64
  assumes "copied \<le> len" "a \<le> len - copied"
  shows "copied + a \<le> len"
    and "i < copied + a \<Longrightarrow> \<not> i < copied \<Longrightarrow> i - copied < a"
    and "i < copied \<Longrightarrow> \<not> i - copied < a"
    and "len \<le> x \<Longrightarrow> \<not> x - copied < a"
    and "0 < a \<Longrightarrow> len - (copied + a) < len - copied"
  using assms by uint_arith+

text \<open>
  A context whose callback translates consecutive bytes of a granted range to consecutive
  addresses, in the states where \<open>lin\<close> holds.
\<close>

locale linear_env = walk_env +
  fixes lin :: "'a mach_scheme \<Rightarrow> bool"
  assumes pa2ptr_linear: "lin s \<Longrightarrow> pa2ptr ctx s pa sz prot cpl = Some (p, a) \<Longrightarrow> j < a \<Longrightarrow>
    pa2ptr ctx s (pa + j) 1 prot cpl = Some (p + j, 1)"
    and pa2ptr_size: "pa2ptr ctx s pa sz prot cpl = Some (p, a) \<Longrightarrow> \<exists>a'. pa2ptr ctx s pa sz' prot cpl = Some (p, a')"
    and pa2ptr_nonzero: "lin s \<Longrightarrow> pa2ptr ctx s pa sz prot cpl = Some (p, a) \<Longrightarrow> p \<noteq> 0 \<Longrightarrow> j < a \<Longrightarrow> p + j = 0 \<Longrightarrow> pa + j = 0"
begin

lemma access_size:
  assumes "hptw_checked_access_va ctx s access cpl va sz = Some (p, a)"
  shows "\<exists>a'. hptw_checked_access_va ctx s access cpl va sz' = Some (p, a')"
proof (rule checked_get_pmeo_total [of s access cpl va])
  assume "hptw_checked_get_pmeo ctx s access cpl va = Some ERR"
  then show ?thesis using assms by (simp add: hptw_checked_access_va_def)
next
  fix e assume e: "hptw_checked_get_pmeo ctx s access cpl va = Some (OK e)" "hpt_pmeo_is_page e = Some True"
  obtain pa r where pa: "hpt_pmeo_va_to_pa e va = Some pa" "hpt_remaining_on_page e pa = Some r"
    using page_access [OF e(2)] by blast
  have "pa2ptr ctx s pa (min sz r) access cpl = Some (p, a)"
    using assms e pa by (simp add: hptw_checked_access_va_def)
  then show ?thesis using pa2ptr_size e pa by (simp add: hptw_checked_access_va_def)
qed

lemma access_linear:
  assumes acc: "hptw_checked_access_va ctx s access cpl va sz = Some (p, a)" and j: "j < a"
    and al: "leaves_aligned ctx s" and lin: "lin s"
  shows "hptw_checked_access_va ctx s access cpl (va + j) 1 = Some (p + j, 1) \<and> (p \<noteq> 0 \<longrightarrow> p + j \<noteq> 0)"
proof (rule checked_get_pmeo_total [of s access cpl va])
  assume "hptw_checked_get_pmeo ctx s access cpl va = Some ERR"
  then show ?thesis using acc j by (simp add: hptw_checked_access_va_def)
next
  fix e assume e: "hptw_checked_get_pmeo ctx s access cpl va = Some (OK e)" "hpt_pmeo_is_page e = Some True"
  let ?k = "pm_shift (pmeo_t e) (pmeo_lvl e)"
  have k: "?k < 31" using e(2) is_page_lvl_ok(2) by (simp add: hpt_pmeo_is_page_def)
  obtain base where base: "hpt_pmeo_get_address e = Some base"
    using get_address_total [OF is_page_lvl_ok(1) [OF e(2) [unfolded hpt_pmeo_is_page_def]]]
    by (auto simp: hpt_pmeo_get_address_def)
  obtain pa r where pa: "hpt_pmeo_va_to_pa e va = Some pa" "hpt_remaining_on_page e pa = Some r"
    using page_access [OF e(2)] by blast
  have p2: "pa2ptr ctx s pa (min sz r) access cpl = Some (p, a)"
    using acc e pa by (simp add: hptw_checked_access_va_def)
  have "j < r" using pa2ptr_grant [OF p2] j by (auto simp: min_def split: if_splits)
  then have off: "unat (take_bit ?k va) + unat j < 2 ^ ?k"
    using remaining_on_page [OF e(2) _ pa] al e(1) unfolding leaves_aligned_def
    by (auto simp: word_less_nat_alt)
  note same = page_offset_add [OF off]
  have e': "hptw_checked_get_pmeo ctx s access cpl (va + j) = Some (OK e)"
    using checked_same_page [OF e(1), of "va + j"] same k by simp
  have pa': "hpt_pmeo_va_to_pa e (va + j) = Some (pa + j)"
    using pa(1) same k hpt_pmeo_va_to_pa_eq [OF e(2) base] by simp
  obtain r' where "hpt_remaining_on_page e (pa + j) = Some r'" "0 < r'"
    using page_access [OF e(2), of "va + j" 1] pa' by auto
  then have "min 1 r' = 1" by (simp add: min_def word_less_nat_alt word_le_nat_alt Suc_le_eq)
  then have "hptw_checked_access_va ctx s access cpl (va + j) 1 = Some (p + j, 1)"
    using e' pa' \<open>hpt_remaining_on_page e (pa + j) = Some r'\<close> pa2ptr_linear [OF lin p2 j] by (simp add: hptw_checked_access_va_def)
  moreover have "p + j \<noteq> 0" if "p \<noteq> 0"
  proof
    assume z: "p + j = 0"
    have "take_bit ?k base = 0" using al e(1) base unfolding leaves_aligned_def leaf_aligned_def by fastforce
    moreover have "pa + j = base + take_bit ?k (va + j)" using pa' hpt_pmeo_va_to_pa_eq [OF e(2) base] by simp
    ultimately have "take_bit ?k (pa + j) = take_bit ?k (va + j)" by (simp only: take_bit_add_aligned)
    then have "take_bit ?k va + j = 0" using pa2ptr_nonzero [OF lin p2 that j z] same k by simp
    moreover have "unat (take_bit ?k va + j) = unat (take_bit ?k va) + unat j"
      using off power_increasing [of ?k 63 "2 :: nat"] k by (subst unat_add_lem [THEN iffD1]) auto
    ultimately have "j = 0" by (simp add: word_unat_eq_iff)
    then show False using z that by simp
  qed
  ultimately show ?thesis by blast
qed

lemma byte_granted_iff: "byte_granted ctx s access cpl va \<longleftrightarrow> xlate ctx s access cpl va \<noteq> 0"
proof -
  obtain p a where pa: "hptw_checked_access_va ctx s access cpl va 1 = Some (p, a)" and g: "a \<le> 1" "p \<noteq> 0 \<Longrightarrow> 0 < a"
    using checked_access_va_total [of s access cpl va 1] by auto
  have "a = 1" if "p \<noteq> 0" using g(1) g(2) [OF that] by (simp add: word_le_nat_alt word_less_nat_alt word_unat_eq_iff)
  then show ?thesis using pa by (auto simp: byte_granted_def xlate_def)
qed

lemma copy_chunk:
  fixes dst len src :: u64
  assumes pa: "hptw_checked_access_va ctx s0 access cpl (src + copied) (len - copied) = Some (p, a)"
    and le: "copied \<le> len" "a \<le> len - copied" and al: "leaves_aligned ctx s0" and lin: "lin s0"
    and disj: "\<And>i. i < len \<Longrightarrow> len \<le> xlate ctx s0 access cpl (src + i) - dst"
    and frame: "\<And>a. len \<le> a - dst \<Longrightarrow> m a = mem s0 a"
    and sofar: "\<And>i. i < copied \<Longrightarrow> m (dst + i) = mem s0 (xlate ctx s0 access cpl (src + i))"
  shows "len \<le> b - dst \<Longrightarrow> memcpy m (dst + copied) p a b = mem s0 b"
    and "i < copied + a \<Longrightarrow> memcpy m (dst + copied) p a (dst + i) = mem s0 (xlate ctx s0 access cpl (src + i))"
proof -
  let ?m = "memcpy m (dst + copied) p a"
  have m_old: "?m b = m b" if "\<not> b - dst - copied < a" for b
    using that by (simp add: memcpy_def diff_diff_eq)
  show "len \<le> b - dst \<Longrightarrow> ?m b = mem s0 b"
    using m_old chunk_arith(4) [OF le] frame by simp
  assume i: "i < copied + a"
  show "?m (dst + i) = mem s0 (xlate ctx s0 access cpl (src + i))"
  proof (cases "i < copied")
    case True
    then show ?thesis using m_old [of "dst + i"] chunk_arith(3) [OF le] sofar by simp
  next
    case False
    note j = chunk_arith(2) [OF le i False]
    have x: "xlate ctx s0 access cpl (src + i) = p + (i - copied)"
      using access_linear [OF pa j al lin] by (simp add: xlate_def)
    have "?m (dst + i) = m (p + (i - copied))" using j by (simp add: memcpy_def algebra_simps)
    also have "\<dots> = mem s0 (p + (i - copied))"
      using frame disj [of i] chunk_arith(1) [OF le] i x by auto
    finally show ?thesis using x by simp
  qed
qed

lemma chunk_nonzero:
  fixes len va :: u64
  assumes "hptw_checked_access_va ctx s0 access cpl (va + copied) (len - copied) = Some (p, a)" "p \<noteq> 0"
    and le: "copied \<le> len" "a \<le> len - copied" and "leaves_aligned ctx s0" "lin s0"
    and nz: "\<And>i. i < copied \<Longrightarrow> xlate ctx s0 access cpl (va + i) \<noteq> 0"
  shows "i < copied + a \<Longrightarrow> xlate ctx s0 access cpl (va + i) \<noteq> 0"
proof (cases "i < copied")
  case False
  assume i: "i < copied + a"
  show ?thesis using access_linear [OF assms(1) chunk_arith(2) [OF le i False] assms(5,6)] assms(2) by (auto simp: xlate_def)
qed (rule nz)

lemma copy_from_va_loop:
  fixes dst len src :: u64
  assumes stable: "\<And>m va sz. (\<And>a. len \<le> a - dst \<Longrightarrow> m a = mem s0 a) \<Longrightarrow>
      hptw_checked_access_va ctx (s0\<lparr>mem := m\<rparr>) HPT_PROTS_R cpl va sz
      = hptw_checked_access_va ctx s0 HPT_PROTS_R cpl va sz"
    and al: "leaves_aligned ctx s0" and lin: "lin s0"
    and disj: "\<And>i. i < len \<Longrightarrow> len \<le> xlate ctx s0 HPT_PROTS_R cpl (src + i) - dst"
    and frame: "\<And>a. len \<le> a - dst \<Longrightarrow> m a = mem s0 a"
    and sofar: "\<And>i. i < copied \<Longrightarrow> m (dst + i) = mem s0 (xlate ctx s0 HPT_PROTS_R cpl (src + i))"
    and le: "copied \<le> len" and nz: "\<And>i. i < copied \<Longrightarrow> xlate ctx s0 HPT_PROTS_R cpl (src + i) \<noteq> 0"
  shows "\<exists>r m'. hptw_copy_from_va_loop ctx (s0\<lparr>mem := m\<rparr>) cpl dst src len copied = Some (r, s0\<lparr>mem := m'\<rparr>)
    \<and> (\<forall>a. len \<le> a - dst \<longrightarrow> m' a = mem s0 a)
    \<and> (r = OK () \<longrightarrow> (\<forall>i < len. m' (dst + i) = mem s0 (xlate ctx s0 HPT_PROTS_R cpl (src + i))))
    \<and> (r = OK () \<longleftrightarrow> (\<forall>i < len. xlate ctx s0 HPT_PROTS_R cpl (src + i) \<noteq> 0))"
  using frame sofar le nz
proof (induction "unat (len - copied)" arbitrary: m copied rule: less_induct)
  case less
  note unfolded = hptw_copy_from_va_loop.simps [of ctx "s0\<lparr>mem := m\<rparr>" cpl dst src len copied]
  show ?case
  proof (cases "copied < len")
    case False
    then have "copied = len" using less.prems(3) by simp
    then show ?thesis using less.prems unfolding unfolded by auto
  next
    case True
    obtain p a where pa: "hptw_checked_access_va ctx s0 HPT_PROTS_R cpl (src + copied) (len - copied) = Some (p, a)"
      and g: "a \<le> len - copied" "p \<noteq> 0 \<Longrightarrow> 0 < len - copied \<Longrightarrow> 0 < a"
      using checked_access_va_total [of s0 HPT_PROTS_R cpl "src + copied" "len - copied"] by auto
    have acc: "hptw_checked_access_va ctx (s0\<lparr>mem := m\<rparr>) HPT_PROTS_R cpl (src + copied) (len - copied) = Some (p, a)"
      using stable [OF less.prems(1)] pa by simp
    show ?thesis
    proof (cases "p = 0")
      case True
      then have "xlate ctx s0 HPT_PROTS_R cpl (src + copied) = 0"
        using access_size [OF pa, of 1] by (auto simp: xlate_def)
      then show ?thesis using acc True \<open>copied < len\<close> less.prems(1) unfolding unfolded by auto
    next
      case False
      then have a: "a \<le> len - copied" "0 < a" using g \<open>copied < len\<close> by (auto simp: word_gt_0)
      have "hptw_copy_from_va_loop ctx (s0\<lparr>mem := m\<rparr>) cpl dst src len copied =
          hptw_copy_from_va_loop ctx (s0\<lparr>mem := memcpy m (dst + copied) p a\<rparr>) cpl dst src len (copied + a)"
        using acc \<open>copied < len\<close> False unfolding unfolded by simp
      moreover have "unat (len - (copied + a)) < unat (len - copied)"
        using chunk_arith(5) [OF less.prems(3) a] by (simp add: word_less_nat_alt)
      ultimately show ?thesis
        using less.hyps [OF _ copy_chunk [OF pa less.prems(3) a(1) al lin disj less.prems(1,2)] _ chunk_nonzero [OF pa False less.prems(3) a(1) al lin less.prems(4)]]
          chunk_arith(1) [OF less.prems(3) a(1)] by simp
    qed
  qed
qed

end

text \<open>The four copy loops come back, whatever the tables hold.\<close>

context walk_env
begin

lemma access_step:
  assumes "copied < len"
  obtains p a where "hptw_checked_access_va ctx s access cpl va (len - copied) = Some (p, a)" "p = 0"
  | p a where "hptw_checked_access_va ctx s access cpl va (len - copied) = Some (p, a)" "p \<noteq> 0"
      "copied + a \<le> len" "unat (len - (copied + a)) < unat (len - copied)"
proof -
  obtain p a where pa: "hptw_checked_access_va ctx s access cpl va (len - copied) = Some (p, a)"
    and g: "a \<le> len - copied" "p \<noteq> 0 \<Longrightarrow> 0 < len - copied \<Longrightarrow> 0 < a"
    using checked_access_va_total [of s access cpl va "len - copied"] by auto
  show ?thesis
  proof (cases "p = 0")
    case False
    then have a: "a \<le> len - copied" "0 < a" using g assms by (auto simp: word_gt_0)
    show ?thesis using that(2) [OF pa False] chunk_arith(1,5) [OF less_imp_le [OF assms] a(1)] a(2)
      by (simp add: word_less_nat_alt)
  qed (use pa that(1) in blast)
qed

lemma copy_from_va_total:
  "\<exists>r m'. hptw_copy_from_va_loop ctx s cpl dst src len copied = Some (r, s\<lparr>mem := m'\<rparr>)"
proof (induction "unat (len - copied)" arbitrary: s copied rule: less_induct)
  case less
  show ?case
  proof (cases "copied < len")
    case True
    then show ?thesis
    proof (rule access_step [of copied len s HPT_PROTS_R cpl "src + copied"])
      fix p a assume p: "hptw_checked_access_va ctx s HPT_PROTS_R cpl (src + copied) (len - copied) = Some (p, a)"
        "p \<noteq> 0" and lt: "unat (len - (copied + a)) < unat (len - copied)"
      show ?thesis using less.hyps [OF lt, of "s\<lparr>mem := memcpy (mem s) (dst + copied) p a\<rparr>"] p True
        by (subst hptw_copy_from_va_loop.simps) simp
    qed (subst hptw_copy_from_va_loop.simps, auto intro: exI [of _ "mem s"])
  qed (subst hptw_copy_from_va_loop.simps, auto intro: exI [of _ "mem s"])
qed

lemma copy_to_va_total:
  "\<exists>r m'. hptw_copy_to_va_loop ctx s cpl dst src len copied = Some (r, s\<lparr>mem := m'\<rparr>)"
proof (induction "unat (len - copied)" arbitrary: s copied rule: less_induct)
  case less
  show ?case
  proof (cases "copied < len")
    case True
    then show ?thesis
    proof (rule access_step [of copied len s HPT_PROTS_W cpl "dst + copied"])
      fix p a assume p: "hptw_checked_access_va ctx s HPT_PROTS_W cpl (dst + copied) (len - copied) = Some (p, a)"
        "p \<noteq> 0" and lt: "unat (len - (copied + a)) < unat (len - copied)"
      show ?thesis using less.hyps [OF lt, of "s\<lparr>mem := memcpy (mem s) p (src + copied) a\<rparr>"] p True
        by (subst hptw_copy_to_va_loop.simps) simp
    qed (subst hptw_copy_to_va_loop.simps, auto intro: exI [of _ "mem s"])
  qed (subst hptw_copy_to_va_loop.simps, auto intro: exI [of _ "mem s"])
qed

lemma memset_va_total:
  "\<exists>r m'. hptw_memset_va_loop ctx s cpl dst c len n = Some (r, s\<lparr>mem := m'\<rparr>)"
proof (induction "unat (len - n)" arbitrary: s n rule: less_induct)
  case less
  show ?case
  proof (cases "n < len")
    case True
    then show ?thesis
    proof (rule access_step [of n len s HPT_PROTS_W cpl "dst + n"])
      fix p a assume p: "hptw_checked_access_va ctx s HPT_PROTS_W cpl (dst + n) (len - n) = Some (p, a)"
        "p \<noteq> 0" and lt: "unat (len - (n + a)) < unat (len - n)"
      show ?thesis using less.hyps [OF lt, of "s\<lparr>mem := memset (mem s) p c a\<rparr>"] p True
        by (subst hptw_memset_va_loop.simps) simp
    qed (subst hptw_memset_va_loop.simps, auto intro: exI [of _ "mem s"])
  qed (subst hptw_memset_va_loop.simps, auto intro: exI [of _ "mem s"])
qed

end

locale walk_env2 = d: walk_env dst_ctx + r: walk_env src_ctx
  for dst_ctx :: "'x mach_scheme hptw_ctx" and src_ctx :: "'x mach_scheme hptw_ctx"
begin

lemma copy_va_to_va_total:
  "\<exists>r m'. hptw_copy_va_to_va_loop dst_ctx s dcpl dst src_ctx scpl src len copied = Some (r, s\<lparr>mem := m'\<rparr>)"
proof (induction "unat (len - copied)" arbitrary: s copied rule: less_induct)
  case less
  note unfolded = hptw_copy_va_to_va_loop.simps [of dst_ctx s dcpl dst src_ctx scpl src len copied]
  show ?case
  proof (cases "copied < len")
    case True
    then show ?thesis
    proof (rule d.access_step [of copied len s HPT_PROTS_W dcpl "dst + copied"])
      fix p a assume p: "hptw_checked_access_va dst_ctx s HPT_PROTS_W dcpl (dst + copied) (len - copied) = Some (p, a)"
        "p \<noteq> 0" and le: "copied + a \<le> len" and lt: "unat (len - (copied + a)) < unat (len - copied)"
      have a: "a \<le> len - copied" "0 < a"
        using le lt True d.checked_access_va_total [of s HPT_PROTS_W dcpl "dst + copied" "len - copied"] p
        by (auto simp: word_gt_0)
      obtain q b where q: "hptw_checked_access_va src_ctx s HPT_PROTS_R scpl (src + copied) a = Some (q, b)"
        and g: "q \<noteq> 0 \<Longrightarrow> b \<le> a \<and> (0 < a \<longrightarrow> 0 < b)"
        using r.checked_access_va_total [of s HPT_PROTS_R scpl "src + copied" a] by auto
      show ?thesis
      proof (cases "q = 0")
        case True
        then show ?thesis using p q \<open>copied < len\<close> unfolding unfolded by (auto intro: exI [of _ "mem s"])
      next
        case False
        then have b: "b \<le> len - copied" "0 < b" using g a by (auto intro: order_trans)
        have "unat (len - (copied + b)) < unat (len - copied)"
          using chunk_arith(5) [OF less_imp_le [OF \<open>copied < len\<close>] b] by (simp add: word_less_nat_alt)
        from less.hyps [OF this, of "s\<lparr>mem := memcpy (mem s) p q b\<rparr>"] show ?thesis
          using p q False \<open>copied < len\<close> unfolding unfolded by simp
      qed
    qed (subst hptw_copy_va_to_va_loop.simps, auto intro: exI [of _ "mem s"])
  qed (subst hptw_copy_va_to_va_loop.simps, auto intro: exI [of _ "mem s"])
qed

end

subsection \<open>Inserting an entry\<close>

text \<open>\<open>descends ctx s va pmo ps pmo'\<close>: from \<open>pmo\<close> the walk goes down through the page maps \<open>ps\<close> to \<open>pmo'\<close>.\<close>

inductive descends ::
  "'x mach_scheme hptw_ctx \<Rightarrow> 'x mach_scheme \<Rightarrow> hpt_va \<Rightarrow> hpt_pmo \<Rightarrow> hpt_pmo list \<Rightarrow> hpt_pmo \<Rightarrow> bool"
  for ctx s va where
  here: "descends ctx s va pmo [] pmo"
| down: "hptw_next_lvl ctx s pmo va = Some (True, pmo1) \<Longrightarrow> descends ctx s va pmo1 ps pmo'
    \<Longrightarrow> descends ctx s va pmo (pmo # ps) pmo'"

definition pm_region :: "hpt_pmo \<Rightarrow> u64 set" where
  "pm_region pmo = {a. a - pmo_pm pmo < of_nat (pme_size (pmo_t pmo) * 2 ^ pm_width (pmo_t pmo) (pmo_lvl pmo))}"

lemma get_pmo_loop_descends:
  "hptw_get_pmo_loop ctx s pmo l va = Some pmo' \<Longrightarrow> pmo_lvl pmo' = l \<Longrightarrow> pmo_pm pmo' \<noteq> 0 \<Longrightarrow>
   \<exists>ps. descends ctx s va pmo ps pmo'"
proof (induction ctx s pmo l va rule: hptw_get_pmo_loop.induct)
  case (1 ctx s pmo l va)
  note unfolded = "1.prems"(1) [unfolded hptw_get_pmo_loop.simps [of ctx s pmo l va]]
  show ?case
  proof (cases "l < pmo_lvl pmo")
    case False
    then show ?thesis using unfolded descends.here [of ctx s va pmo] by auto
  next
    case True
    obtain d pmo1 where n: "hptw_next_lvl ctx s pmo va = Some (d, pmo1)"
      using unfolded True by (cases "hptw_next_lvl ctx s pmo va") auto
    show ?thesis
    proof (cases d)
      case d: True
      then have n': "hptw_next_lvl ctx s pmo va = Some (True, pmo1)" using n by simp
      then obtain ps where "descends ctx s va pmo1 ps pmo'"
        using "1.IH" [OF True n' refl] unfolded True "1.prems" hptw_next_lvl_True(3) [OF n'] by auto
      then show ?thesis using descends.down [OF n'] by blast
    next
      case False
      then have "hptw_next_lvl ctx s pmo va = Some (False, pmo')" using unfolded True n by simp
      then have "pmo' = pmo \<or> pmo_pm pmo' = 0" by (auto simp: hptw_next_lvl_def bind_eq_Some_conv split: if_splits)
      then show ?thesis using "1.prems" True by auto
    qed
  qed
qed

lemma descends_get_pmo_loop:
  "descends ctx s va pmo ps pmo' \<Longrightarrow> hptw_get_pmo_loop ctx s pmo (pmo_lvl pmo') va = Some pmo' \<and> pmo_lvl pmo' \<le> pmo_lvl pmo"
proof (induction rule: descends.induct)
  case (here pmo)
  then show ?case by (subst hptw_get_pmo_loop.simps) simp
next
  case (down pmo pmo1 ps pmo')
  then show ?case using hptw_next_lvl_True(3) [OF down.hyps(1)]
    by (subst hptw_get_pmo_loop.simps) simp
qed

lemma next_lvl_cong:
  assumes "hpt_pm_get_pmeo_by_va (mem s') pmo va = hpt_pm_get_pmeo_by_va (mem s) pmo va" "pa2ptr ctx s' = pa2ptr ctx s"
  shows "hptw_next_lvl ctx s' pmo va = hptw_next_lvl ctx s pmo va"
  unfolding hptw_next_lvl_def assms ..

lemma slot_in_region:
  assumes "hpt_get_pm_idx (pmo_t q) (pmo_lvl q) va = Some i" "b < pme_size (pmo_t q)"
  shows "pmo_pm q + of_nat (pme_size (pmo_t q) * unat i) + of_nat b \<in> pm_region q"
proof -
  let ?n = "pme_size (pmo_t q) * unat i + b" and ?sz = "pme_size (pmo_t q) * 2 ^ pm_width (pmo_t q) (pmo_lvl q)"
  have "?n < ?sz" using pm_entry_unat(2) [OF assms(1)] assms(2) by linarith
  moreover have "?sz \<le> 4096" by (simp add: pme_size_def pm_width_def)
  ultimately have "(of_nat ?n :: u64) < of_nat ?sz"
    by (simp add: word_less_nat_alt unat_of_nat_64 del: of_nat_add of_nat_mult)
  then show ?thesis by (simp add: pm_region_def)
qed

lemma set_pme_other_map:
  assumes "hpt_pmo_set_pme_by_va m p e va = Some m'" "pm_region q \<inter> pm_region p = {}"
  shows "hpt_pm_get_pmeo_by_va m' q va' = hpt_pm_get_pmeo_by_va m q va'"
proof (cases "hpt_get_pm_idx (pmo_t q) (pmo_lvl q) va'")
  case (Some i)
  obtain j where "hpt_get_pm_idx (pmo_t p) (pmo_lvl p) va = Some j"
    using assms(1) unfolding hpt_pmo_set_pme_by_va_def by (rule hpt_pm_set_pme_by_va_SomeD)
  then have sz: "hpt_pm_size (pmo_t p) (pmo_lvl p) = Some (of_nat (pme_size (pmo_t p) * 2 ^ pm_width (pmo_t p) (pmo_lvl p)))"
    by (intro hpt_pm_size_eq hpt_get_pm_idx_SomeD)
  let ?a = "pmo_pm q + of_nat (pme_size (pmo_t q) * unat i)"
  have "m' (?a + of_nat b) = m (?a + of_nat b)" if "b < pme_size (pmo_t q)" for b
  proof -
    have "?a + of_nat b \<in> pm_region q" using that by (rule slot_in_region [OF Some])
    then have "?a + of_nat b \<notin> pm_region p" using assms(2) by blast
    then show ?thesis
      using set_pme_frame [OF assms(1) [unfolded hpt_pmo_set_pme_by_va_def] sz] by (simp add: pm_region_def)
  qed
  then have "load_le m' ?a (pme_size (pmo_t q)) = load_le m ?a (pme_size (pmo_t q))" by (rule load_le_cong)
  then show ?thesis by (simp add: hpt_pm_get_pmeo_by_va_def hpt_pm_get_pme_by_va_eq [OF Some])
qed (simp add: hpt_pm_get_pmeo_by_va_def hpt_pm_get_pme_by_va_def)

lemma descends_frame:
  assumes "descends ctx s va pmo ps p" "\<And>q. q \<in> set ps \<Longrightarrow> pm_region q \<inter> pm_region p = {}"
    and "hpt_pmo_set_pme_by_va (mem s) p e va = Some m'" "pa2ptr ctx (s\<lparr>mem := m'\<rparr>) = pa2ptr ctx s"
  shows "descends ctx (s\<lparr>mem := m'\<rparr>) va pmo ps p"
  using assms
proof (induction rule: descends.induct)
  case (here pmo)
  show ?case by (rule descends.here)
next
  case (down pmo pmo1 ps p)
  have "hptw_next_lvl ctx (s\<lparr>mem := m'\<rparr>) pmo va = Some (True, pmo1)"
    using down.hyps(1) next_lvl_cong [of "s\<lparr>mem := m'\<rparr>" pmo va s ctx] set_pme_other_map [OF down.prems(2), of pmo va]
      down.prems by simp
  then show ?case using down by (intro descends.down) auto
qed

lemma get_root_cong: "pa2ptr ctx s' = pa2ptr ctx s \<Longrightarrow> hptw_get_root ctx s' = hptw_get_root ctx s"
  by (simp add: hptw_get_root_def)

lemma store_get_pmeo:
  assumes root: "hptw_get_root ctx s = Some (OK root)" and get: "hptw_get_pmo ctx s l va = Some p"
    and lvl: "pmo_lvl p = l" "pmo_pm p \<noteq> 0"
    and sep: "\<And>ps q. descends ctx s va root ps p \<Longrightarrow> q \<in> set ps \<Longrightarrow> pm_region q \<inter> pm_region p = {}"
    and set: "hpt_pmo_set_pme_by_va (mem s) p e va = Some m'" and pa: "pa2ptr ctx (s\<lparr>mem := m'\<rparr>) = pa2ptr ctx s"
    and e: "pmeo_t e = pmo_t p" "pmeo_lvl e = l" "take_bit (8 * pme_size (pmo_t p)) (pmeo_pme e) = pmeo_pme e"
  shows "hptw_get_pmeo ctx (s\<lparr>mem := m'\<rparr>) l va = Some e"
proof -
  have "hptw_get_pmo_loop ctx s root l va = Some p" using root get by (simp add: hptw_get_pmo_def)
  then obtain ps where d: "descends ctx s va root ps p" using get_pmo_loop_descends lvl by blast
  have "descends ctx (s\<lparr>mem := m'\<rparr>) va root ps p" by (rule descends_frame [OF d sep [OF d] set pa])
  then have "hptw_get_pmo ctx (s\<lparr>mem := m'\<rparr>) l va = Some p"
    using descends_get_pmo_loop root get_root_cong [OF pa] lvl by (fastforce simp: hptw_get_pmo_def)
  moreover have "hpt_pm_get_pmeo_by_va m' p va = Some e"
    using get_pme_set_pme_same [OF set [unfolded hpt_pmo_set_pme_by_va_def]] e lvl
    by (simp add: hpt_pm_get_pmeo_by_va_def)
  ultimately show ?thesis by (simp add: hptw_get_pmeo_def)
qed

lemma descends_type: "descends ctx s va pmo ps p \<Longrightarrow> pmo_t p = pmo_t pmo"
  by (induction rule: descends.induct) (auto dest: hptw_next_lvl_True)

lemma get_pmo_type:
  assumes "hptw_get_root ctx s = Some (OK root)" "hptw_get_pmo ctx s l va = Some p" "pmo_lvl p = l" "pmo_pm p \<noteq> 0"
  shows "pmo_t p = ctx_t ctx"
  using assms get_pmo_loop_descends [of ctx s root l va p] descends_type root_type [OF assms(1)]
  by (fastforce simp: hptw_get_pmo_def)

lemma insert_pmeo_get:
  assumes root: "hptw_get_root ctx s = Some (OK root)"
    and ins: "hptw_insert_pmeo ctx s e va = Some (OK (), s')"
    and sep: "\<And>ps p q. descends ctx s va root ps p \<Longrightarrow> q \<in> set ps \<Longrightarrow> pm_region q \<inter> pm_region p = {}"
    and pa: "\<And>m. pa2ptr ctx (s\<lparr>mem := m\<rparr>) = pa2ptr ctx s"
    and e: "pmeo_t e = ctx_t ctx" "take_bit (8 * pme_size (ctx_t ctx)) (pmeo_pme e) = pmeo_pme e"
  shows "hptw_get_pmeo ctx s' (pmeo_lvl e) va = Some e"
proof -
  obtain p m where p: "hptw_get_pmo ctx s (pmeo_lvl e) va = Some p" "pmo_lvl p = pmeo_lvl e" "pmo_pm p \<noteq> 0"
    and m: "hpt_pmo_set_pme_by_va (mem s) p e va = Some m" "s' = s\<lparr>mem := m\<rparr>"
    using ins by (auto simp: hptw_insert_pmeo_def bind_eq_Some_conv split: if_splits)
  show ?thesis unfolding m(2) using get_pmo_type [OF root p] e
    by (intro store_get_pmeo [OF root p sep m(1) pa]) auto
qed

lemma set_prot_get:
  assumes root: "hptw_get_root ctx s = Some (OK root)"
    and ins: "hptw_set_prot ctx s va prot = Some s'"
    and sep: "\<And>ps p q. descends ctx s va root ps p \<Longrightarrow> q \<in> set ps \<Longrightarrow> pm_region q \<inter> pm_region p = {}"
    and pa: "\<And>m. pa2ptr ctx (s\<lparr>mem := m\<rparr>) = pa2ptr ctx s"
    and t: "ctx_t ctx \<noteq> HPT_TYPE_NORM"
  shows "\<exists>e e'. hptw_get_pmeo ctx s 1 va = Some e \<and> hptw_get_pmeo ctx s' 1 va = Some e'
    \<and> hpt_pmeo_getprot e' = Some prot \<and> hpt_pmeo_get_address e' = hpt_pmeo_get_address e"
proof -
  obtain p e e' m where p: "hptw_get_pmo ctx s 1 va = Some p" "pmo_lvl p = 1" "pmo_pm p \<noteq> 0"
    and e: "hpt_pm_get_pmeo_by_va (mem s) p va = Some e" "hpt_pmeo_setprot e prot = Some e'"
    and m: "hpt_pmo_set_pme_by_va (mem s) p e' va = Some m" "s' = s\<lparr>mem := m\<rparr>"
    using ins by (auto simp: hptw_set_prot_def bind_eq_Some_conv)
  have e': "hpt_pme_setprot (pmeo_t e) (pmeo_lvl e) (pmeo_pme e) prot = Some (pmeo_pme e')"
    "pmeo_t e' = pmo_t p" "pmeo_lvl e' = 1" "pmeo_t e = pmo_t p" "pmeo_lvl e = 1"
    using e(2) get_pmeo_SomeD [OF e(1)] p(2) by (auto simp: hpt_pmeo_setprot_def bind_eq_Some_conv)
  have "take_bit (8 * pme_size (pmo_t p)) (pmeo_pme e') = pmeo_pme e'"
    using get_pmo_type [OF root p] t by (simp add: pme_size_def take_bit_word_eq_self)
  then have "hptw_get_pmeo ctx s' 1 va = Some e'" unfolding m(2)
    using e' by (intro store_get_pmeo [OF root p sep m(1) pa]) auto
  moreover have "hptw_get_pmeo ctx s 1 va = Some e" using p e by (simp add: hptw_get_pmeo_def)
  moreover have "hpt_pmeo_getprot e' = Some prot"
    using prot_field.get_set [OF e'(1)] e' by (simp add: hpt_pmeo_getprot_def prot_representable_def)
  moreover have "hpt_pmeo_get_address e' = hpt_pmeo_get_address e"
    using prot_addr.get_unchanged [OF e'(1)] e' by (simp add: hpt_pmeo_get_address_def)
  ultimately show ?thesis by blast
qed

subsection \<open>Memory that a walk does not read\<close>

text \<open>The \<open>len\<close> bytes at \<open>p\<close>; no page map that a walk can visit meets the set \<open>X\<close>.\<close>

definition buffer :: "u64 \<Rightarrow> u64 \<Rightarrow> u64 set" where
  "buffer p len = {a. a - p < len}"

definition tables_apart :: "'x mach_scheme hptw_ctx \<Rightarrow> 'x mach_scheme \<Rightarrow> u64 set \<Rightarrow> bool" where
  "tables_apart ctx s X \<longleftrightarrow> (\<forall>va root ps q. hptw_get_root ctx s = Some (OK root) \<longrightarrow>
     descends ctx s va root ps q \<longrightarrow> pm_region q \<inter> X = {})"

lemma get_pmeo_frame:
  assumes "\<And>a. a \<in> pm_region q \<Longrightarrow> m a = m' a"
  shows "hpt_pm_get_pmeo_by_va m q va = hpt_pm_get_pmeo_by_va m' q va"
proof (cases "hpt_get_pm_idx (pmo_t q) (pmo_lvl q) va")
  case (Some i)
  have "load_le m (pmo_pm q + of_nat (pme_size (pmo_t q) * unat i)) (pme_size (pmo_t q)) =
      load_le m' (pmo_pm q + of_nat (pme_size (pmo_t q) * unat i)) (pme_size (pmo_t q))"
    using slot_in_region [OF Some] by (intro load_le_cong assms)
  then show ?thesis by (simp add: hpt_pm_get_pmeo_by_va_def hpt_pm_get_pme_by_va_eq [OF Some])
qed (simp add: hpt_pm_get_pmeo_by_va_def hpt_pm_get_pme_by_va_def)

lemma walk_frame:
  assumes "hptw_walk ctx s va pmo es pmo'" "\<And>ps q a. descends ctx s va pmo ps q \<Longrightarrow> a \<in> pm_region q \<Longrightarrow> mem s' a = mem s a"
    and "pa2ptr ctx s' = pa2ptr ctx s"
  shows "hptw_walk ctx s' va pmo es pmo'"
  using assms
proof (induction rule: hptw_walk.induct)
  case (leaf pmo e pmo')
  have same: "hpt_pm_get_pmeo_by_va (mem s') pmo va = hpt_pm_get_pmeo_by_va (mem s) pmo va"
    using leaf.prems(1) [OF descends.here [of ctx s va pmo]] by (rule get_pmeo_frame)
  then show ?case using leaf next_lvl_cong [OF same] by (intro hptw_walk.leaf) auto
next
  case (step pmo e pmo1 es pmo')
  have same: "hpt_pm_get_pmeo_by_va (mem s') pmo va = hpt_pm_get_pmeo_by_va (mem s) pmo va"
    using step.prems(1) [OF descends.here [of ctx s va pmo]] by (rule get_pmeo_frame)
  have "hptw_walk ctx s' va pmo1 es pmo'"
    using step.IH step.prems descends.down [OF step.hyps(2)] by blast
  then show ?case using step next_lvl_cong [OF same] same by (intro hptw_walk.step) auto
qed

context walk_env
begin

lemma checked_get_pmeo_frame:
  assumes apart: "tables_apart ctx s X" and same: "\<And>a. a \<notin> X \<Longrightarrow> m a = mem s a"
    and pa: "pa2ptr ctx (s\<lparr>mem := m\<rparr>) = pa2ptr ctx s"
  shows "hptw_checked_get_pmeo ctx (s\<lparr>mem := m\<rparr>) access cpl va = hptw_checked_get_pmeo ctx s access cpl va"
proof -
  obtain r where r: "hptw_get_root ctx s = Some r" and ok: "\<And>pmo. r = OK pmo \<Longrightarrow> lvl_ok (pmo_t pmo) (pmo_lvl pmo) \<and> pmo_pm pmo \<noteq> 0"
    using root_total [of s] by blast
  have r': "hptw_get_root ctx (s\<lparr>mem := m\<rparr>) = Some r" using r get_root_cong [OF pa] by simp
  show ?thesis
  proof (cases r)
    case ERR
    then show ?thesis using r r' by (simp add: hptw_checked_get_pmeo_def)
  next
    case (OK root)
    then obtain es pmo' where w: "hptw_walk ctx s va root es pmo'" using walk_total ok by blast
    have "mem (s\<lparr>mem := m\<rparr>) a = mem s a" if "descends ctx s va root ps q" "a \<in> pm_region q" for ps q a
    proof -
      have "pm_region q \<inter> X = {}" using apart r OK that(1) unfolding tables_apart_def by blast
      then have "a \<notin> X" using that(2) by blast
      then show ?thesis using same by simp
    qed
    then have "hptw_walk ctx (s\<lparr>mem := m\<rparr>) va root es pmo'" by (intro walk_frame [OF w _ pa])
    note w' = this
    have "hptw_get_root ctx s = Some (OK root)" "hptw_get_root ctx (s\<lparr>mem := m\<rparr>) = Some (OK root)"
      using r r' OK by simp_all
    from checked_of_walk [OF this(1) w] checked_of_walk [OF this(2) w'] show ?thesis by simp
  qed
qed

lemma checked_access_frame:
  assumes "tables_apart ctx s X" "\<And>a. a \<notin> X \<Longrightarrow> m a = mem s a"
    and "pa2ptr ctx (s\<lparr>mem := m\<rparr>) = pa2ptr ctx s"
  shows "hptw_checked_access_va ctx (s\<lparr>mem := m\<rparr>) access cpl va sz = hptw_checked_access_va ctx s access cpl va sz"
proof -
  have "hptw_checked_get_pmeo ctx (s\<lparr>mem := m\<rparr>) access cpl va = hptw_checked_get_pmeo ctx s access cpl va"
    using assms by (rule checked_get_pmeo_frame)
  then show ?thesis unfolding hptw_checked_access_va_def assms(3) by (rule arg_cong)
qed

end

text \<open>A walk depends on the memory and on the translation callback only.\<close>

lemma descends_mono:
  assumes "descends ctx s va pmo ps q" "mem s' = mem s" "pa2ptr ctx s' = pa2ptr ctx s"
  shows "descends ctx s' va pmo ps q"
  using assms
proof (induction rule: descends.induct)
  case (here pmo)
  show ?case by (rule descends.here)
next
  case (down pmo pmo1 ps q)
  then have "hptw_next_lvl ctx s' pmo va = Some (True, pmo1)"
    using next_lvl_cong [of s' pmo va s ctx] by simp
  then show ?case using down by (intro descends.down) auto
qed

lemma descends_cong:
  assumes "mem s' = mem s" "pa2ptr ctx s' = pa2ptr ctx s"
  shows "descends ctx s' va pmo ps q = descends ctx s va pmo ps q"
  using descends_mono [of ctx s va pmo ps q s'] descends_mono [of ctx s' va pmo ps q s] assms by auto

lemma tables_apart_cong:
  assumes "mem s' = mem s" "pa2ptr ctx s' = pa2ptr ctx s"
  shows "tables_apart ctx s' X = tables_apart ctx s X"
  unfolding tables_apart_def get_root_cong [OF assms(2)] descends_cong [OF assms] ..

context walk_env
begin

lemma checked_get_pmeo_cong:
  assumes "mem s' = mem s" "pa2ptr ctx s' = pa2ptr ctx s"
  shows "hptw_checked_get_pmeo ctx s' access cpl va = hptw_checked_get_pmeo ctx s access cpl va"
proof -
  obtain r where r: "hptw_get_root ctx s = Some r" and ok: "\<And>pmo. r = OK pmo \<Longrightarrow> lvl_ok (pmo_t pmo) (pmo_lvl pmo) \<and> pmo_pm pmo \<noteq> 0"
    using root_total [of s] by blast
  have r': "hptw_get_root ctx s' = Some r" using r get_root_cong [OF assms(2)] by simp
  show ?thesis
  proof (cases r)
    case ERR
    then show ?thesis using r r' by (simp add: hptw_checked_get_pmeo_def)
  next
    case (OK root)
    then obtain es pmo' where w: "hptw_walk ctx s va root es pmo'" using walk_total ok by blast
    have w': "hptw_walk ctx s' va root es pmo'" using assms by (intro walk_frame [OF w]) simp_all
    have "hptw_get_root ctx s = Some (OK root)" "hptw_get_root ctx s' = Some (OK root)"
      using r r' OK by simp_all
    from checked_of_walk [OF this(1) w] checked_of_walk [OF this(2) w'] show ?thesis by simp
  qed
qed

lemma leaves_aligned_cong:
  assumes "mem s' = mem s" "pa2ptr ctx s' = pa2ptr ctx s"
  shows "leaves_aligned ctx s' = leaves_aligned ctx s"
  unfolding leaves_aligned_def checked_get_pmeo_cong [OF assms] ..

lemma checked_access_cong:
  assumes "mem s' = mem s" "pa2ptr ctx s' = pa2ptr ctx s"
  shows "hptw_checked_access_va ctx s' access cpl va sz = hptw_checked_access_va ctx s access cpl va sz"
proof -
  have "hptw_checked_get_pmeo ctx s' access cpl va = hptw_checked_get_pmeo ctx s access cpl va"
    using assms by (rule checked_get_pmeo_cong)
  then show ?thesis unfolding hptw_checked_access_va_def assms(2) by (rule arg_cong)
qed

lemma xlate_cong:
  assumes "mem s' = mem s" "pa2ptr ctx s' = pa2ptr ctx s"
  shows "xlate ctx s' access cpl va = xlate ctx s access cpl va"
  unfolding xlate_def checked_access_cong [OF assms] ..

end

text \<open>Writes to a set that no table meets leave the tables and all translations as they are.\<close>

lemma descends_unframe:
  assumes "descends ctx (s\<lparr>mem := m\<rparr>) va pmo ps q" "\<And>a. a \<notin> X \<Longrightarrow> m a = mem s a" "pa2ptr ctx (s\<lparr>mem := m\<rparr>) = pa2ptr ctx s"
    and "\<And>ps q. descends ctx s va pmo ps q \<Longrightarrow> pm_region q \<inter> X = {}"
  shows "descends ctx s va pmo ps q"
  using assms
proof (induction rule: descends.induct)
  case (here pmo)
  show ?case by (rule descends.here)
next
  case (down pmo pmo1 ps q)
  have "pm_region pmo \<inter> X = {}" by (rule down.prems(3) [OF descends.here])
  then have "m a = mem s a" if "a \<in> pm_region pmo" for a using that down.prems(1) by blast
  then have "hpt_pm_get_pmeo_by_va (mem (s\<lparr>mem := m\<rparr>)) pmo va = hpt_pm_get_pmeo_by_va (mem s) pmo va"
    by (intro get_pmeo_frame) simp
  then have n: "hptw_next_lvl ctx s pmo va = Some (True, pmo1)"
    using down.hyps(1) next_lvl_cong [of "s\<lparr>mem := m\<rparr>" pmo va s ctx] down.prems(2) by simp
  have "descends ctx s va pmo1 ps q"
    by (rule down.IH [OF down.prems(1,2)]) (use down.prems(3) descends.down [OF n] in blast)+
  then show ?case by (rule descends.down [OF n])
qed

lemma tables_apart_frame:
  assumes "tables_apart ctx s X" "\<And>a. a \<notin> X \<Longrightarrow> m a = mem s a" "pa2ptr ctx (s\<lparr>mem := m\<rparr>) = pa2ptr ctx s"
  shows "tables_apart ctx (s\<lparr>mem := m\<rparr>) X"
  unfolding tables_apart_def get_root_cong [OF assms(3)]
proof (intro allI impI)
  fix va root ps q assume r: "hptw_get_root ctx s = Some (OK root)" and d: "descends ctx (s\<lparr>mem := m\<rparr>) va root ps q"
  have a: "pm_region q' \<inter> X = {}" if "descends ctx s va root ps' q'" for ps' q'
    using assms(1) r that by (simp add: tables_apart_def)
  have "descends ctx s va root ps q" using d assms(2,3) a by (rule descends_unframe)
  then show "pm_region q \<inter> X = {}" by (rule a)
qed

context walk_env
begin

lemma leaves_aligned_frame:
  assumes "tables_apart ctx s X" "\<And>a. a \<notin> X \<Longrightarrow> m a = mem s a" "pa2ptr ctx (s\<lparr>mem := m\<rparr>) = pa2ptr ctx s"
  shows "leaves_aligned ctx (s\<lparr>mem := m\<rparr>) = leaves_aligned ctx s"
proof -
  have "hptw_checked_get_pmeo ctx (s\<lparr>mem := m\<rparr>) access cpl va = hptw_checked_get_pmeo ctx s access cpl va" for access cpl va
    using assms by (rule checked_get_pmeo_frame)
  then show ?thesis by (simp add: leaves_aligned_def)
qed

lemma xlate_frame:
  assumes "tables_apart ctx s X" "\<And>a. a \<notin> X \<Longrightarrow> m a = mem s a" "pa2ptr ctx (s\<lparr>mem := m\<rparr>) = pa2ptr ctx s"
  shows "xlate ctx (s\<lparr>mem := m\<rparr>) access cpl va = xlate ctx s access cpl va"
proof -
  have "hptw_checked_access_va ctx (s\<lparr>mem := m\<rparr>) access cpl va 1 = hptw_checked_access_va ctx s access cpl va 1"
    using assms by (rule checked_access_frame)
  then show ?thesis by (simp add: xlate_def)
qed

end

context linear_env
begin

text \<open>
  The copy out of the address space as a whole: the destination does not meet the tables nor
  the bytes that are copied.
\<close>

lemma checked_copy_from_va:
  fixes dst len src :: u64
  assumes apart: "tables_apart ctx s (buffer dst len)"
    and pa: "\<And>m. (\<And>a. a \<notin> buffer dst len \<Longrightarrow> m a = mem s a) \<Longrightarrow> pa2ptr ctx (s\<lparr>mem := m\<rparr>) = pa2ptr ctx s"
    and al: "leaves_aligned ctx s" and lin: "lin s"
    and disj: "\<And>i. i < len \<Longrightarrow> xlate ctx s HPT_PROTS_R cpl (src + i) \<notin> buffer dst len"
  shows "\<exists>r m'. hptw_checked_copy_from_va ctx s cpl dst src len = Some (r, s\<lparr>mem := m'\<rparr>)
    \<and> (\<forall>a. a \<notin> buffer dst len \<longrightarrow> m' a = mem s a)
    \<and> (r = OK () \<longrightarrow> (\<forall>i < len. m' (dst + i) = mem s (xlate ctx s HPT_PROTS_R cpl (src + i))))
    \<and> (r = OK () \<longleftrightarrow> (\<forall>i < len. xlate ctx s HPT_PROTS_R cpl (src + i) \<noteq> 0))"
proof -
  have buf: "a \<notin> buffer dst len \<longleftrightarrow> len \<le> a - dst" for a by (auto simp: buffer_def)
  have "hptw_checked_access_va ctx (s\<lparr>mem := m\<rparr>) HPT_PROTS_R cpl va sz = hptw_checked_access_va ctx s HPT_PROTS_R cpl va sz"
    if "\<And>a. len \<le> a - dst \<Longrightarrow> m a = mem s a" for m va sz
    using that pa [of m] by (intro checked_access_frame [OF apart]) (auto simp: buf)
  moreover have "len \<le> xlate ctx s HPT_PROTS_R cpl (src + i) - dst" if "i < len" for i
    using disj [OF that] buf by blast
  ultimately show ?thesis
    using copy_from_va_loop [where m = "mem s" and copied = 0, OF _ al lin]
    by (simp add: hptw_checked_copy_from_va_def buf)
qed

end

text \<open>
  The bytes that a write to the \<open>len\<close> virtual addresses from \<open>dst\<close> may touch.
\<close>

definition write_targets ::
  "'x mach_scheme hptw_ctx \<Rightarrow> 'x mach_scheme \<Rightarrow> hptw_cpl \<Rightarrow> hpt_va \<Rightarrow> u64 \<Rightarrow> u64 set" where
  "write_targets ctx s cpl dst len = {xlate ctx s HPT_PROTS_W cpl (dst + i) | i. i < len}"

lemma chunk_no_wrap:
  fixes copied len a j :: u64
  shows "copied \<le> len \<Longrightarrow> a \<le> len - copied \<Longrightarrow> j < a \<Longrightarrow> \<not> copied + j < copied"
  by uint_arith

context linear_env
begin

lemma write_chunk:
  fixes dst len src :: u64 and f :: "u64 \<Rightarrow> u8"
  assumes pa: "hptw_checked_access_va ctx s0 HPT_PROTS_W cpl (dst + copied) (len - copied) = Some (p, a)"
    and le: "copied \<le> len" "a \<le> len - copied" and al: "leaves_aligned ctx s0" and lin: "lin s0"
    and frame: "\<And>x. x \<notin> write_targets ctx s0 cpl dst len \<Longrightarrow> m x = mem s0 x"
    and sofar: "\<And>i. inj_on (\<lambda>i. xlate ctx s0 HPT_PROTS_W cpl (dst + i)) {..<len} \<Longrightarrow> i < copied \<Longrightarrow>
      m (xlate ctx s0 HPT_PROTS_W cpl (dst + i)) = f i"
    and m': "\<And>x. m' x = (if x - p < a then f (copied + (x - p)) else m x)"
  shows "x \<notin> write_targets ctx s0 cpl dst len \<Longrightarrow> m' x = mem s0 x"
    and "inj_on (\<lambda>i. xlate ctx s0 HPT_PROTS_W cpl (dst + i)) {..<len} \<Longrightarrow> i < copied + a \<Longrightarrow>
      m' (xlate ctx s0 HPT_PROTS_W cpl (dst + i)) = f i"
proof -
  let ?x = "\<lambda>i. xlate ctx s0 HPT_PROTS_W cpl (dst + i)"
  have x: "?x (copied + j) = p + j" if "j < a" for j
    using access_linear [OF pa that al lin] by (simp add: xlate_def add.assoc)
  have lt: "copied + j < len" if "j < a" for j
    using that le by uint_arith
  have in_targets: "x \<in> write_targets ctx s0 cpl dst len" if "x - p < a" for x
    unfolding write_targets_def using x [OF that] lt [OF that] by (intro CollectI exI [of _ "copied + (x - p)"]) simp
  show "m' x = mem s0 x" if "x \<notin> write_targets ctx s0 cpl dst len"
    using in_targets [of x] frame that by (auto simp: m')
  assume inj: "inj_on ?x {..<len}" and i: "i < copied + a"
  show "m' (?x i) = f i"
  proof (cases "i < copied")
    case True
    have "\<not> ?x i - p < a"
    proof
      assume *: "?x i - p < a"
      then have "?x (copied + (?x i - p)) = ?x i" using x by simp
      moreover have "i < len" "copied + (?x i - p) < len" using True le lt [OF *] by auto
      ultimately have "copied + (?x i - p) = i" using inj unfolding inj_on_def by blast
      then show False using True chunk_no_wrap [OF le *] by simp
    qed
    then show ?thesis using sofar [OF inj True] by (simp add: m')
  next
    case False
    then have j: "i - copied < a" using chunk_arith(2) [OF le i] by simp
    have "?x i = p + (i - copied)" using x [OF j] by simp
    then show ?thesis using j by (simp add: m')
  qed
qed

lemma copy_to_va_loop:
  fixes dst len src :: u64
  assumes stable: "\<And>m va sz. (\<And>x. x \<notin> write_targets ctx s0 cpl dst len \<Longrightarrow> m x = mem s0 x) \<Longrightarrow>
      hptw_checked_access_va ctx (s0\<lparr>mem := m\<rparr>) HPT_PROTS_W cpl va sz
      = hptw_checked_access_va ctx s0 HPT_PROTS_W cpl va sz"
    and al: "leaves_aligned ctx s0" and lin: "lin s0"
    and disj: "\<And>i. i < len \<Longrightarrow> src + i \<notin> write_targets ctx s0 cpl dst len"
    and frame: "\<And>x. x \<notin> write_targets ctx s0 cpl dst len \<Longrightarrow> m x = mem s0 x"
    and sofar: "\<And>i. inj_on (\<lambda>i. xlate ctx s0 HPT_PROTS_W cpl (dst + i)) {..<len} \<Longrightarrow> i < copied \<Longrightarrow>
      m (xlate ctx s0 HPT_PROTS_W cpl (dst + i)) = mem s0 (src + i)"
    and le: "copied \<le> len" and nz: "\<And>i. i < copied \<Longrightarrow> xlate ctx s0 HPT_PROTS_W cpl (dst + i) \<noteq> 0"
  shows "\<exists>r m'. hptw_copy_to_va_loop ctx (s0\<lparr>mem := m\<rparr>) cpl dst src len copied = Some (r, s0\<lparr>mem := m'\<rparr>)
    \<and> (\<forall>x. x \<notin> write_targets ctx s0 cpl dst len \<longrightarrow> m' x = mem s0 x)
    \<and> (r = OK () \<longrightarrow> inj_on (\<lambda>i. xlate ctx s0 HPT_PROTS_W cpl (dst + i)) {..<len} \<longrightarrow>
        (\<forall>i < len. m' (xlate ctx s0 HPT_PROTS_W cpl (dst + i)) = mem s0 (src + i)))
    \<and> (r = OK () \<longleftrightarrow> (\<forall>i < len. xlate ctx s0 HPT_PROTS_W cpl (dst + i) \<noteq> 0))"
  using frame sofar le nz
proof (induction "unat (len - copied)" arbitrary: m copied rule: less_induct)
  case less
  note unfolded = hptw_copy_to_va_loop.simps [of ctx "s0\<lparr>mem := m\<rparr>" cpl dst src len copied]
  show ?case
  proof (cases "copied < len")
    case False
    then have "copied = len" using less.prems(3) by simp
    then show ?thesis using less.prems unfolding unfolded by auto
  next
    case True
    obtain p a where pa: "hptw_checked_access_va ctx s0 HPT_PROTS_W cpl (dst + copied) (len - copied) = Some (p, a)"
      and g: "a \<le> len - copied" "p \<noteq> 0 \<Longrightarrow> 0 < len - copied \<Longrightarrow> 0 < a"
      using checked_access_va_total [of s0 HPT_PROTS_W cpl "dst + copied" "len - copied"] by auto
    have acc: "hptw_checked_access_va ctx (s0\<lparr>mem := m\<rparr>) HPT_PROTS_W cpl (dst + copied) (len - copied) = Some (p, a)"
      using stable [OF less.prems(1)] pa by simp
    show ?thesis
    proof (cases "p = 0")
      case True
      then have "xlate ctx s0 HPT_PROTS_W cpl (dst + copied) = 0"
        using access_size [OF pa, of 1] by (auto simp: xlate_def)
      then show ?thesis using acc True \<open>copied < len\<close> less.prems(1) unfolding unfolded by auto
    next
      case False
      then have a: "a \<le> len - copied" "0 < a" using g \<open>copied < len\<close> by (auto simp: word_gt_0)
      have src: "m (src + (copied + j)) = mem s0 (src + (copied + j))" if "j < a" for j
      proof -
        have "copied + j < len" using that a(1) less.prems(3) by uint_arith
        then show ?thesis using less.prems(1) disj by blast
      qed
      have m': "memcpy m p (src + copied) a x = (if x - p < a then mem s0 (src + (copied + (x - p))) else m x)" for x
        using src [of "x - p"] by (simp add: memcpy_def add.assoc)
      have "hptw_copy_to_va_loop ctx (s0\<lparr>mem := m\<rparr>) cpl dst src len copied =
          hptw_copy_to_va_loop ctx (s0\<lparr>mem := memcpy m p (src + copied) a\<rparr>) cpl dst src len (copied + a)"
        using acc \<open>copied < len\<close> False unfolding unfolded by simp
      moreover have "unat (len - (copied + a)) < unat (len - copied)"
        using chunk_arith(5) [OF less.prems(3) a] by (simp add: word_less_nat_alt)
      ultimately show ?thesis
        using less.hyps [OF _ write_chunk [OF pa less.prems(3) a(1) al lin less.prems(1,2) m'] _ chunk_nonzero [OF pa False less.prems(3) a(1) al lin less.prems(4)]]
          chunk_arith(1) [OF less.prems(3) a(1)] by simp
    qed
  qed
qed

lemma checked_copy_to_va:
  fixes dst len src :: u64
  assumes apart: "tables_apart ctx s (write_targets ctx s cpl dst len)"
    and pa: "\<And>m. (\<And>x. x \<notin> write_targets ctx s cpl dst len \<Longrightarrow> m x = mem s x) \<Longrightarrow> pa2ptr ctx (s\<lparr>mem := m\<rparr>) = pa2ptr ctx s"
    and al: "leaves_aligned ctx s" and lin: "lin s"
    and disj: "\<And>i. i < len \<Longrightarrow> src + i \<notin> write_targets ctx s cpl dst len"
  shows "\<exists>r m'. hptw_checked_copy_to_va ctx s cpl dst src len = Some (r, s\<lparr>mem := m'\<rparr>)
    \<and> (\<forall>x. x \<notin> write_targets ctx s cpl dst len \<longrightarrow> m' x = mem s x)
    \<and> (r = OK () \<longrightarrow> inj_on (\<lambda>i. xlate ctx s HPT_PROTS_W cpl (dst + i)) {..<len} \<longrightarrow>
        (\<forall>i < len. m' (xlate ctx s HPT_PROTS_W cpl (dst + i)) = mem s (src + i)))
    \<and> (r = OK () \<longleftrightarrow> (\<forall>i < len. xlate ctx s HPT_PROTS_W cpl (dst + i) \<noteq> 0))"
proof -
  have "hptw_checked_access_va ctx (s\<lparr>mem := m\<rparr>) HPT_PROTS_W cpl va sz = hptw_checked_access_va ctx s HPT_PROTS_W cpl va sz"
    if "\<And>x. x \<notin> write_targets ctx s cpl dst len \<Longrightarrow> m x = mem s x" for m va sz
    using that pa [of m] by (intro checked_access_frame [OF apart]) auto
  then show ?thesis
    using copy_to_va_loop [where m = "mem s" and copied = 0, OF _ al lin] disj
    by (simp add: hptw_checked_copy_to_va_def)
qed

lemma memset_va_loop:
  fixes dst len :: u64
  assumes stable: "\<And>m va sz. (\<And>x. x \<notin> write_targets ctx s0 cpl dst len \<Longrightarrow> m x = mem s0 x) \<Longrightarrow>
      hptw_checked_access_va ctx (s0\<lparr>mem := m\<rparr>) HPT_PROTS_W cpl va sz
      = hptw_checked_access_va ctx s0 HPT_PROTS_W cpl va sz"
    and al: "leaves_aligned ctx s0" and lin: "lin s0"
    and frame: "\<And>x. x \<notin> write_targets ctx s0 cpl dst len \<Longrightarrow> m x = mem s0 x"
    and sofar: "\<And>i. inj_on (\<lambda>i. xlate ctx s0 HPT_PROTS_W cpl (dst + i)) {..<len} \<Longrightarrow> i < n \<Longrightarrow>
      m (xlate ctx s0 HPT_PROTS_W cpl (dst + i)) = c"
    and le: "n \<le> len" and nz: "\<And>i. i < n \<Longrightarrow> xlate ctx s0 HPT_PROTS_W cpl (dst + i) \<noteq> 0"
  shows "\<exists>r m'. hptw_memset_va_loop ctx (s0\<lparr>mem := m\<rparr>) cpl dst c len n = Some (r, s0\<lparr>mem := m'\<rparr>)
    \<and> (\<forall>x. x \<notin> write_targets ctx s0 cpl dst len \<longrightarrow> m' x = mem s0 x)
    \<and> (r = OK () \<longrightarrow> inj_on (\<lambda>i. xlate ctx s0 HPT_PROTS_W cpl (dst + i)) {..<len} \<longrightarrow>
        (\<forall>i < len. m' (xlate ctx s0 HPT_PROTS_W cpl (dst + i)) = c))
    \<and> (r = OK () \<longleftrightarrow> (\<forall>i < len. xlate ctx s0 HPT_PROTS_W cpl (dst + i) \<noteq> 0))"
  using frame sofar le nz
proof (induction "unat (len - n)" arbitrary: m n rule: less_induct)
  case less
  note unfolded = hptw_memset_va_loop.simps [of ctx "s0\<lparr>mem := m\<rparr>" cpl dst c len n]
  show ?case
  proof (cases "n < len")
    case False
    then have "n = len" using less.prems(3) by simp
    then show ?thesis using less.prems unfolding unfolded by auto
  next
    case True
    obtain p a where pa: "hptw_checked_access_va ctx s0 HPT_PROTS_W cpl (dst + n) (len - n) = Some (p, a)"
      and g: "a \<le> len - n" "p \<noteq> 0 \<Longrightarrow> 0 < len - n \<Longrightarrow> 0 < a"
      using checked_access_va_total [of s0 HPT_PROTS_W cpl "dst + n" "len - n"] by auto
    have acc: "hptw_checked_access_va ctx (s0\<lparr>mem := m\<rparr>) HPT_PROTS_W cpl (dst + n) (len - n) = Some (p, a)"
      using stable [OF less.prems(1)] pa by simp
    show ?thesis
    proof (cases "p = 0")
      case True
      then have "xlate ctx s0 HPT_PROTS_W cpl (dst + n) = 0"
        using access_size [OF pa, of 1] by (auto simp: xlate_def)
      then show ?thesis using acc True \<open>n < len\<close> less.prems(1) unfolding unfolded by auto
    next
      case False
      then have a: "a \<le> len - n" "0 < a" using g \<open>n < len\<close> by (auto simp: word_gt_0)
      have m': "memset m p c a x = (if x - p < a then c else m x)" for x by (simp add: memset_def)
      have "hptw_memset_va_loop ctx (s0\<lparr>mem := m\<rparr>) cpl dst c len n =
          hptw_memset_va_loop ctx (s0\<lparr>mem := memset m p c a\<rparr>) cpl dst c len (n + a)"
        using acc \<open>n < len\<close> False unfolding unfolded by simp
      moreover have "unat (len - (n + a)) < unat (len - n)"
        using chunk_arith(5) [OF less.prems(3) a] by (simp add: word_less_nat_alt)
      ultimately show ?thesis
        using less.hyps [OF _ write_chunk [OF pa less.prems(3) a(1) al lin less.prems(1,2) m'] _ chunk_nonzero [OF pa False less.prems(3) a(1) al lin less.prems(4)]]
          chunk_arith(1) [OF less.prems(3) a(1)] by simp
    qed
  qed
qed

lemma checked_memset_va:
  fixes dst len :: u64
  assumes apart: "tables_apart ctx s (write_targets ctx s cpl dst len)"
    and pa: "\<And>m. (\<And>x. x \<notin> write_targets ctx s cpl dst len \<Longrightarrow> m x = mem s x) \<Longrightarrow> pa2ptr ctx (s\<lparr>mem := m\<rparr>) = pa2ptr ctx s"
    and al: "leaves_aligned ctx s" and lin: "lin s"
  shows "\<exists>r m'. hptw_checked_memset_va ctx s cpl dst c len = Some (r, s\<lparr>mem := m'\<rparr>)
    \<and> (\<forall>x. x \<notin> write_targets ctx s cpl dst len \<longrightarrow> m' x = mem s x)
    \<and> (r = OK () \<longrightarrow> inj_on (\<lambda>i. xlate ctx s HPT_PROTS_W cpl (dst + i)) {..<len} \<longrightarrow>
        (\<forall>i < len. m' (xlate ctx s HPT_PROTS_W cpl (dst + i)) = c))
    \<and> (r = OK () \<longleftrightarrow> (\<forall>i < len. xlate ctx s HPT_PROTS_W cpl (dst + i) \<noteq> 0))"
proof -
  have "hptw_checked_access_va ctx (s\<lparr>mem := m\<rparr>) HPT_PROTS_W cpl va sz = hptw_checked_access_va ctx s HPT_PROTS_W cpl va sz"
    if "\<And>x. x \<notin> write_targets ctx s cpl dst len \<Longrightarrow> m x = mem s x" for m va sz
    using that pa [of m] by (intro checked_access_frame [OF apart]) auto
  then show ?thesis
    using memset_va_loop [where m = "mem s" and n = 0, OF _ al lin]
    by (simp add: hptw_checked_memset_va_def)
qed

end

end
