(* ===== verification/Vcpu.thy ===== *)
theory Vcpu
  imports Prelude
begin

text \<open>
  The virtual CPU and its register accessors: \<^verbatim>\<open>bplt-x86.c\<close> (the \<open>VCPU_*\<close> functions) and the
  sized VMREAD/VMWRITE wrappers of \<^verbatim>\<open>bplt-x86vmx-vmcs.c\<close>, in the \<^verbatim>\<open>amd64\<close> build with nested
  virtualization. \<open>vmcs\<close> is the shadow copy that XMHF keeps of the VMCS of the guest
  (\<open>struct _vmx_vmcsfields\<close>, the fields that the modelled code uses), \<open>vmcb\<close> the AMD
  counterpart. \<open>hw_vmcs\<close> is the VMCS the processor has current, by field encoding: VMREAD and
  VMWRITE fail, and the wrappers halt, on an encoding where it is \<open>None\<close>.
\<close>

abbreviation (input) CPU_VENDOR_INTEL :: u32 where "CPU_VENDOR_INTEL \<equiv> 0xAB"
abbreviation (input) CPU_VENDOR_AMD :: u32 where "CPU_VENDOR_AMD \<equiv> 0xCD"
abbreviation (input) NESTED_VMX_MODE_NONROOT :: u32 where "NESTED_VMX_MODE_NONROOT \<equiv> 2"

record vmcs_fields =
  guest_CR0 :: u64
  guest_CR3 :: u64
  guest_CR4 :: u64
  guest_RSP :: u64
  guest_RIP :: u64
  guest_RFLAGS :: u64
  guest_GDTR_base :: u64
  guest_GDTR_limit :: u32
  guest_ES_base :: u64
  guest_CS_base :: u64
  guest_SS_base :: u64
  guest_DS_base :: u64
  guest_FS_base :: u64
  guest_GS_base :: u64
  guest_ES_limit :: u32
  guest_CS_limit :: u32
  guest_SS_limit :: u32
  guest_DS_limit :: u32
  guest_FS_limit :: u32
  guest_GS_limit :: u32
  guest_ES_access_rights :: u32
  guest_CS_access_rights :: u32
  guest_SS_access_rights :: u32
  guest_DS_access_rights :: u32
  guest_FS_access_rights :: u32
  guest_GS_access_rights :: u32
  guest_PDPTE0 :: u64
  guest_PDPTE1 :: u64
  guest_PDPTE2 :: u64
  guest_PDPTE3 :: u64
  control_VM_entry_controls :: u32
  control_exception_bitmap :: u32
  control_VMX_cpu_based :: u32
  control_VMX_seccpu_based :: u32
  control_vpid :: u16
  control_EPT_pointer :: u64
  guest_CS_selector :: u16
  info_vmexit_instruction_length :: u32

record vmcb_fields =
  vmcb_gdtr_base :: u64
  vmcb_gdtr_limit :: u32
  vmcb_rflags :: u64
  vmcb_rip :: u64
  vmcb_rsp :: u64
  vmcb_cr0 :: u64
  vmcb_cr3 :: u64
  vmcb_cr4 :: u64
  vmcb_exception_intercepts_bitmask :: u32

record vcpu =
  cpu_vendor :: u32
  vmx_nested_operation_mode :: u32
  vmcs :: vmcs_fields
  vmcb :: vmcb_fields
  hw_vmcs :: "u16 \<Rightarrow> u64 option"

datatype CPU_Reg_Sel =
  CPU_REG_AX | CPU_REG_CX | CPU_REG_DX | CPU_REG_BX | CPU_REG_SP | CPU_REG_BP | CPU_REG_SI | CPU_REG_DI
| CPU_REG_R8 | CPU_REG_R9 | CPU_REG_R10 | CPU_REG_R11 | CPU_REG_R12 | CPU_REG_R13 | CPU_REG_R14 | CPU_REG_R15
| CPU_REG_FLAGS | CPU_REG_IP

record regs =
  rax :: u64
  rcx :: u64
  rdx :: u64
  rbx :: u64
  rbp :: u64
  rsi :: u64
  rdi :: u64
  r8 :: u64
  r9 :: u64
  r10 :: u64
  r11 :: u64
  r12 :: u64
  r13 :: u64
  r14 :: u64
  r15 :: u64

subsection \<open>VMREAD and VMWRITE of a given width\<close>

definition vmx_vmwrite :: "vcpu \<Rightarrow> u16 \<Rightarrow> u64 \<Rightarrow> vcpu exec" where
  "vmx_vmwrite v enc val = (case hw_vmcs v enc of
     None \<Rightarrow> None | Some _ \<Rightarrow> Some (v\<lparr>hw_vmcs := (hw_vmcs v)(enc \<mapsto> val)\<rparr>))"

definition vmx_vmwrite16 :: "vcpu \<Rightarrow> u16 \<Rightarrow> u16 \<Rightarrow> vcpu exec" where
  "vmx_vmwrite16 v enc val = do { assert_c (drop_bit 12 enc = 0); vmx_vmwrite v enc (ucast val) }"

definition vmx_vmwrite64 :: "vcpu \<Rightarrow> u16 \<Rightarrow> u64 \<Rightarrow> vcpu exec" where
  "vmx_vmwrite64 v enc val = do {
     assert_c (drop_bit 12 enc = 2);
     assert_c (enc AND 1 = 0);
     vmx_vmwrite v enc val
   }"

definition vmx_vmwrite32 :: "vcpu \<Rightarrow> u16 \<Rightarrow> u32 \<Rightarrow> vcpu exec" where
  "vmx_vmwrite32 v enc val = do { assert_c (drop_bit 12 enc = 4); vmx_vmwrite v enc (ucast val) }"

definition vmx_vmwriteNW :: "vcpu \<Rightarrow> u16 \<Rightarrow> u64 \<Rightarrow> vcpu exec" where
  "vmx_vmwriteNW v enc val = do { assert_c (drop_bit 12 enc = 6); vmx_vmwrite v enc val }"

definition vmx_vmread16 :: "vcpu \<Rightarrow> u16 \<Rightarrow> u16 exec" where
  "vmx_vmread16 v enc = do {
     assert_c (drop_bit 12 enc = 0);
     val \<leftarrow> hw_vmcs v enc;
     assert_c (val = ucast (ucast val :: u16));
     Some (ucast val)
   }"

definition vmx_vmread64 :: "vcpu \<Rightarrow> u16 \<Rightarrow> u64 exec" where
  "vmx_vmread64 v enc = do { assert_c (drop_bit 12 enc = 2); hw_vmcs v enc }"

definition vmx_vmread32 :: "vcpu \<Rightarrow> u16 \<Rightarrow> u32 exec" where
  "vmx_vmread32 v enc = do {
     assert_c (drop_bit 12 enc = 4);
     val \<leftarrow> hw_vmcs v enc;
     assert_c (val = ucast (ucast val :: u32));
     Some (ucast val)
   }"

definition vmx_vmreadNW :: "vcpu \<Rightarrow> u16 \<Rightarrow> u64 exec" where
  "vmx_vmreadNW v enc = do { assert_c (drop_bit 12 enc = 6); hw_vmcs v enc }"

subsection \<open>Guest register accessors\<close>

definition VCPU_gdtr_base :: "vcpu \<Rightarrow> u64 exec" where
  "VCPU_gdtr_base v =
     (if cpu_vendor v = CPU_VENDOR_INTEL then
        (if vmx_nested_operation_mode v = NESTED_VMX_MODE_NONROOT then vmx_vmreadNW v 0x6816
         else Some (guest_GDTR_base (vmcs v)))
      else if cpu_vendor v = CPU_VENDOR_AMD then Some (vmcb_gdtr_base (vmcb v))
      else None)"

definition VCPU_gdtr_limit :: "vcpu \<Rightarrow> u64 exec" where
  "VCPU_gdtr_limit v =
     (if cpu_vendor v = CPU_VENDOR_INTEL then
        (if vmx_nested_operation_mode v = NESTED_VMX_MODE_NONROOT then do { val \<leftarrow> vmx_vmread32 v 0x4810; Some (ucast val) }
         else Some (ucast (guest_GDTR_limit (vmcs v))))
      else if cpu_vendor v = CPU_VENDOR_AMD then Some (ucast (vmcb_gdtr_limit (vmcb v)))
      else None)"

definition VCPU_grflags :: "vcpu \<Rightarrow> u64 exec" where
  "VCPU_grflags v =
     (if cpu_vendor v = CPU_VENDOR_INTEL then
        (if vmx_nested_operation_mode v = NESTED_VMX_MODE_NONROOT then vmx_vmreadNW v 0x6820
         else Some (guest_RFLAGS (vmcs v)))
      else if cpu_vendor v = CPU_VENDOR_AMD then Some (vmcb_rflags (vmcb v))
      else None)"

definition VCPU_grflags_set :: "vcpu \<Rightarrow> u64 \<Rightarrow> vcpu exec" where
  "VCPU_grflags_set v val =
     (if cpu_vendor v = CPU_VENDOR_INTEL then
        (if vmx_nested_operation_mode v = NESTED_VMX_MODE_NONROOT then vmx_vmwriteNW v 0x6820 val
         else Some (v\<lparr>vmcs := (vmcs v)\<lparr>guest_RFLAGS := val\<rparr>\<rparr>))
      else if cpu_vendor v = CPU_VENDOR_AMD then Some (v\<lparr>vmcb := (vmcb v)\<lparr>vmcb_rflags := val\<rparr>\<rparr>)
      else None)"

definition VCPU_grip :: "vcpu \<Rightarrow> u64 exec" where
  "VCPU_grip v =
     (if cpu_vendor v = CPU_VENDOR_INTEL then
        (if vmx_nested_operation_mode v = NESTED_VMX_MODE_NONROOT then vmx_vmreadNW v 0x681E
         else Some (guest_RIP (vmcs v)))
      else if cpu_vendor v = CPU_VENDOR_AMD then Some (vmcb_rip (vmcb v))
      else None)"

definition VCPU_grip_set :: "vcpu \<Rightarrow> u64 \<Rightarrow> vcpu exec" where
  "VCPU_grip_set v val =
     (if cpu_vendor v = CPU_VENDOR_INTEL then
        (if vmx_nested_operation_mode v = NESTED_VMX_MODE_NONROOT then vmx_vmwriteNW v 0x681E val
         else Some (v\<lparr>vmcs := (vmcs v)\<lparr>guest_RIP := val\<rparr>\<rparr>))
      else if cpu_vendor v = CPU_VENDOR_AMD then Some (v\<lparr>vmcb := (vmcb v)\<lparr>vmcb_rip := val\<rparr>\<rparr>)
      else None)"

definition VCPU_grsp :: "vcpu \<Rightarrow> u64 exec" where
  "VCPU_grsp v =
     (if cpu_vendor v = CPU_VENDOR_INTEL then
        (if vmx_nested_operation_mode v = NESTED_VMX_MODE_NONROOT then vmx_vmreadNW v 0x681C
         else Some (guest_RSP (vmcs v)))
      else if cpu_vendor v = CPU_VENDOR_AMD then Some (vmcb_rsp (vmcb v))
      else None)"

definition VCPU_grsp_set :: "vcpu \<Rightarrow> u64 \<Rightarrow> vcpu exec" where
  "VCPU_grsp_set v val =
     (if cpu_vendor v = CPU_VENDOR_INTEL then
        (if vmx_nested_operation_mode v = NESTED_VMX_MODE_NONROOT then vmx_vmwriteNW v 0x681C val
         else Some (v\<lparr>vmcs := (vmcs v)\<lparr>guest_RSP := val\<rparr>\<rparr>))
      else if cpu_vendor v = CPU_VENDOR_AMD then Some (v\<lparr>vmcb := (vmcb v)\<lparr>vmcb_rsp := val\<rparr>\<rparr>)
      else None)"

definition VCPU_gcr0 :: "vcpu \<Rightarrow> u64 exec" where
  "VCPU_gcr0 v =
     (if cpu_vendor v = CPU_VENDOR_INTEL then
        (if vmx_nested_operation_mode v = NESTED_VMX_MODE_NONROOT then vmx_vmreadNW v 0x6800
         else Some (guest_CR0 (vmcs v)))
      else if cpu_vendor v = CPU_VENDOR_AMD then Some (vmcb_cr0 (vmcb v))
      else None)"

definition VCPU_gcr0_set :: "vcpu \<Rightarrow> u64 \<Rightarrow> vcpu exec" where
  "VCPU_gcr0_set v val =
     (if cpu_vendor v = CPU_VENDOR_INTEL then
        (if vmx_nested_operation_mode v = NESTED_VMX_MODE_NONROOT then vmx_vmwriteNW v 0x6800 val
         else Some (v\<lparr>vmcs := (vmcs v)\<lparr>guest_CR0 := val\<rparr>\<rparr>))
      else if cpu_vendor v = CPU_VENDOR_AMD then Some (v\<lparr>vmcb := (vmcb v)\<lparr>vmcb_cr0 := val\<rparr>\<rparr>)
      else None)"

definition VCPU_gcr3 :: "vcpu \<Rightarrow> u64 exec" where
  "VCPU_gcr3 v =
     (if cpu_vendor v = CPU_VENDOR_INTEL then
        (if vmx_nested_operation_mode v = NESTED_VMX_MODE_NONROOT then vmx_vmreadNW v 0x6802
         else Some (guest_CR3 (vmcs v)))
      else if cpu_vendor v = CPU_VENDOR_AMD then Some (vmcb_cr3 (vmcb v))
      else None)"

definition VCPU_gcr3_set :: "vcpu \<Rightarrow> u64 \<Rightarrow> vcpu exec" where
  "VCPU_gcr3_set v val =
     (if cpu_vendor v = CPU_VENDOR_INTEL then
        (if vmx_nested_operation_mode v = NESTED_VMX_MODE_NONROOT then vmx_vmwriteNW v 0x6802 val
         else Some (v\<lparr>vmcs := (vmcs v)\<lparr>guest_CR3 := val\<rparr>\<rparr>))
      else if cpu_vendor v = CPU_VENDOR_AMD then Some (v\<lparr>vmcb := (vmcb v)\<lparr>vmcb_cr3 := val\<rparr>\<rparr>)
      else None)"

definition VCPU_gcr4 :: "vcpu \<Rightarrow> u64 exec" where
  "VCPU_gcr4 v =
     (if cpu_vendor v = CPU_VENDOR_INTEL then
        (if vmx_nested_operation_mode v = NESTED_VMX_MODE_NONROOT then vmx_vmreadNW v 0x6804
         else Some (guest_CR4 (vmcs v)))
      else if cpu_vendor v = CPU_VENDOR_AMD then Some (vmcb_cr4 (vmcb v))
      else None)"

definition VCPU_gcr4_set :: "vcpu \<Rightarrow> u64 \<Rightarrow> vcpu exec" where
  "VCPU_gcr4_set v val =
     (if cpu_vendor v = CPU_VENDOR_INTEL then
        (if vmx_nested_operation_mode v = NESTED_VMX_MODE_NONROOT then vmx_vmwriteNW v 0x6804 val
         else Some (v\<lparr>vmcs := (vmcs v)\<lparr>guest_CR4 := val\<rparr>\<rparr>))
      else if cpu_vendor v = CPU_VENDOR_AMD then Some (v\<lparr>vmcb := (vmcb v)\<lparr>vmcb_cr4 := val\<rparr>\<rparr>)
      else None)"

definition VCPU_glm :: "vcpu \<Rightarrow> bool exec" where
  "VCPU_glm v =
     (if cpu_vendor v = CPU_VENDOR_INTEL then
        (if vmx_nested_operation_mode v = NESTED_VMX_MODE_NONROOT then do {
           val \<leftarrow> vmx_vmread32 v 0x4012;
           Some (drop_bit 9 val AND 1 \<noteq> 0)
         }
         else Some (drop_bit 9 (control_VM_entry_controls (vmcs v)) AND 1 \<noteq> 0))
      else None)"

definition VCPU_g64 :: "vcpu \<Rightarrow> bool exec" where
  "VCPU_g64 v =
     (if cpu_vendor v = CPU_VENDOR_INTEL then
        (if vmx_nested_operation_mode v = NESTED_VMX_MODE_NONROOT then do {
           val \<leftarrow> vmx_vmread32 v 0x4816;
           Some (drop_bit 13 val AND 1 \<noteq> 0)
         }
         else Some (drop_bit 13 (guest_CS_access_rights (vmcs v)) AND 1 \<noteq> 0))
      else None)"

definition VCPU_gpdpte_set :: "vcpu \<Rightarrow> u64 \<Rightarrow> u64 \<Rightarrow> u64 \<Rightarrow> u64 \<Rightarrow> vcpu exec" where
  "VCPU_gpdpte_set v pdpte0 pdpte1 pdpte2 pdpte3 =
     (if cpu_vendor v = CPU_VENDOR_INTEL then
        (if vmx_nested_operation_mode v = NESTED_VMX_MODE_NONROOT then do {
           v \<leftarrow> vmx_vmwrite64 v 0x280A pdpte0;
           v \<leftarrow> vmx_vmwrite64 v 0x280C pdpte1;
           v \<leftarrow> vmx_vmwrite64 v 0x280E pdpte2;
           vmx_vmwrite64 v 0x2810 pdpte3
         }
         else Some (v\<lparr>vmcs := (vmcs v)\<lparr>guest_PDPTE0 := pdpte0, guest_PDPTE1 := pdpte1,
                guest_PDPTE2 := pdpte2, guest_PDPTE3 := pdpte3\<rparr>\<rparr>))
      else None)"

definition VCPU_exception_bitmap :: "vcpu \<Rightarrow> u32 exec" where
  "VCPU_exception_bitmap v =
     (if cpu_vendor v = CPU_VENDOR_INTEL then
        (if vmx_nested_operation_mode v = NESTED_VMX_MODE_NONROOT then vmx_vmread32 v 0x4004
         else Some (control_exception_bitmap (vmcs v)))
      else if cpu_vendor v = CPU_VENDOR_AMD then Some (vmcb_exception_intercepts_bitmask (vmcb v))
      else None)"

definition VCPU_exception_bitmap_set :: "vcpu \<Rightarrow> u32 \<Rightarrow> vcpu exec" where
  "VCPU_exception_bitmap_set v val =
     (if cpu_vendor v = CPU_VENDOR_INTEL then
        (if vmx_nested_operation_mode v = NESTED_VMX_MODE_NONROOT then vmx_vmwrite32 v 0x4004 val
         else Some (v\<lparr>vmcs := (vmcs v)\<lparr>control_exception_bitmap := val\<rparr>\<rparr>))
      else if cpu_vendor v = CPU_VENDOR_AMD then Some (v\<lparr>vmcb := (vmcb v)\<lparr>vmcb_exception_intercepts_bitmask := val\<rparr>\<rparr>)
      else None)"

definition VCPU_nested :: "vcpu \<Rightarrow> bool exec" where
  "VCPU_nested v =
     (if cpu_vendor v = CPU_VENDOR_INTEL then
        (if vmx_nested_operation_mode v = NESTED_VMX_MODE_NONROOT then Some True
         else Some False)
      else None)"

subsection \<open>Controls switched off while the hypervisor runs its own business\<close>

abbreviation (input) PIN_BASED :: u16 where "PIN_BASED \<equiv> 0x4000"
abbreviation (input) CPU_BASED :: u16 where "CPU_BASED \<equiv> 0x4002"
abbreviation (input) SECCPU_BASED :: u16 where "SECCPU_BASED \<equiv> 0x401E"
abbreviation (input) EXIT_CONTROLS :: u16 where "EXIT_CONTROLS \<equiv> 0x400C"
abbreviation (input) VMX_PINBASED_EXTERNAL_INTERRUPT_EXITING :: u32 where
  "VMX_PINBASED_EXTERNAL_INTERRUPT_EXITING \<equiv> 1"
abbreviation (input) VMX_PINBASED_ACTIVATE_VMX_PREEMPTION_TIMER :: u32 where
  "VMX_PINBASED_ACTIVATE_VMX_PREEMPTION_TIMER \<equiv> 0x40"
abbreviation (input) VMX_VMEXIT_SAVE_VMX_PREEMPTION_TIMER_VALUE :: u32 where
  "VMX_VMEXIT_SAVE_VMX_PREEMPTION_TIMER_VALUE \<equiv> 0x400000"

definition VCPU_disable_nested_interrupt_exit :: "vcpu \<Rightarrow> (bool \<times> vcpu) exec" where
  "VCPU_disable_nested_interrupt_exit v =
     (if cpu_vendor v = CPU_VENDOR_INTEL then
        (if vmx_nested_operation_mode v = NESTED_VMX_MODE_NONROOT then do {
           val \<leftarrow> vmx_vmread32 v PIN_BASED;
           if val AND VMX_PINBASED_EXTERNAL_INTERRUPT_EXITING \<noteq> 0 then do {
             v \<leftarrow> vmx_vmwrite32 v PIN_BASED (val AND NOT VMX_PINBASED_EXTERNAL_INTERRUPT_EXITING);
             Some (True, v)
           }
           else Some (False, v)
         }
         else Some (False, v))
      else None)"

definition VCPU_enable_nested_interrupt_exit :: "vcpu \<Rightarrow> bool \<Rightarrow> vcpu exec" where
  "VCPU_enable_nested_interrupt_exit v old_state =
     (if cpu_vendor v = CPU_VENDOR_INTEL then
        (if vmx_nested_operation_mode v = NESTED_VMX_MODE_NONROOT then 
           (if old_state then do {
              val \<leftarrow> vmx_vmread32 v PIN_BASED;
              assert_c (val AND VMX_PINBASED_EXTERNAL_INTERRUPT_EXITING = 0);
              vmx_vmwrite32 v PIN_BASED (val OR VMX_PINBASED_EXTERNAL_INTERRUPT_EXITING)
            }
            else Some v)
         else do { assert_c (\<not> old_state); Some v })
      else None)"

definition VCPU_disable_nested_timer_exit :: "vcpu \<Rightarrow> (u32 \<times> vcpu) exec" where
  "VCPU_disable_nested_timer_exit v =
     (if cpu_vendor v = CPU_VENDOR_INTEL then
        (if vmx_nested_operation_mode v = NESTED_VMX_MODE_NONROOT then do {
           val \<leftarrow> vmx_vmread32 v PIN_BASED;
           if val AND VMX_PINBASED_ACTIVATE_VMX_PREEMPTION_TIMER \<noteq> 0 then do {
             v \<leftarrow> vmx_vmwrite32 v PIN_BASED (val AND NOT VMX_PINBASED_ACTIVATE_VMX_PREEMPTION_TIMER);
             val2 \<leftarrow> vmx_vmread32 v EXIT_CONTROLS;
             if val2 AND VMX_VMEXIT_SAVE_VMX_PREEMPTION_TIMER_VALUE \<noteq> 0 then do {
               v \<leftarrow> vmx_vmwrite32 v EXIT_CONTROLS (val2 AND NOT VMX_VMEXIT_SAVE_VMX_PREEMPTION_TIMER_VALUE);
               Some (3, v)
             }
             else Some (1, v)
           }
           else Some (0, v)
         }
         else Some (0, v))
      else None)"

definition VCPU_enable_nested_timer_exit :: "vcpu \<Rightarrow> u32 \<Rightarrow> vcpu exec" where
  "VCPU_enable_nested_timer_exit v old_state =
     (if cpu_vendor v = CPU_VENDOR_INTEL then
        (if vmx_nested_operation_mode v = NESTED_VMX_MODE_NONROOT then do {
           v \<leftarrow>
             (if old_state AND 1 \<noteq> 0 then do {
                val \<leftarrow> vmx_vmread32 v PIN_BASED;
                assert_c (val AND VMX_PINBASED_ACTIVATE_VMX_PREEMPTION_TIMER = 0);
                vmx_vmwrite32 v PIN_BASED (val OR VMX_PINBASED_ACTIVATE_VMX_PREEMPTION_TIMER)
              }
              else Some v);
           if old_state AND 2 \<noteq> 0 then do {
             val \<leftarrow> vmx_vmread32 v EXIT_CONTROLS;
             assert_c (val AND VMX_VMEXIT_SAVE_VMX_PREEMPTION_TIMER_VALUE = 0);
             vmx_vmwrite32 v EXIT_CONTROLS (val OR VMX_VMEXIT_SAVE_VMX_PREEMPTION_TIMER_VALUE)
           }
           else Some v
         }
         else do { assert_c (old_state = 0); Some v })
      else None)"

definition MASK_PROC :: u32 where
  "MASK_PROC = push_bit 25 1 OR push_bit 21 1 OR push_bit 24 1"

definition MASK_SECP :: u32 where
  "MASK_SECP = push_bit 17 1 OR push_bit 4 1 OR push_bit 8 1 OR push_bit 9 1 OR push_bit 0 1
     OR push_bit 13 1 OR push_bit 14 1 OR push_bit 18 1"

abbreviation (input) VMX_PROCBASED_UNCONDITIONAL_IO_EXITING :: u32 where
  "VMX_PROCBASED_UNCONDITIONAL_IO_EXITING \<equiv> push_bit 24 1"

definition VCPU_disable_memory_bitmap :: "vcpu \<Rightarrow> (u32 \<times> vcpu) exec" where
  "VCPU_disable_memory_bitmap v =
     (if cpu_vendor v = CPU_VENDOR_INTEL then
        (if vmx_nested_operation_mode v = NESTED_VMX_MODE_NONROOT then do {
           val_proc \<leftarrow> vmx_vmread32 v CPU_BASED;
           val_secp \<leftarrow> vmx_vmread32 v SECCPU_BASED;
           let ans = (val_proc AND MASK_PROC) OR (val_secp AND MASK_SECP);
               val_proc = val_proc AND NOT MASK_PROC;
               val_proc = val_proc OR VMX_PROCBASED_UNCONDITIONAL_IO_EXITING;
               val_secp = val_secp AND NOT MASK_SECP
           in do {
             v \<leftarrow> vmx_vmwrite32 v CPU_BASED val_proc;
             v \<leftarrow> vmx_vmwrite32 v SECCPU_BASED val_secp;
             Some (ans, v)
           }
         }
         else Some (0, v))
      else None)"

definition VCPU_enable_memory_bitmap :: "vcpu \<Rightarrow> u32 \<Rightarrow> vcpu exec" where
  "VCPU_enable_memory_bitmap v old_state =
     (if cpu_vendor v = CPU_VENDOR_INTEL then
        (if vmx_nested_operation_mode v = NESTED_VMX_MODE_NONROOT then do {
           val_proc \<leftarrow> vmx_vmread32 v CPU_BASED;
           val_secp \<leftarrow> vmx_vmread32 v SECCPU_BASED;
           let val_proc = val_proc AND NOT VMX_PROCBASED_UNCONDITIONAL_IO_EXITING in do {
             assert_c (val_proc AND MASK_PROC = 0);
             assert_c (val_secp AND MASK_SECP = 0);
             v \<leftarrow> vmx_vmwrite32 v CPU_BASED (val_proc OR (old_state AND MASK_PROC));
             vmx_vmwrite32 v SECCPU_BASED (val_secp OR (old_state AND MASK_SECP))
           }
         }
         else do { assert_c (old_state = 0); Some v })
      else None)"

subsection \<open>General registers\<close>

definition VCPU_reg_get :: "vcpu \<Rightarrow> regs \<Rightarrow> CPU_Reg_Sel \<Rightarrow> u64 exec" where
  "VCPU_reg_get v r sel = (case sel of
     CPU_REG_AX \<Rightarrow> Some (rax r)
   | CPU_REG_CX \<Rightarrow> Some (rcx r)
   | CPU_REG_DX \<Rightarrow> Some (rdx r)
   | CPU_REG_BX \<Rightarrow> Some (rbx r)
   | CPU_REG_BP \<Rightarrow> Some (rbp r)
   | CPU_REG_SI \<Rightarrow> Some (rsi r)
   | CPU_REG_DI \<Rightarrow> Some (rdi r)
   | CPU_REG_R8 \<Rightarrow> Some (r8 r)
   | CPU_REG_R9 \<Rightarrow> Some (r9 r)
   | CPU_REG_R10 \<Rightarrow> Some (r10 r)
   | CPU_REG_R11 \<Rightarrow> Some (r11 r)
   | CPU_REG_R12 \<Rightarrow> Some (r12 r)
   | CPU_REG_R13 \<Rightarrow> Some (r13 r)
   | CPU_REG_R14 \<Rightarrow> Some (r14 r)
   | CPU_REG_R15 \<Rightarrow> Some (r15 r)
   | CPU_REG_SP \<Rightarrow> VCPU_grsp v
   | CPU_REG_FLAGS \<Rightarrow> VCPU_grflags v
   | CPU_REG_IP \<Rightarrow> VCPU_grip v)"

definition VCPU_reg_set :: "vcpu \<Rightarrow> regs \<Rightarrow> CPU_Reg_Sel \<Rightarrow> u64 \<Rightarrow> (vcpu \<times> regs) exec" where
  "VCPU_reg_set v r sel val = (case sel of
     CPU_REG_AX \<Rightarrow> Some (v, r\<lparr>rax := val\<rparr>)
   | CPU_REG_CX \<Rightarrow> Some (v, r\<lparr>rcx := val\<rparr>)
   | CPU_REG_DX \<Rightarrow> Some (v, r\<lparr>rdx := val\<rparr>)
   | CPU_REG_BX \<Rightarrow> Some (v, r\<lparr>rbx := val\<rparr>)
   | CPU_REG_BP \<Rightarrow> Some (v, r\<lparr>rbp := val\<rparr>)
   | CPU_REG_SI \<Rightarrow> Some (v, r\<lparr>rsi := val\<rparr>)
   | CPU_REG_DI \<Rightarrow> Some (v, r\<lparr>rdi := val\<rparr>)
   | CPU_REG_R8 \<Rightarrow> Some (v, r\<lparr>r8 := val\<rparr>)
   | CPU_REG_R9 \<Rightarrow> Some (v, r\<lparr>r9 := val\<rparr>)
   | CPU_REG_R10 \<Rightarrow> Some (v, r\<lparr>r10 := val\<rparr>)
   | CPU_REG_R11 \<Rightarrow> Some (v, r\<lparr>r11 := val\<rparr>)
   | CPU_REG_R12 \<Rightarrow> Some (v, r\<lparr>r12 := val\<rparr>)
   | CPU_REG_R13 \<Rightarrow> Some (v, r\<lparr>r13 := val\<rparr>)
   | CPU_REG_R14 \<Rightarrow> Some (v, r\<lparr>r14 := val\<rparr>)
   | CPU_REG_R15 \<Rightarrow> Some (v, r\<lparr>r15 := val\<rparr>)
   | CPU_REG_SP \<Rightarrow> do { v \<leftarrow> VCPU_grsp_set v val; Some (v, r) }
   | CPU_REG_FLAGS \<Rightarrow> do { v \<leftarrow> VCPU_grflags_set v val; Some (v, r) }
   | CPU_REG_IP \<Rightarrow> do { v \<leftarrow> VCPU_grip_set v val; Some (v, r) })"

subsection \<open>A register file\<close>

text \<open>
  What the emulation code relies on when it reads and writes guest registers by selector: a
  write is read back, and leaves the other registers alone.
\<close>

locale register_file =
  fixes read_reg :: "'s \<Rightarrow> 'r \<Rightarrow> 'v exec" and write_reg :: "'s \<Rightarrow> 'r \<Rightarrow> 'v \<Rightarrow> 's exec"
  assumes read_written: "write_reg s r x = Some s' \<Longrightarrow> read_reg s' r = Some x"
    and read_other: "write_reg s r x = Some s' \<Longrightarrow> r' \<noteq> r \<Longrightarrow> read_reg s' r' = read_reg s r'"
begin

fun write_regs :: "'s \<Rightarrow> ('r \<times> 'v) list \<Rightarrow> 's exec" where
  "write_regs s [] = Some s"
| "write_regs s ((r, x) # ws) = do { s' \<leftarrow> write_reg s r x; write_regs s' ws }"

lemma read_write_regs:
  "write_regs s ws = Some s' \<Longrightarrow>
   read_reg s' r = (case map_of (rev ws) r of None \<Rightarrow> read_reg s r | Some x \<Rightarrow> Some x)"
proof (induction ws arbitrary: s)
  case (Cons w ws)
  obtain q x where w: "w = (q, x)" by (cases w)
  then obtain s1 where s1: "write_reg s q x = Some s1" "write_regs s1 ws = Some s'"
    using Cons.prems by (auto simp: bind_eq_Some_conv)
  show ?case using Cons.IH [OF s1(2)] read_written [OF s1(1)] read_other [OF s1(1), of r] w
    by (cases "r = q") (auto simp: map_add_def split: option.splits)
qed simp

end

lemmas vmx_access_defs = vmx_vmwrite_def vmx_vmwrite32_def vmx_vmwriteNW_def vmx_vmread32_def vmx_vmreadNW_def

lemma hw_fields_SomeD:
  assumes "vmx_vmwriteNW v enc x = Some v'"
  shows "hw_vmcs v' = (hw_vmcs v)(enc \<mapsto> x)" "vmcs v' = vmcs v" "vmcb v' = vmcb v" "cpu_vendor v' = cpu_vendor v"
    "vmx_nested_operation_mode v' = vmx_nested_operation_mode v" "drop_bit 12 enc = 6"
  using assms by (auto simp: vmx_access_defs split: option.splits)

lemma grsp_laws:
  assumes "VCPU_grsp_set v x = Some v'"
  shows "VCPU_grsp v' = Some x" "VCPU_grflags v' = VCPU_grflags v" "VCPU_grip v' = VCPU_grip v"
  using assms
  by (auto simp: VCPU_grsp_set_def VCPU_grsp_def VCPU_grflags_def VCPU_grip_def vmx_vmreadNW_def hw_fields_SomeD
      split: if_splits)

lemma grflags_laws:
  assumes "VCPU_grflags_set v x = Some v'"
  shows "VCPU_grflags v' = Some x" "VCPU_grsp v' = VCPU_grsp v" "VCPU_grip v' = VCPU_grip v"
  using assms
  by (auto simp: VCPU_grflags_set_def VCPU_grsp_def VCPU_grflags_def VCPU_grip_def vmx_vmreadNW_def hw_fields_SomeD
      split: if_splits)

lemma grip_laws:
  assumes "VCPU_grip_set v x = Some v'"
  shows "VCPU_grip v' = Some x" "VCPU_grflags v' = VCPU_grflags v" "VCPU_grsp v' = VCPU_grsp v"
  using assms
  by (auto simp: VCPU_grip_set_def VCPU_grsp_def VCPU_grflags_def VCPU_grip_def vmx_vmreadNW_def hw_fields_SomeD
      split: if_splits)

interpretation guest_regs: register_file
    "\<lambda>(v, r) sel. VCPU_reg_get v r sel" "\<lambda>(v, r) sel x. VCPU_reg_set v r sel x"
proof
  fix s s' :: "vcpu \<times> regs" and sel sel' x
  obtain v r v' r' where s: "s = (v, r)" "s' = (v', r')" by fastforce
  assume set: "(case s of (v, r) \<Rightarrow> \<lambda>sel x. VCPU_reg_set v r sel x) sel x = Some s'"
  show "(case s' of (v, r) \<Rightarrow> \<lambda>sel. VCPU_reg_get v r sel) sel = Some x"
    using set s by (cases sel) (auto simp: VCPU_reg_set_def VCPU_reg_get_def bind_eq_Some_conv
        grsp_laws grflags_laws grip_laws)
  show "(case s' of (v, r) \<Rightarrow> \<lambda>sel. VCPU_reg_get v r sel) sel' = (case s of (v, r) \<Rightarrow> \<lambda>sel. VCPU_reg_get v r sel) sel'"
    if "sel' \<noteq> sel"
    using set s that by (cases sel; cases sel') (auto simp: VCPU_reg_set_def VCPU_reg_get_def bind_eq_Some_conv
        grsp_laws grflags_laws grip_laws)
qed

subsection \<open>Saved controls are restored\<close>

lemma vmread32_SomeD:
  assumes "vmx_vmread32 v enc = Some x"
  shows "hw_vmcs v enc = Some (ucast x)" "drop_bit 12 enc = 4"
  using assms by (auto simp: vmx_vmread32_def bind_eq_Some_conv)

lemma vmwrite32_hw:
  "drop_bit 12 enc = 4 \<Longrightarrow> hw_vmcs v enc = Some y \<Longrightarrow>
   vmx_vmwrite32 v enc x = Some (v\<lparr>hw_vmcs := (hw_vmcs v)(enc \<mapsto> ucast x)\<rparr>)"
  by (simp add: vmx_vmwrite32_def vmx_vmwrite_def)

lemma ucast_u32_u64 [simp]: "(ucast (ucast (x :: u32) :: u64) :: u32) = x"
  by (rule bit_word_eqI) (simp add: bit_simps)

lemma vmread32_hw:
  "drop_bit 12 enc = 4 \<Longrightarrow> hw_vmcs v enc = Some (ucast x) \<Longrightarrow> vmx_vmread32 v enc = Some x"
  by (simp add: vmx_vmread32_def)

lemma masked_apart: "(x AND NOT m) AND m = 0" for x m :: u32
  by (rule bit_word_eqI) (auto simp: bit_simps)

lemma bit_restored: "x AND 2 ^ k \<noteq> 0 \<Longrightarrow> (x AND NOT (2 ^ k)) OR 2 ^ k = x" for x :: u32
  by (rule bit_word_eqI) (auto simp: bit_simps and_exp_eq_0_iff_not_bit)

lemma hw_restored: "(\<And>enc. f enc = hw_vmcs v enc) \<Longrightarrow> v\<lparr>hw_vmcs := f\<rparr> = v"
proof -
  assume "\<And>enc. f enc = hw_vmcs v enc"
  then have "f = hw_vmcs v" by (rule ext)
  then show ?thesis by simp
qed

lemma interrupt_exit_restored:
  assumes "VCPU_disable_nested_interrupt_exit v = Some (st, v')"
  shows "VCPU_enable_nested_interrupt_exit v' st = Some v"
proof (cases st)
  case True
  with assms obtain x where x: "vmx_vmread32 v PIN_BASED = Some x" "x AND 1 \<noteq> 0"
    and v: "cpu_vendor v = CPU_VENDOR_INTEL" "vmx_nested_operation_mode v = NESTED_VMX_MODE_NONROOT"
    and w: "vmx_vmwrite32 v PIN_BASED (x AND NOT 1) = Some v'"
    by (auto simp: VCPU_disable_nested_interrupt_exit_def bind_eq_Some_conv split: if_splits)
  note hw = vmread32_SomeD [OF x(1)]
  have v': "v' = v\<lparr>hw_vmcs := (hw_vmcs v)(PIN_BASED \<mapsto> ucast (x AND NOT 1))\<rparr>"
    using w vmwrite32_hw [OF hw(2,1)] by simp
  show ?thesis using True v hw x(2) bit_restored [of x 0] masked_apart [of x 1]
    by (simp add: VCPU_enable_nested_interrupt_exit_def v' vmread32_hw [where x = "x AND NOT 1"] vmwrite32_hw)
      (rule hw_restored, simp)
qed (use assms in \<open>auto simp: VCPU_disable_nested_interrupt_exit_def VCPU_enable_nested_interrupt_exit_def
       bind_eq_Some_conv split: if_splits\<close>)

lemma timer_exit_restored:
  assumes "VCPU_disable_nested_timer_exit v = Some (st, v')"
  shows "VCPU_enable_nested_timer_exit v' st = Some v"
proof (cases "cpu_vendor v = CPU_VENDOR_INTEL \<and> vmx_nested_operation_mode v = NESTED_VMX_MODE_NONROOT \<and> st \<noteq> 0")
  case True
  with assms obtain x v1 y where x: "vmx_vmread32 v PIN_BASED = Some x" "x AND 0x40 \<noteq> 0"
    and w: "vmx_vmwrite32 v PIN_BASED (x AND NOT 0x40) = Some v1" and y: "vmx_vmread32 v1 EXIT_CONTROLS = Some y"
    and rest: "if y AND 0x400000 \<noteq> 0 then vmx_vmwrite32 v1 EXIT_CONTROLS (y AND NOT 0x400000) = Some v' \<and> st = 3
      else v' = v1 \<and> st = 1"
    by (auto simp: VCPU_disable_nested_timer_exit_def bind_eq_Some_conv split: if_splits)
  note hw = vmread32_SomeD [OF x(1)]
  have v1: "v1 = v\<lparr>hw_vmcs := (hw_vmcs v)(PIN_BASED \<mapsto> ucast (x AND NOT 0x40))\<rparr>"
    using w vmwrite32_hw [OF hw(2,1)] by simp
  note hy = vmread32_SomeD [OF y]
  show ?thesis
  proof (cases "y AND 0x400000 \<noteq> 0")
    case set: True
    then have v': "v' = v1\<lparr>hw_vmcs := (hw_vmcs v1)(EXIT_CONTROLS \<mapsto> ucast (y AND NOT 0x400000))\<rparr>" "st = 3"
      using rest vmwrite32_hw [OF hy(2,1)] by simp_all
    show ?thesis using True hw hy x(2) set bit_restored [of x 6] masked_apart [of x "0x40"]
        bit_restored [of y 22] masked_apart [of y "0x400000"]
      by (simp add: VCPU_enable_nested_timer_exit_def v' v1 vmread32_hw [where x = "x AND NOT 0x40"]
          vmread32_hw [where x = "y AND NOT 0x400000"] vmwrite32_hw) (rule hw_restored, simp)
  next
    case False
    then have v': "v' = v1" "st = 1" using rest by simp_all
    show ?thesis using True hw x(2) bit_restored [of x 6] masked_apart [of x "0x40"]
      by (simp add: VCPU_enable_nested_timer_exit_def v' v1 vmread32_hw [where x = "x AND NOT 0x40"] vmwrite32_hw)
        (rule hw_restored, simp)
  qed
qed (use assms in \<open>auto simp: VCPU_disable_nested_timer_exit_def VCPU_enable_nested_timer_exit_def
       bind_eq_Some_conv split: if_splits\<close>)

lemma bitmap_masks:
  fixes p s :: u32
  assumes d: "mp AND ms = 0" and u: "u AND mp = u"
  shows "(((p AND NOT mp) OR u) AND NOT u) = p AND NOT mp"
    and "(p AND NOT mp) OR (((p AND mp) OR (s AND ms)) AND mp) = p"
    and "(s AND NOT ms) OR (((p AND mp) OR (s AND ms)) AND ms) = s"
proof -
  have d': "\<not> (bit mp n \<and> bit ms n)" for n using d by (metis bit_and_iff bit_0_eq bot_apply bot_bool_def)
  have u': "bit u n \<Longrightarrow> bit mp n" for n using u by (metis bit_and_iff)
  show "(((p AND NOT mp) OR u) AND NOT u) = p AND NOT mp"
    by (rule bit_word_eqI) (auto simp: bit_simps dest: u')
  show "(p AND NOT mp) OR (((p AND mp) OR (s AND ms)) AND mp) = p"
    by (rule bit_word_eqI) (use d' in \<open>auto simp: bit_simps\<close>)
  show "(s AND NOT ms) OR (((p AND mp) OR (s AND ms)) AND ms) = s"
    by (rule bit_word_eqI) (use d' in \<open>auto simp: bit_simps\<close>)
qed

lemma masks_disjoint: "MASK_PROC AND MASK_SECP = 0" "push_bit 24 1 AND MASK_PROC = push_bit 24 1"
  by (simp_all add: MASK_PROC_def MASK_SECP_def)

lemma memory_bitmap_restored:
  assumes "VCPU_disable_memory_bitmap v = Some (st, v')"
  shows "VCPU_enable_memory_bitmap v' st = Some v"
proof (cases "cpu_vendor v = CPU_VENDOR_INTEL \<and> vmx_nested_operation_mode v = NESTED_VMX_MODE_NONROOT")
  case True
  let ?u = "push_bit 24 1 :: u32"
  from True assms obtain p s v1 where p: "vmx_vmread32 v CPU_BASED = Some p" and s: "vmx_vmread32 v SECCPU_BASED = Some s"
    and w: "vmx_vmwrite32 v CPU_BASED ((p AND NOT MASK_PROC) OR ?u) = Some v1"
      "vmx_vmwrite32 v1 SECCPU_BASED (s AND NOT MASK_SECP) = Some v'"
    and st: "st = (p AND MASK_PROC) OR (s AND MASK_SECP)"
    by (auto simp: VCPU_disable_memory_bitmap_def Let_def bind_eq_Some_conv)
  note hp = vmread32_SomeD [OF p] and hs = vmread32_SomeD [OF s]
  have v1: "v1 = v\<lparr>hw_vmcs := (hw_vmcs v)(CPU_BASED \<mapsto> ucast ((p AND NOT MASK_PROC) OR ?u))\<rparr>"
    using w(1) vmwrite32_hw [OF hp(2,1)] by simp
  then have h1: "hw_vmcs v1 SECCPU_BASED = Some (ucast s)" using hs by simp
  have v': "v' = v1\<lparr>hw_vmcs := (hw_vmcs v1)(SECCPU_BASED \<mapsto> ucast (s AND NOT MASK_SECP))\<rparr>"
    using w(2) vmwrite32_hw [OF hs(2) h1] by simp
  have r: "vmx_vmread32 v' CPU_BASED = Some ((p AND NOT MASK_PROC) OR ?u)"
    "vmx_vmread32 v' SECCPU_BASED = Some (s AND NOT MASK_SECP)"
    unfolding v' v1 by (rule vmread32_hw; simp)+
  note m = bitmap_masks(1) [OF masks_disjoint, of p]
    bitmap_masks(2,3) [OF masks_disjoint, where p = p and s = s]
  have "VCPU_enable_memory_bitmap v' st =
      Some (v'\<lparr>hw_vmcs := (hw_vmcs v')(CPU_BASED \<mapsto> ucast p, SECCPU_BASED \<mapsto> ucast s)\<rparr>)"
    using True r m masked_apart unfolding VCPU_enable_memory_bitmap_def st
    by (simp add: v' v1 vmwrite32_hw Let_def)
  also have "\<dots> = Some v" using hp hs unfolding v' v1 by simp (rule hw_restored, simp)
  finally show ?thesis .
qed (use assms in \<open>auto simp: VCPU_disable_memory_bitmap_def VCPU_enable_memory_bitmap_def split: if_splits\<close>)

end
