(* ===== verification/Eptlock.thy ===== *)
theory Eptlock
  imports Prelude
begin

text \<open>
  The reader-writer lock that protects software walks of the EPT,
  \<^verbatim>\<open>memp-x86vmx-eptlock.c\<close>. The lock functions run on several CPUs at once, so they are
  modelled as an interleaving: a program counter per CPU and one rule per statement that touches
  a shared variable. A \<open>HALT_ON_ERRORCOND\<close> on a flag and the assignment to the same flag right
  after it are one rule: the flag has a single writer at that point (the holder of the
  spin lock, or the CPU that owns the flag). The other statements of one function have a memory barrier
  (\<open>mb()\<close>) between them in the code, so the statements are taken as atomic and sequentially
  consistent. A busy-wait loop is a statement that is enabled once its condition allows to
  leave it. A failed \<open>HALT_ON_ERRORCOND\<close> takes the CPU to \<open>Halted\<close>.
  The functions at the end are the lock operations as one CPU sees them when
  no other CPU moves; they are runs of the interleaving.
\<close>

record eptlock = mach +
  g_eptlock_write_lock :: u32
  g_eptlock_write_pending :: bool
  vmx_eptlock_reading :: "nat \<Rightarrow> bool"

datatype pc =
  Idle
| W_spin
| W_set_pending
| W_wait nat
| W_locked
| W_clear_pending
| W_spin_unlock
| R_check
| R_wait
| R_set
| R_test
| R_clear
| R_locked
| R_unlock
| Halted

type_synonym 'x lock_conf = "(nat \<Rightarrow> pc) \<times> 'x eptlock_scheme"

text \<open>
  One step of CPU \<open>c\<close> out of \<open>g_midtable_numentries\<close> CPUs. Spin lock values: 1 is free, 0 is taken
  (\<^verbatim>\<open>bplt-x86-amd64-smplock.S\<close>).
\<close>

inductive lock_step :: "nat \<Rightarrow> 'x lock_conf \<Rightarrow> nat \<Rightarrow> 'x lock_conf \<Rightarrow> bool"
  for g_midtable_numentries :: nat where
  write_call: "p c = Idle \<Longrightarrow> c < g_midtable_numentries \<Longrightarrow>
    lock_step g_midtable_numentries (p, s) c (p(c := W_spin), s)"
| spin_lock: "p c = W_spin \<Longrightarrow> g_eptlock_write_lock s = 1 \<Longrightarrow>
    lock_step g_midtable_numentries (p, s) c (p(c := W_set_pending), s\<lparr>g_eptlock_write_lock := 0\<rparr>)"
| set_pending: "p c = W_set_pending \<Longrightarrow> \<not> g_eptlock_write_pending s \<Longrightarrow>
    lock_step g_midtable_numentries (p, s) c (p(c := W_wait 0), s\<lparr>g_eptlock_write_pending := True\<rparr>)"
| set_pending_halt: "p c = W_set_pending \<Longrightarrow> g_eptlock_write_pending s \<Longrightarrow>
    lock_step g_midtable_numentries (p, s) c (p(c := Halted), s)"
| wait_reader: "p c = W_wait i \<Longrightarrow> i < g_midtable_numentries \<Longrightarrow> \<not> vmx_eptlock_reading s i \<Longrightarrow>
    lock_step g_midtable_numentries (p, s) c (p(c := W_wait (Suc i)), s)"
| wait_end: "p c = W_wait i \<Longrightarrow> \<not> i < g_midtable_numentries \<Longrightarrow>
    lock_step g_midtable_numentries (p, s) c (p(c := W_locked), s)"
| unlock_call: "p c = W_locked \<Longrightarrow>
    lock_step g_midtable_numentries (p, s) c (p(c := W_clear_pending), s)"
| clear_pending: "p c = W_clear_pending \<Longrightarrow> g_eptlock_write_pending s \<Longrightarrow>
    lock_step g_midtable_numentries (p, s) c (p(c := W_spin_unlock), s\<lparr>g_eptlock_write_pending := False\<rparr>)"
| clear_pending_halt: "p c = W_clear_pending \<Longrightarrow> \<not> g_eptlock_write_pending s \<Longrightarrow>
    lock_step g_midtable_numentries (p, s) c (p(c := Halted), s)"
| spin_unlock: "p c = W_spin_unlock \<Longrightarrow>
    lock_step g_midtable_numentries (p, s) c (p(c := Idle), s\<lparr>g_eptlock_write_lock := 1\<rparr>)"
| read_call: "p c = Idle \<Longrightarrow> c < g_midtable_numentries \<Longrightarrow>
    lock_step g_midtable_numentries (p, s) c (p(c := R_check), s)"
| read_check: "p c = R_check \<Longrightarrow> \<not> vmx_eptlock_reading s c \<Longrightarrow>
    lock_step g_midtable_numentries (p, s) c (p(c := R_wait), s)"
| read_check_halt: "p c = R_check \<Longrightarrow> vmx_eptlock_reading s c \<Longrightarrow>
    lock_step g_midtable_numentries (p, s) c (p(c := Halted), s)"
| read_wait: "p c = R_wait \<Longrightarrow> \<not> g_eptlock_write_pending s \<Longrightarrow>
    lock_step g_midtable_numentries (p, s) c (p(c := R_set), s)"
| read_set: "p c = R_set \<Longrightarrow>
    lock_step g_midtable_numentries (p, s) c
      (p(c := R_test), s\<lparr>vmx_eptlock_reading := (vmx_eptlock_reading s)(c := True)\<rparr>)"
| read_break: "p c = R_test \<Longrightarrow> \<not> g_eptlock_write_pending s \<Longrightarrow>
    lock_step g_midtable_numentries (p, s) c (p(c := R_locked), s)"
| read_retry: "p c = R_test \<Longrightarrow> g_eptlock_write_pending s \<Longrightarrow>
    lock_step g_midtable_numentries (p, s) c (p(c := R_clear), s)"
| read_clear: "p c = R_clear \<Longrightarrow>
    lock_step g_midtable_numentries (p, s) c
      (p(c := R_wait), s\<lparr>vmx_eptlock_reading := (vmx_eptlock_reading s)(c := False)\<rparr>)"
| read_unlock_call: "p c = R_locked \<Longrightarrow>
    lock_step g_midtable_numentries (p, s) c (p(c := R_unlock), s)"
| read_unlock: "p c = R_unlock \<Longrightarrow> vmx_eptlock_reading s c \<Longrightarrow>
    lock_step g_midtable_numentries (p, s) c
      (p(c := Idle), s\<lparr>vmx_eptlock_reading := (vmx_eptlock_reading s)(c := False)\<rparr>)"
| read_unlock_halt: "p c = R_unlock \<Longrightarrow> \<not> vmx_eptlock_reading s c \<Longrightarrow>
    lock_step g_midtable_numentries (p, s) c (p(c := Halted), s)"

inductive lock_reach :: "nat \<Rightarrow> 'x lock_conf \<Rightarrow> bool" for n where
  init: "g_eptlock_write_lock s = 1 \<Longrightarrow> \<not> g_eptlock_write_pending s \<Longrightarrow> (\<And>c. \<not> vmx_eptlock_reading s c) \<Longrightarrow>
    lock_reach n (\<lambda>c. Idle, s)"
| step: "lock_reach n conf \<Longrightarrow> lock_step n conf c conf' \<Longrightarrow> lock_reach n conf'"

subsection \<open>The operations as seen by one CPU while no other moves\<close>

definition memprot_x86vmx_eptlock_read_lock :: "nat \<Rightarrow> 'x eptlock_scheme \<Rightarrow> 'x eptlock_scheme exec" where
  "memprot_x86vmx_eptlock_read_lock c s = do {
     assert_c (\<not> vmx_eptlock_reading s c);
     if g_eptlock_write_pending s then None
     else Some (s\<lparr>vmx_eptlock_reading := (vmx_eptlock_reading s)(c := True)\<rparr>)
   }"

definition memprot_x86vmx_eptlock_read_unlock :: "nat \<Rightarrow> 'x eptlock_scheme \<Rightarrow> 'x eptlock_scheme exec" where
  "memprot_x86vmx_eptlock_read_unlock c s = do {
     assert_c (vmx_eptlock_reading s c);
     Some (s\<lparr>vmx_eptlock_reading := (vmx_eptlock_reading s)(c := False)\<rparr>)
   }"

definition memprot_x86vmx_eptlock_write_lock :: "nat \<Rightarrow> 'x eptlock_scheme \<Rightarrow> 'x eptlock_scheme exec" where
  "memprot_x86vmx_eptlock_write_lock n s =
     (if g_eptlock_write_lock s \<noteq> 1 then None
      else do {
        assert_c (\<not> g_eptlock_write_pending s);
        if \<exists>i < n. vmx_eptlock_reading s i then None
        else Some (s\<lparr>g_eptlock_write_lock := 0, g_eptlock_write_pending := True\<rparr>)
      })"

definition memprot_x86vmx_eptlock_write_unlock :: "'x eptlock_scheme \<Rightarrow> 'x eptlock_scheme exec" where
  "memprot_x86vmx_eptlock_write_unlock s = do {
     assert_c (g_eptlock_write_pending s);
     Some (s\<lparr>g_eptlock_write_pending := False, g_eptlock_write_lock := 1\<rparr>)
   }"

subsection \<open>Invariant\<close>

fun writer :: "pc \<Rightarrow> bool" where
  "writer W_set_pending = True"
| "writer (W_wait i) = True"
| "writer W_locked = True"
| "writer W_clear_pending = True"
| "writer W_spin_unlock = True"
| "writer _ = False"

fun announced :: "pc \<Rightarrow> bool" where
  "announced (W_wait i) = True"
| "announced W_locked = True"
| "announced W_clear_pending = True"
| "announced _ = False"

fun flagged :: "pc \<Rightarrow> bool" where
  "flagged R_test = True"
| "flagged R_clear = True"
| "flagged R_locked = True"
| "flagged R_unlock = True"
| "flagged _ = False"

definition read_section :: "pc \<Rightarrow> bool" where
  "read_section q \<longleftrightarrow> q = R_locked \<or> q = R_unlock"

definition write_section :: "pc \<Rightarrow> bool" where
  "write_section q \<longleftrightarrow> q = W_locked \<or> q = W_clear_pending"

fun scan_done :: "pc \<Rightarrow> nat \<Rightarrow> bool" where
  "scan_done (W_wait i) c = (c < i)"
| "scan_done W_locked c = True"
| "scan_done W_clear_pending c = True"
| "scan_done _ c = False"

definition lock_inv :: "nat \<Rightarrow> 'x lock_conf \<Rightarrow> bool" where
  "lock_inv n conf \<longleftrightarrow> (case conf of (p, s) \<Rightarrow>
     (\<forall>c. p c \<noteq> Idle \<longrightarrow> c < n)
     \<and> (\<forall>c. p c \<noteq> Halted)
     \<and> (\<forall>c d. writer (p c) \<longrightarrow> writer (p d) \<longrightarrow> c = d)
     \<and> (g_eptlock_write_lock s = (if \<exists>c. writer (p c) then 0 else 1))
     \<and> (g_eptlock_write_pending s \<longleftrightarrow> (\<exists>c. announced (p c)))
     \<and> (\<forall>c. vmx_eptlock_reading s c \<longleftrightarrow> flagged (p c))
     \<and> (\<forall>c d. scan_done (p c) d \<longrightarrow> \<not> read_section (p d)))"

text \<open>The part of the invariant that does not depend on CPU \<open>c\<close>.\<close>

definition others_inv :: "nat \<Rightarrow> (nat \<Rightarrow> pc) \<Rightarrow> nat \<Rightarrow> 'x eptlock_scheme \<Rightarrow> bool" where
  "others_inv n p c s \<longleftrightarrow>
     (\<forall>d. d \<noteq> c \<longrightarrow> p d \<noteq> Idle \<longrightarrow> d < n)
     \<and> (\<forall>d. d \<noteq> c \<longrightarrow> p d \<noteq> Halted)
     \<and> (\<forall>d e. d \<noteq> c \<longrightarrow> e \<noteq> c \<longrightarrow> writer (p d) \<longrightarrow> writer (p e) \<longrightarrow> d = e)
     \<and> (\<forall>d. d \<noteq> c \<longrightarrow> vmx_eptlock_reading s d = flagged (p d))
     \<and> (\<forall>d e. d \<noteq> c \<longrightarrow> e \<noteq> c \<longrightarrow> scan_done (p d) e \<longrightarrow> \<not> read_section (p e))"

text \<open>
  How many steps a CPU can still take while a writer waits, and their sum: a reader that has
  set its flag before the writer was announced runs to its end, backs off, and is stopped by the pending flag.
\<close>

fun rank :: "nat \<Rightarrow> pc \<Rightarrow> nat" where
  "rank n (W_wait i) = Suc (n - i)"
| "rank n R_locked = 4"
| "rank n R_unlock = 3"
| "rank n Idle = 2"
| "rank n R_check = 1"
| "rank n R_set = 3"
| "rank n R_test = 2"
| "rank n R_clear = 1"
| "rank n _ = 0"

definition work :: "nat \<Rightarrow> (nat \<Rightarrow> pc) \<Rightarrow> nat" where
  "work n p = (\<Sum>d<n. rank n (p d))"

text \<open>Runs in which only CPU \<open>c\<close> moves.\<close>

inductive cpu_run :: "nat \<Rightarrow> nat \<Rightarrow> 'x lock_conf \<Rightarrow> 'x lock_conf \<Rightarrow> bool" for n c where
  stop: "cpu_run n c conf conf"
| move: "lock_step n conf c conf' \<Longrightarrow> cpu_run n c conf' conf'' \<Longrightarrow> cpu_run n c conf conf''"

subsection \<open>The invariant is preserved\<close>

lemma announced_writer: "announced q \<Longrightarrow> writer q" by (cases q) auto

lemma ex_upd: "(\<exists>d. P ((p(c := q)) d)) \<longleftrightarrow> P q \<or> (\<exists>d. d \<noteq> c \<and> P (p d))"
  by auto

lemma all_upd: "(\<forall>d. P d ((p(c := q)) d)) \<longleftrightarrow> P c q \<and> (\<forall>d. d \<noteq> c \<longrightarrow> P d (p d))"
  by auto

lemma all_upd2: "(\<forall>d e. P d e ((p(c := q)) d) ((p(c := q)) e)) \<longleftrightarrow>
    P c c q q \<and> (\<forall>d. d \<noteq> c \<longrightarrow> P c d q (p d)) \<and> (\<forall>d. d \<noteq> c \<longrightarrow> P d c (p d) q)
      \<and> (\<forall>d e. d \<noteq> c \<longrightarrow> e \<noteq> c \<longrightarrow> P d e (p d) (p e))"
  by auto

lemma lock_inv_upd:
  "lock_inv n (p(c := q), s) \<longleftrightarrow>
     others_inv n p c s \<and> (q \<noteq> Idle \<longrightarrow> c < n) \<and> q \<noteq> Halted
     \<and> (\<forall>d. d \<noteq> c \<longrightarrow> writer q \<longrightarrow> writer (p d) \<longrightarrow> c = d)
     \<and> (\<forall>d. d \<noteq> c \<longrightarrow> writer (p d) \<longrightarrow> writer q \<longrightarrow> d = c)
     \<and> g_eptlock_write_lock s = (if writer q \<or> (\<exists>d. d \<noteq> c \<and> writer (p d)) then 0 else 1)
     \<and> (g_eptlock_write_pending s \<longleftrightarrow> announced q \<or> (\<exists>d. d \<noteq> c \<and> announced (p d)))
     \<and> (vmx_eptlock_reading s c \<longleftrightarrow> flagged q)
     \<and> (scan_done q c \<longrightarrow> \<not> read_section q)
     \<and> (\<forall>d. d \<noteq> c \<longrightarrow> scan_done q d \<longrightarrow> \<not> read_section (p d))
     \<and> (\<forall>d. d \<noteq> c \<longrightarrow> scan_done (p d) c \<longrightarrow> \<not> read_section q)"
  unfolding lock_inv_def prod.case others_inv_def ex_upd
    all_upd [where P = "\<lambda>d q. q \<noteq> Idle \<longrightarrow> d < n"] all_upd [where P = "\<lambda>d q. q \<noteq> Halted"]
    all_upd [where P = "\<lambda>d q. vmx_eptlock_reading s d \<longleftrightarrow> flagged q"]
    all_upd2 [where P = "\<lambda>d e q r. writer q \<longrightarrow> writer r \<longrightarrow> d = e"]
    all_upd2 [where P = "\<lambda>d e q r. scan_done q e \<longrightarrow> \<not> read_section r"]
  by (simp only: conj_ac simp_thms)

lemma others_inv_simps [simp]:
  "others_inv n p c (s\<lparr>g_eptlock_write_lock := x\<rparr>) = others_inv n p c s"
  "others_inv n p c (s\<lparr>g_eptlock_write_pending := b\<rparr>) = others_inv n p c s"
  "others_inv n p c (s\<lparr>vmx_eptlock_reading := (vmx_eptlock_reading s)(c := b)\<rparr>) = others_inv n p c s"
  by (simp_all add: others_inv_def)

lemma lock_inv_pcD: "lock_inv n (p, s) \<Longrightarrow> p c = q \<Longrightarrow> lock_inv n (p(c := q), s)"
  by (simp add: fun_upd_idem)

lemma scanned_announced: "scan_done q d \<Longrightarrow> announced q"
  by (cases q) auto

lemma wait_scanned:
  assumes "others_inv n p c s" "\<not> vmx_eptlock_reading s i" "\<forall>d. d \<noteq> c \<longrightarrow> d < i \<longrightarrow> \<not> read_section (p d)" "d \<noteq> c" "d < Suc i"
  shows "\<not> read_section (p d)"
proof (cases "d = i")
  case True
  with assms have "\<not> flagged (p d)" by (auto simp: others_inv_def)
  then show ?thesis by (auto simp: read_section_def)
qed (use assms in auto)

lemma scan_complete:
  assumes "others_inv n p c s" "\<not> i < n" "\<forall>d. d \<noteq> c \<longrightarrow> d < i \<longrightarrow> \<not> read_section (p d)" "d \<noteq> c"
  shows "\<not> read_section (p d)"
proof (cases "d < n")
  case False
  with assms have "p d = Idle" by (auto simp: others_inv_def)
  then show ?thesis by (simp add: read_section_def)
qed (use assms in auto)

lemma read_section_simps [simp]:
  "read_section R_locked" "read_section R_unlock"
  "\<not> read_section Idle" "\<not> read_section W_spin" "\<not> read_section W_set_pending" "\<not> read_section (W_wait i)" "\<not> read_section W_locked"
  "\<not> read_section W_clear_pending" "\<not> read_section W_spin_unlock" "\<not> read_section R_check" "\<not> read_section R_wait"
  "\<not> read_section R_set" "\<not> read_section R_test" "\<not> read_section R_clear" "\<not> read_section Halted"
  by (simp_all add: read_section_def)

lemma lock_inv_step:
  "lock_step n conf c conf' \<Longrightarrow> lock_inv n conf \<Longrightarrow> lock_inv n conf'"
  by (induction rule: lock_step.induct; drule (1) lock_inv_pcD)
    (auto simp: lock_inv_upd split: if_splits
      dest: announced_writer scanned_announced wait_scanned scan_complete)

lemma lock_reach_inv: "lock_reach n conf \<Longrightarrow> lock_inv n conf"
proof (induction rule: lock_reach.induct)
  case (init s)
  then show ?case by (simp add: lock_inv_def)
next
  case (step conf c conf')
  then show ?case by (blast intro: lock_inv_step)
qed

lemma lock_inv_mutex:
  assumes "lock_inv n (p, s)" "write_section (p c)" "d \<noteq> c"
  shows "\<not> write_section (p d) \<and> \<not> read_section (p d)"
proof -
  have "writer (p c)" "scan_done (p c) d" using assms(2) by (auto simp: write_section_def)
  moreover have "write_section (p d) \<Longrightarrow> writer (p d)" by (auto simp: write_section_def)
  ultimately show ?thesis using assms(1,3) unfolding lock_inv_def by blast
qed

lemma flagged_step: "flagged (p c) \<Longrightarrow> \<exists>p' s'. lock_step n (p, s) c (p', s')"
  by (cases "p c"; cases "g_eptlock_write_pending s"; cases "vmx_eptlock_reading s c"; simp) (blast intro: lock_step.intros)+

lemma writer_step:
  "writer (p c) \<Longrightarrow> (\<And>d. \<not> vmx_eptlock_reading s d) \<Longrightarrow> \<exists>p' s'. lock_step n (p, s) c (p', s')"
  by (cases "p c"; cases "g_eptlock_write_pending s"; simp) (blast intro: lock_step.intros)+

lemma free_step:
  assumes "g_eptlock_write_lock s = 1" "\<not> g_eptlock_write_pending s" "\<not> writer (p c)" "\<not> flagged (p c)" "p c \<noteq> Idle" "p c \<noteq> Halted"
  shows "\<exists>p' s'. lock_step n (p, s) c (p', s')"
  using assms by (cases "p c"; cases "vmx_eptlock_reading s c"; simp) (blast intro: lock_step.intros)+

lemma lock_inv_progress:
  assumes inv: "lock_inv n (p, s)" and "p c \<noteq> Idle"
  shows "\<exists>d p' s'. p d \<noteq> Idle \<and> lock_step n (p, s) d (p', s')"
proof (cases "\<exists>d. flagged (p d)")
  case True
  then obtain d where "flagged (p d)" ..
  then show ?thesis using flagged_step [of p d n s] flagged.simps(5) by metis
next
  case False
  then have nr: "\<not> vmx_eptlock_reading s d" for d using inv by (auto simp: lock_inv_def)
  show ?thesis
  proof (cases "\<exists>d. writer (p d)")
    case True
    then obtain d where "writer (p d)" ..
    then show ?thesis using writer_step [of p d s n] nr writer.simps(6) by metis
  next
    case none: False
    then have "g_eptlock_write_lock s = 1" "\<not> g_eptlock_write_pending s" "p c \<noteq> Halted"
      using inv by (auto simp: lock_inv_def dest: announced_writer)
    then show ?thesis using free_step [of s p c n] none False assms(2) by blast
  qed
qed

subsection \<open>Bounded waiting of the writer\<close>

lemma work_upd_less:
  assumes "c < n" "rank n q < rank n (p c)"
  shows "work n (p(c := q)) < work n p"
  unfolding work_def
  by (rule sum_strict_mono_ex1) (use assms in auto)

lemma wait_step_rank:
  assumes "lock_step n (p, s) c (p', s')" "lock_inv n (p, s)" "p w = W_wait i"
  shows "\<exists>q. p' = p(c := q) \<and> c < n \<and> rank n q < rank n (p c) \<and> (c = w \<longrightarrow> q = W_locked \<or> (\<exists>j. q = W_wait j))"
proof -
  have inv: "g_eptlock_write_pending s" "g_eptlock_write_lock s = 0" "\<And>d. writer (p d) \<Longrightarrow> d = w"
      "\<And>d. p d \<noteq> Idle \<Longrightarrow> d < n" "\<And>d. vmx_eptlock_reading s d = flagged (p d)"
    using assms(2,3) unfolding lock_inv_def prod.case by (metis announced.simps(1) writer.simps(2))+
  show ?thesis
    using assms(1)
  proof (cases rule: lock_step.cases)
  qed (use inv(1,2,5) assms(3) inv(3) [of c] inv(4) [of c] in auto)
qed

lemma work_bound:
  assumes "lock_inv n (p, s)" "p w = W_wait i"
  shows "work n p < 5 * n + 1"
proof -
  have w: "w < n" and one: "\<And>d. d \<noteq> w \<Longrightarrow> \<not> writer (p d)"
    using assms unfolding lock_inv_def prod.case by (metis pc.distinct(5), metis writer.simps(2))
  have r: "rank n (p d) \<le> 4" if "d \<noteq> w" for d
    using one [OF that] by (cases "p d") auto
  have "work n p = rank n (p w) + (\<Sum>d\<in>{..<n} - {w}. rank n (p d))"
    unfolding work_def using w by (subst sum.remove [of _ w]) auto
  also have "\<dots> \<le> Suc n + (\<Sum>d\<in>{..<n} - {w}. 4)"
    using r by (intro add_mono sum_mono) (auto simp: assms(2))
  also have "\<dots> = Suc n + 4 * (n - 1)" using w by simp
  finally show ?thesis using w by linarith
qed

lemma wait_trace:
  assumes reach: "lock_reach n (tr 0)" and wait: "fst (tr 0) w = W_wait i"
    and step: "\<And>k. k < N \<Longrightarrow> lock_step n (tr k) (cpu k) (tr (Suc k))"
    and no: "\<And>k. k \<le> N \<Longrightarrow> fst (tr k) w \<noteq> W_locked"
  shows "k \<le> N \<Longrightarrow> lock_inv n (tr k) \<and> (\<exists>j. fst (tr k) w = W_wait j) \<and> work n (fst (tr k)) + k \<le> work n (fst (tr 0))"
proof (induction k)
  case 0
  then show ?case using lock_reach_inv [OF reach] wait by simp
next
  case (Suc k)
  then obtain j where k: "lock_inv n (tr k)" "fst (tr k) w = W_wait j" "work n (fst (tr k)) + k \<le> work n (fst (tr 0))"
    by auto
  obtain p s p' s' where tr: "tr k = (p, s)" "tr (Suc k) = (p', s')" by (cases "tr k"; cases "tr (Suc k)")
  have st: "lock_step n (p, s) (cpu k) (p', s')" using step [of k] Suc.prems tr by simp
  obtain q where q: "p' = p(cpu k := q)" "cpu k < n" "rank n q < rank n (p (cpu k))"
      "cpu k = w \<longrightarrow> q = W_locked \<or> (\<exists>j. q = W_wait j)"
    using wait_step_rank [OF st, of w j] k tr by auto
  have "work n p' < work n p" using q by (simp add: work_upd_less)
  moreover have "lock_inv n (p', s')" using lock_inv_step [OF st] k tr by simp
  moreover have "\<exists>j. p' w = W_wait j" using q k(2) no [of "Suc k"] Suc.prems tr by (cases "cpu k = w") auto
  ultimately show ?case using k tr by auto
qed

lemma wait_bounded:
  assumes "lock_reach n (tr 0)" "fst (tr 0) w = W_wait i" "\<forall>k < 5 * n + 1. lock_step n (tr k) (cpu k) (tr (Suc k))"
  shows "\<exists>k \<le> 5 * n + 1. fst (tr k) w = W_locked"
proof (rule ccontr)
  assume "\<not> ?thesis"
  then have no: "\<And>k. k \<le> 5 * n + 1 \<Longrightarrow> fst (tr k) w \<noteq> W_locked" by auto
  have "work n (fst (tr (5 * n + 1))) + (5 * n + 1) \<le> work n (fst (tr 0))"
    using wait_trace [of n tr w i "5 * n + 1" cpu "5 * n + 1"] assms no by blast
  moreover have "work n (fst (tr 0)) < 5 * n + 1"
    using work_bound lock_reach_inv [OF assms(1)] assms(2) by (cases "tr 0") auto
  ultimately show False by linarith
qed

subsection \<open>The sequential operations are runs of the interleaving\<close>

lemma cpu_run_wait:
  assumes "\<And>i. i < n \<Longrightarrow> \<not> vmx_eptlock_reading s i"
  shows "p c = W_wait i \<Longrightarrow> i \<le> n \<Longrightarrow> cpu_run n c (p, s) (p(c := W_locked), s)"
proof (induction "n - i" arbitrary: i p)
  case 0
  then show ?case by (intro cpu_run.move [OF lock_step.wait_end cpu_run.stop]) auto
next
  case (Suc k)
  have "lock_step n (p, s) c (p(c := W_wait (Suc i)), s)"
    using Suc assms by (intro lock_step.wait_reader) auto
  moreover have "cpu_run n c (p(c := W_wait (Suc i)), s) ((p(c := W_wait (Suc i)))(c := W_locked), s)"
    using Suc.hyps(2) Suc.prems(2) by (intro Suc.hyps(1) [of "Suc i"]) auto
  ultimately show ?case by (auto intro: cpu_run.move)
qed

lemma write_lock_run:
  assumes "memprot_x86vmx_eptlock_write_lock n s = Some s'" "p c = Idle" "c < n"
  shows "cpu_run n c (p, s) (p(c := W_locked), s')"
proof -
  have s: "g_eptlock_write_lock s = 1" "\<not> g_eptlock_write_pending s" "\<And>i. i < n \<Longrightarrow> \<not> vmx_eptlock_reading s i"
    and s': "s' = s\<lparr>g_eptlock_write_lock := 0, g_eptlock_write_pending := True\<rparr>"
    using assms(1) by (auto simp: memprot_x86vmx_eptlock_write_lock_def split: if_splits)
  have "cpu_run n c (p(c := W_wait 0), s') ((p(c := W_wait 0))(c := W_locked), s')"
    using s s' by (intro cpu_run_wait) auto
  then have "cpu_run n c (p(c := W_set_pending), s\<lparr>g_eptlock_write_lock := 0\<rparr>) (p(c := W_locked), s')"
    using lock_step.set_pending [of "p(c := W_set_pending)" c "s\<lparr>g_eptlock_write_lock := 0\<rparr>" n] s s'
    by (auto intro: cpu_run.move)
  then show ?thesis
    using lock_step.spin_lock [of "p(c := W_spin)" c s n] lock_step.write_call [of p c n s] s assms
    by (auto intro: cpu_run.move)
qed

lemma write_unlock_run:
  assumes "memprot_x86vmx_eptlock_write_unlock s = Some s'" "p c = W_locked"
  shows "cpu_run n c (p, s) (p(c := Idle), s')"
  using assms lock_step.unlock_call [of p c n s] lock_step.clear_pending [of "p(c := W_clear_pending)" c s n]
    lock_step.spin_unlock [of "p(c := W_spin_unlock)" c n "s\<lparr>g_eptlock_write_pending := False\<rparr>"]
  by (auto simp: memprot_x86vmx_eptlock_write_unlock_def
      intro: cpu_run.move [OF _ cpu_run.move [OF _ cpu_run.move [OF _ cpu_run.stop]]])

lemma read_lock_run:
  assumes "memprot_x86vmx_eptlock_read_lock c s = Some s'" "p c = Idle" "c < n"
  shows "cpu_run n c (p, s) (p(c := R_locked), s')"
proof -
  have s: "\<not> vmx_eptlock_reading s c" "\<not> g_eptlock_write_pending s"
    and s': "s' = s\<lparr>vmx_eptlock_reading := (vmx_eptlock_reading s)(c := True)\<rparr>"
    using assms(1) by (auto simp: memprot_x86vmx_eptlock_read_lock_def split: if_splits)
  have "cpu_run n c (p(c := R_set), s) (p(c := R_locked), s')"
    using lock_step.read_set [of "p(c := R_set)" c n s] lock_step.read_break [of "p(c := R_test)" c s' n] s s'
    by (auto intro: cpu_run.move [OF _ cpu_run.move [OF _ cpu_run.stop]])
  then show ?thesis
    using lock_step.read_call [of p c n s] lock_step.read_check [of "p(c := R_check)" c s n]
      lock_step.read_wait [of "p(c := R_wait)" c s n] s assms
    by (auto intro: cpu_run.move [OF _ cpu_run.move [OF _ cpu_run.move]])
qed

lemma read_unlock_run:
  assumes "memprot_x86vmx_eptlock_read_unlock c s = Some s'" "p c = R_locked"
  shows "cpu_run n c (p, s) (p(c := Idle), s')"
  using assms lock_step.read_unlock_call [of p c n s] lock_step.read_unlock [of "p(c := R_unlock)" c s n]
  by (auto simp: memprot_x86vmx_eptlock_read_unlock_def intro: cpu_run.move [OF _ cpu_run.move [OF _ cpu_run.stop]])

subsection \<open>Properties\<close>

lemma reach_cpu_run: "cpu_run n c conf conf' \<Longrightarrow> lock_reach n conf \<Longrightarrow> lock_reach n conf'"
  by (induction rule: cpu_run.induct) (auto intro: lock_reach.step)

text \<open>The state after boot, and CPU 0 inside its write section, as examples.\<close>

definition boot_lock :: eptlock where
  "boot_lock = \<lparr>mem = (\<lambda>_. 0), g_eptlock_write_lock = 1, g_eptlock_write_pending = False,
     vmx_eptlock_reading = (\<lambda>_. False)\<rparr>"

lemma boot_reach: "lock_reach n (\<lambda>_. Idle, boot_lock)"
  by (rule lock_reach.init) (simp_all add: boot_lock_def)

lemma write_locked_reach:
  assumes "0 < n"
  shows "lock_reach n ((\<lambda>_. Idle)(0 := W_locked), boot_lock\<lparr>g_eptlock_write_lock := 0, g_eptlock_write_pending := True\<rparr>)"
proof (rule reach_cpu_run [OF _ boot_reach])
  have "memprot_x86vmx_eptlock_write_lock n boot_lock =
      Some (boot_lock\<lparr>g_eptlock_write_lock := 0, g_eptlock_write_pending := True\<rparr>)"
    by (simp add: memprot_x86vmx_eptlock_write_lock_def boot_lock_def)
  then show "cpu_run n 0 (\<lambda>_. Idle, boot_lock)
      ((\<lambda>_. Idle)(0 := W_locked), boot_lock\<lparr>g_eptlock_write_lock := 0, g_eptlock_write_pending := True\<rparr>)"
    using assms by (intro write_lock_run) simp_all
qed

lemma write_waiting_reach:
  assumes "0 < n"
  shows "lock_reach n ((\<lambda>_. Idle)(0 := W_wait 0), boot_lock\<lparr>g_eptlock_write_lock := 0, g_eptlock_write_pending := True\<rparr>)"
proof -
  let ?p = "\<lambda>_. Idle" and ?s = boot_lock
  have "lock_reach n (?p(0 := W_spin), ?s)"
    using lock_reach.step [OF boot_reach lock_step.write_call [of ?p 0 n ?s]] assms by simp
  moreover have "lock_step n (?p(0 := W_spin), ?s) 0 (?p(0 := W_set_pending), ?s\<lparr>g_eptlock_write_lock := 0\<rparr>)"
    using lock_step.spin_lock [of "?p(0 := W_spin)" 0 ?s n] by (simp add: boot_lock_def)
  ultimately have "lock_reach n (?p(0 := W_set_pending), ?s\<lparr>g_eptlock_write_lock := 0\<rparr>)" by (rule lock_reach.step)
  moreover have "lock_step n (?p(0 := W_set_pending), ?s\<lparr>g_eptlock_write_lock := 0\<rparr>) 0
      (?p(0 := W_wait 0), ?s\<lparr>g_eptlock_write_lock := 0, g_eptlock_write_pending := True\<rparr>)"
    using lock_step.set_pending [of "?p(0 := W_set_pending)" 0 "?s\<lparr>g_eptlock_write_lock := 0\<rparr>" n]
    by (simp add: boot_lock_def)
  ultimately show ?thesis by (rule lock_reach.step)
qed

text \<open>One CPU that waits, takes the write lock, gives it released and asks for it again.\<close>

definition lock_trace :: "nat \<Rightarrow> unit lock_conf" where
  "lock_trace k = (
     let p = (\<lambda>q. (\<lambda>_. Idle)(0 := q));
         s = boot_lock\<lparr>g_eptlock_write_lock := 0, g_eptlock_write_pending := True\<rparr>
     in if k = 0 then (p (W_wait 0), s)
        else if k = 1 then (p (W_wait 1), s)
        else if k = 2 then (p W_locked, s)
        else if k = 3 then (p W_clear_pending, s)
        else if k = 4 then (p W_spin_unlock, s\<lparr>g_eptlock_write_pending := False\<rparr>)
        else if k = 5 then (p Idle, boot_lock)
        else (p W_spin, boot_lock))"

lemma lock_trace_steps:
  assumes "k < 6"
  shows "lock_step 1 (lock_trace k) 0 (lock_trace (Suc k))"
proof -
  let ?p = "\<lambda>q. (\<lambda>_::nat. Idle)(0 := q)"
  let ?s = "boot_lock\<lparr>g_eptlock_write_lock := 0, g_eptlock_write_pending := True\<rparr>"
  consider "k = 0" | "k = 1" | "k = 2" | "k = 3" | "k = 4" | "k = 5" using assms by linarith
  then show ?thesis
  proof cases
    case 1
    then show ?thesis using lock_step.wait_reader [of "?p (W_wait 0)" 0 0 1 ?s] by (simp add: lock_trace_def boot_lock_def)
  next
    case 2
    then show ?thesis using lock_step.wait_end [of "?p (W_wait 1)" 0 1 1 ?s] by (simp add: lock_trace_def)
  next
    case 3
    then show ?thesis using lock_step.unlock_call [of "?p W_locked" 0 1 ?s] by (simp add: lock_trace_def)
  next
    case 4
    then show ?thesis using lock_step.clear_pending [of "?p W_clear_pending" 0 ?s 1] by (simp add: lock_trace_def)
  next
    case 5
    then show ?thesis
      using lock_step.spin_unlock [of "?p W_spin_unlock" 0 1 "?s\<lparr>g_eptlock_write_pending := False\<rparr>"]
      by (simp add: lock_trace_def boot_lock_def)
  next
    case 6
    then show ?thesis using lock_step.write_call [of "?p Idle" 0 1 boot_lock] by (simp add: lock_trace_def)
  qed
qed

text \<open>
  C6: whatever the interleaving of the CPUs, no CPU ever halts in an \<open>HALT_ON_ERRORCOND\<close> of the four functions; and while one CPU is
  between the end of \<open>memprot_x86vmx_eptlock_write_lock\<close> and the reset of the pending flag in
  \<open>memprot_x86vmx_eptlock_write_unlock\<close>, no other CPU is there, and no other CPU is between the end of
  \<open>memprot_x86vmx_eptlock_read_lock\<close> and the reset of its flag in \<open>memprot_x86vmx_eptlock_read_unlock\<close>.
\<close>

theorem eptlock_mutual_exclusion:
  assumes "lock_reach n (p, s)"
  shows "(\<forall>c. p c \<noteq> Halted)
    \<and> (\<forall>c d. write_section (p c) \<and> d \<noteq> c \<longrightarrow> \<not> write_section (p d) \<and> \<not> read_section (p d))"
proof -
  have "p c \<noteq> Halted" for c using lock_reach_inv [OF assms] by (simp add: lock_inv_def)
  then show ?thesis using lock_inv_mutex [OF lock_reach_inv [OF assms]] by blast
qed

theorem eptlock_mutual_exclusion_witness:
  "lock_reach 2 ((\<lambda>_. Idle)(0 := W_locked), boot_lock\<lparr>g_eptlock_write_lock := 0, g_eptlock_write_pending := True\<rparr>)
    \<and> write_section (((\<lambda>_::nat. Idle)(0 := W_locked)) 0) \<and> ((\<lambda>_::nat. Idle)(0 := W_locked)) 0 \<noteq> Halted
    \<and> \<not> write_section (((\<lambda>_::nat. Idle)(0 := W_locked)) 1) \<and> \<not> read_section (((\<lambda>_::nat. Idle)(0 := W_locked)) 1)"
  using eptlock_mutual_exclusion [OF write_locked_reach [of 2]] write_locked_reach [of 2] by (simp add: write_section_def)

text \<open>
  C18: the lock does not deadlock: in every reachable state in which some CPU is inside one
  of the four functions or holds the lock, some such CPU can take a step.
\<close>

theorem eptlock_no_deadlock:
  assumes "lock_reach n (p, s)" "p c \<noteq> Idle"
  shows "\<exists>d p' s'. p d \<noteq> Idle \<and> lock_step n (p, s) d (p', s')"
  by (rule lock_inv_progress [OF lock_reach_inv [OF assms(1)] assms(2)])

theorem eptlock_no_deadlock_witness:
  "\<exists>d p' s'. ((\<lambda>_. Idle)(0 := W_locked)) d \<noteq> Idle \<and> lock_step 2
     ((\<lambda>_. Idle)(0 := W_locked), boot_lock\<lparr>g_eptlock_write_lock := 0, g_eptlock_write_pending := True\<rparr>) d (p', s')"
  by (rule eptlock_no_deadlock [OF write_locked_reach, of _ 0]) simp_all

text \<open>
  C19: the waiting time of a writer is bounded, as the comment in the source says: once a writer
  has set \<open>g_eptlock_write_pending\<close> and waits for the readers, every run of \<open>5 * n + 1\<close> steps
  of the \<open>n\<close> CPUs, in any interleaving and with any further calls, takes it into its write section.
\<close>

theorem eptlock_writer_bounded_wait:
  assumes "lock_reach n (tr 0)" "fst (tr 0) w = W_wait i"
    and "\<forall>k < 5 * n + 1. lock_step n (tr k) (cpu k) (tr (Suc k))"
  shows "\<exists>k \<le> 5 * n + 1. fst (tr k) w = W_locked"
  by (rule wait_bounded [OF assms])

theorem eptlock_writer_bounded_wait_witness:
  "\<exists>k \<le> 5 * 1 + 1. fst (lock_trace k) 0 = W_locked"
proof (rule eptlock_writer_bounded_wait [where cpu = "\<lambda>_. 0" and i = 0])
  show "lock_reach 1 (lock_trace 0)" using write_waiting_reach [of 1] by (simp add: lock_trace_def)
  show "fst (lock_trace 0) 0 = W_wait 0" by (simp add: lock_trace_def)
  show "\<forall>k < 5 * 1 + 1. lock_step 1 (lock_trace k) 0 (lock_trace (Suc k))" using lock_trace_steps by simp
qed

text \<open>
  C17: the four lock functions, as one CPU runs them while no other CPU moves, are runs of the
  interleaving: what they return and do to the shared variables is what the statements of
  the step relation do one after the other.
\<close>

theorem eptlock_operations_refine:
  assumes "c < n"
  shows "(memprot_x86vmx_eptlock_write_lock n s = Some s1 \<longrightarrow> p c = Idle \<longrightarrow> cpu_run n c (p, s) (p(c := W_locked), s1))
    \<and> (memprot_x86vmx_eptlock_write_unlock s = Some s2 \<longrightarrow> p c = W_locked \<longrightarrow> cpu_run n c (p, s) (p(c := Idle), s2))
    \<and> (memprot_x86vmx_eptlock_read_lock c s = Some s3 \<longrightarrow> p c = Idle \<longrightarrow> cpu_run n c (p, s) (p(c := R_locked), s3))
    \<and> (memprot_x86vmx_eptlock_read_unlock c s = Some s4 \<longrightarrow> p c = R_locked \<longrightarrow> cpu_run n c (p, s) (p(c := Idle), s4))"
proof (intro conjI impI)
  show "cpu_run n c (p, s) (p(c := W_locked), s1)"
    if "memprot_x86vmx_eptlock_write_lock n s = Some s1" "p c = Idle"
    using that assms by (rule write_lock_run)
  show "cpu_run n c (p, s) (p(c := Idle), s2)"
    if "memprot_x86vmx_eptlock_write_unlock s = Some s2" "p c = W_locked"
    using that by (rule write_unlock_run)
  show "cpu_run n c (p, s) (p(c := R_locked), s3)"
    if "memprot_x86vmx_eptlock_read_lock c s = Some s3" "p c = Idle"
    using that assms by (rule read_lock_run)
  show "cpu_run n c (p, s) (p(c := Idle), s4)"
    if "memprot_x86vmx_eptlock_read_unlock c s = Some s4" "p c = R_locked"
    using that by (rule read_unlock_run)
qed

theorem eptlock_operations_refine_witness:
  "cpu_run 2 1 (\<lambda>_. Idle, boot_lock)
     ((\<lambda>_. Idle)(1 := R_locked), boot_lock\<lparr>vmx_eptlock_reading := (\<lambda>_. False)(1 := True)\<rparr>)"
proof -
  have "memprot_x86vmx_eptlock_read_lock 1 boot_lock = Some (boot_lock\<lparr>vmx_eptlock_reading := (\<lambda>_. False)(1 := True)\<rparr>)"
    by (simp add: memprot_x86vmx_eptlock_read_lock_def boot_lock_def)
  then show ?thesis using eptlock_operations_refine [of 1 2 boot_lock _ "\<lambda>_. Idle"] by simp
qed

end
