(* ===== verification/Guestmem.thy ===== *)
theory Guestmem
  imports HptwCopy Vcpu Eptlock
begin

unbundle bit_operations_syntax

text \<open>
  Access of the hypervisor to guest memory, \<^verbatim>\<open>memp-x86vmx-guestmem.c\<close>, with the guest part of
  \<^verbatim>\<open>hpt_emhf.h\<close>. A pair of walking contexts is built for the EPT (guest physical to host) and
  for the page tables of the guest (guest virtual to guest physical), where every address that
  the guest walk reads is itself translated and checked through the EPT. The copies take the
  reader side of the EPT lock. Hypervisor addresses are system physical addresses
  (\<open>hva2spa\<close> and \<open>spa2hva\<close> of \<^verbatim>\<open>xmhf-baseplatform.h\<close> are the identity on 64 bits).
  A CPU is named by its index in \<open>g_midtable\<close>.
\<close>

abbreviation (input) CR4_PAE :: u64 where "CR4_PAE \<equiv> 0x20"
abbreviation (input) CR4_LA57 :: u64 where "CR4_LA57 \<equiv> 0x1000"
abbreviation (input) PAGE_SIZE_4K :: u64 where "PAGE_SIZE_4K \<equiv> 4096"
abbreviation (input) UINT_MAX :: u64 where "UINT_MAX \<equiv> 0xFFFFFFFF"

definition hva2spa :: "u64 \<Rightarrow> u64" where
  "hva2spa hva = hva"

definition spa2hva :: "u64 \<Rightarrow> u64 exec" where
  "spa2hva spa = do { assert_c (spa = hva2spa spa); Some spa }"

definition hva2gpa :: "u64 \<Rightarrow> u64" where
  "hva2gpa hva = hva2spa hva"

definition hpt_emhf_get_guest_hpt_type :: "vcpu \<Rightarrow> hpt_type exec" where
  "hpt_emhf_get_guest_hpt_type v = do {
     cr4 \<leftarrow> VCPU_gcr4 v;
     if cr4 AND CR4_PAE = 0 then Some HPT_TYPE_NORM
     else do {
       lm \<leftarrow> VCPU_glm v;
       if \<not> lm then Some HPT_TYPE_PAE
       else if cr4 AND CR4_LA57 = 0 then Some HPT_TYPE_LONG
       else None
     }
   }"

definition hpt_emhf_get_guest_root_pm_pa :: "vcpu \<Rightarrow> hpt_pa exec" where
  "hpt_emhf_get_guest_root_pm_pa v = do {
     t \<leftarrow> hpt_emhf_get_guest_hpt_type v;
     cr3 \<leftarrow> VCPU_gcr3 v;
     hpt_cr3_get_address t cr3
   }"

definition hpt_emhf_set_guest_root_pm_pa :: "vcpu \<Rightarrow> hpt_pa \<Rightarrow> vcpu exec" where
  "hpt_emhf_set_guest_root_pm_pa v root = do {
     t \<leftarrow> hpt_emhf_get_guest_hpt_type v;
     cr3 \<leftarrow> VCPU_gcr3 v;
     cr3' \<leftarrow> hpt_cr3_set_address t cr3 root;
     VCPU_gcr3_set v cr3'
   }"

subsection \<open>The pair of contexts\<close>

definition guestmem_host_ctx_ptr2pa :: "'s \<Rightarrow> u64 \<Rightarrow> hpt_pa exec" where
  "guestmem_host_ctx_ptr2pa s ptr = Some (hva2spa ptr)"

definition guestmem_host_ctx_pa2ptr :: "'s \<Rightarrow> hpt_pa \<Rightarrow> u64 \<Rightarrow> hpt_prot \<Rightarrow> hptw_cpl \<Rightarrow> (u64 \<times> u64) exec" where
  "guestmem_host_ctx_pa2ptr s spa sz access_type cpl = do { hva \<leftarrow> spa2hva spa; Some (hva, sz) }"

definition guestmem_guest_ctx_ptr2pa :: "'s \<Rightarrow> u64 \<Rightarrow> hpt_pa exec" where
  "guestmem_guest_ctx_ptr2pa s ptr = Some (hva2gpa ptr)"

definition guestmem_guest_ctx_pa2ptr ::
  "'x mach_scheme hptw_ctx \<Rightarrow> 'x mach_scheme \<Rightarrow> hpt_pa \<Rightarrow> u64 \<Rightarrow> hpt_prot \<Rightarrow> hptw_cpl \<Rightarrow> (u64 \<times> u64) exec" where
  "guestmem_guest_ctx_pa2ptr host_ctx s gpa sz access_type cpl =
     hptw_checked_access_va host_ctx s access_type cpl gpa sz"

definition guestmem_ctx_unimplemented :: "'s \<Rightarrow> u64 \<Rightarrow> u64 \<Rightarrow> (u64 \<times> 's) exec" where
  "guestmem_ctx_unimplemented s alignment sz = None"

record 'x guestmem_hptw_ctx_pair =
  guest_ctx :: "'x eptlock_scheme hptw_ctx"
  host_ctx :: "'x eptlock_scheme hptw_ctx"
  pair_vcpu :: nat

definition guestmem_host_ctx :: "hpt_pa \<Rightarrow> 'x mach_scheme hptw_ctx" where
  "guestmem_host_ctx host_root =
     \<lparr>gzp = guestmem_ctx_unimplemented, pa2ptr = guestmem_host_ctx_pa2ptr,
      ptr2pa = guestmem_host_ctx_ptr2pa, root_pa = host_root, ctx_t = HPT_TYPE_EPT\<rparr>"

definition guestmem_guest_ctx :: "hpt_pa \<Rightarrow> hpt_type \<Rightarrow> hpt_pa \<Rightarrow> 'x mach_scheme hptw_ctx" where
  "guestmem_guest_ctx host_root guest_t guest_root =
     \<lparr>gzp = guestmem_ctx_unimplemented, pa2ptr = guestmem_guest_ctx_pa2ptr (guestmem_host_ctx host_root),
      ptr2pa = guestmem_guest_ctx_ptr2pa, root_pa = guest_root, ctx_t = guest_t\<rparr>"

definition guestmem_init :: "nat \<Rightarrow> vcpu \<Rightarrow> 'x guestmem_hptw_ctx_pair exec" where
  "guestmem_init c v = do {
     guest_t \<leftarrow> hpt_emhf_get_guest_hpt_type v;
     guest_root \<leftarrow> hpt_cr3_get_address guest_t (guest_CR3 (vmcs v));
     host_root \<leftarrow> hpt_eptp_get_address HPT_TYPE_EPT (control_EPT_pointer (vmcs v));
     Some \<lparr>guest_ctx = guestmem_guest_ctx host_root guest_t guest_root,
           host_ctx = guestmem_host_ctx host_root, pair_vcpu = c\<rparr>
   }"

subsection \<open>Copies and translations\<close>

definition guestmem_copy_gv2h ::
  "'x guestmem_hptw_ctx_pair \<Rightarrow> 'x eptlock_scheme \<Rightarrow> hptw_cpl \<Rightarrow> u64 \<Rightarrow> hpt_va \<Rightarrow> u64 \<Rightarrow> 'x eptlock_scheme exec" where
  "guestmem_copy_gv2h ctx_pair s cpl dst src len = do {
     s \<leftarrow> memprot_x86vmx_eptlock_read_lock (pair_vcpu ctx_pair) s;
     (r, s) \<leftarrow> hptw_checked_copy_from_va (guest_ctx ctx_pair) s cpl dst src len;
     assert_c (r = OK ());
     memprot_x86vmx_eptlock_read_unlock (pair_vcpu ctx_pair) s
   }"

definition guestmem_copy_gp2h ::
  "'x guestmem_hptw_ctx_pair \<Rightarrow> 'x eptlock_scheme \<Rightarrow> hptw_cpl \<Rightarrow> u64 \<Rightarrow> hpt_va \<Rightarrow> u64 \<Rightarrow> 'x eptlock_scheme exec" where
  "guestmem_copy_gp2h ctx_pair s cpl dst src len = do {
     s \<leftarrow> memprot_x86vmx_eptlock_read_lock (pair_vcpu ctx_pair) s;
     (r, s) \<leftarrow> hptw_checked_copy_from_va (host_ctx ctx_pair) s cpl dst src len;
     assert_c (r = OK ());
     memprot_x86vmx_eptlock_read_unlock (pair_vcpu ctx_pair) s
   }"

definition guestmem_copy_h2gv ::
  "'x guestmem_hptw_ctx_pair \<Rightarrow> 'x eptlock_scheme \<Rightarrow> hptw_cpl \<Rightarrow> hpt_va \<Rightarrow> u64 \<Rightarrow> u64 \<Rightarrow> 'x eptlock_scheme exec" where
  "guestmem_copy_h2gv ctx_pair s cpl dst src len = do {
     s \<leftarrow> memprot_x86vmx_eptlock_read_lock (pair_vcpu ctx_pair) s;
     (r, s) \<leftarrow> hptw_checked_copy_to_va (guest_ctx ctx_pair) s cpl dst src len;
     assert_c (r = OK ());
     memprot_x86vmx_eptlock_read_unlock (pair_vcpu ctx_pair) s
   }"

definition guestmem_copy_h2gp ::
  "'x guestmem_hptw_ctx_pair \<Rightarrow> 'x eptlock_scheme \<Rightarrow> hptw_cpl \<Rightarrow> hpt_va \<Rightarrow> u64 \<Rightarrow> u64 \<Rightarrow> 'x eptlock_scheme exec" where
  "guestmem_copy_h2gp ctx_pair s cpl dst src len = do {
     s \<leftarrow> memprot_x86vmx_eptlock_read_lock (pair_vcpu ctx_pair) s;
     (r, s) \<leftarrow> hptw_checked_copy_to_va (host_ctx ctx_pair) s cpl dst src len;
     assert_c (r = OK ());
     memprot_x86vmx_eptlock_read_unlock (pair_vcpu ctx_pair) s
   }"

definition guestmem_gpa2spa_page :: "'x guestmem_hptw_ctx_pair \<Rightarrow> 'x eptlock_scheme \<Rightarrow> u64 \<Rightarrow> u64 exec" where
  "guestmem_gpa2spa_page ctx_pair s guest_addr = do {
     assert_c (guest_addr AND (PAGE_SIZE_4K - 1) = 0);
     (ans, avail_size) \<leftarrow>
       hptw_checked_access_va (host_ctx ctx_pair) s HPT_PROTS_R HPTW_CPL0 guest_addr PAGE_SIZE_4K;
     assert_c (avail_size = PAGE_SIZE_4K);
     Some (hva2spa ans)
   }"

text \<open>The loop: \<open>ans\<close> is \<open>None\<close> while \<open>ans_assigned\<close> is false.\<close>

partial_function (option) guestmem_gpa2spa_size_loop ::
  "'x guestmem_hptw_ctx_pair \<Rightarrow> 'x eptlock_scheme \<Rightarrow> u64 \<Rightarrow> u64 \<Rightarrow> u64 option \<Rightarrow> u64 \<Rightarrow> u64 option exec" where
  "guestmem_gpa2spa_size_loop ctx_pair s guest_addr len ans scanned =
     (if scanned < len then do {
        (ptr, cur_scan) \<leftarrow>
          hptw_checked_access_va (host_ctx ctx_pair) s HPT_PROTS_R HPTW_CPL0 (guest_addr + scanned) (len - scanned);
        ans' \<leftarrow> (if scanned = 0 then Some (Some ptr)
                 else do { assert_c (case ans of None \<Rightarrow> scanned = ptr | Some a \<Rightarrow> a + scanned = ptr); Some ans });
        assert_c (cur_scan > 0);
        guestmem_gpa2spa_size_loop ctx_pair s guest_addr len ans' (scanned + cur_scan)
      }
      else Some ans)"

definition guestmem_gpa2spa_size :: "'x guestmem_hptw_ctx_pair \<Rightarrow> 'x eptlock_scheme \<Rightarrow> u64 \<Rightarrow> u64 \<Rightarrow> u64 exec" where
  "guestmem_gpa2spa_size ctx_pair s guest_addr len = do {
     ans \<leftarrow> guestmem_gpa2spa_size_loop ctx_pair s guest_addr len None 0;
     a \<leftarrow> ans;
     Some (hva2spa a)
   }"

subsection \<open>Segmentation\<close>

datatype cpu_segment =
  CPU_SEG_ES | CPU_SEG_CS | CPU_SEG_SS | CPU_SEG_DS | CPU_SEG_FS | CPU_SEG_GS | CPU_SEG_UNKNOWN

definition segment_fields :: "vmcs_fields \<Rightarrow> cpu_segment \<Rightarrow> (u64 \<times> u32 \<times> u32) exec" where
  "segment_fields f seg = (case seg of
     CPU_SEG_ES \<Rightarrow> Some (guest_ES_base f, guest_ES_access_rights f, guest_ES_limit f)
   | CPU_SEG_CS \<Rightarrow> Some (guest_CS_base f, guest_CS_access_rights f, guest_CS_limit f)
   | CPU_SEG_SS \<Rightarrow> Some (guest_SS_base f, guest_SS_access_rights f, guest_SS_limit f)
   | CPU_SEG_DS \<Rightarrow> Some (guest_DS_base f, guest_DS_access_rights f, guest_DS_limit f)
   | CPU_SEG_FS \<Rightarrow> Some (guest_FS_base f, guest_FS_access_rights f, guest_FS_limit f)
   | CPU_SEG_GS \<Rightarrow> Some (guest_GS_base f, guest_GS_access_rights f, guest_GS_limit f)
   | CPU_SEG_UNKNOWN \<Rightarrow> None)"

definition segment_modes :: "u32 \<Rightarrow> hpt_prot exec" where
  "segment_modes access_rights =
     (if access_rights AND 0x8 = 0 then do {
        supported_modes \<leftarrow> Some (HPT_PROTS_NONE OR HPT_PROT_READ_MASK);
        supported_modes \<leftarrow> Some (if access_rights AND 0x2 \<noteq> 0 then supported_modes OR HPT_PROT_WRITE_MASK
                                  else supported_modes);
        assert_c (access_rights AND 0x4 = 0);
        Some supported_modes
      }
      else do {
        supported_modes \<leftarrow> Some (HPT_PROTS_NONE OR HPT_PROT_EXEC_MASK);
        Some (if access_rights AND 0x2 \<noteq> 0 then supported_modes OR HPT_PROT_READ_MASK else supported_modes)
      })"

definition guestmem_desegment :: "vcpu \<Rightarrow> cpu_segment \<Rightarrow> u64 \<Rightarrow> u64 \<Rightarrow> hpt_prot \<Rightarrow> hptw_cpl \<Rightarrow> u64 exec" where
  "guestmem_desegment v seg addr sz mode cpl = do {
     g64 \<leftarrow> VCPU_g64 v;
     (base, access_rights, limit) \<leftarrow> segment_fields (vmcs v) seg;
     (if \<not> g64 then do {
        assert_c (addr \<le> UINT_MAX);
        assert_c (\<not> addr > UINT_MAX - sz);
        let addr_max = addr + sz in do {
          assert_c (\<not> addr_max \<ge> ucast limit);
          assert_c (\<not> base > UINT_MAX - addr_max)
        }
      }
      else Some ());
     (if seg = CPU_SEG_CS \<or> \<not> g64 then do {
        supported_modes \<leftarrow> segment_modes access_rights;
        assert_c (supported_modes AND mode = mode);
        assert_c (access_rights AND 0x10 \<noteq> 0);
        assert_c (\<not> (drop_bit 5 access_rights AND 0x3) < cpl);
        assert_c (access_rights AND 0x80 \<noteq> 0)
      }
      else Some ());
     Some (addr + base)
   }"

subsection \<open>The contexts meet the contracts of the walks\<close>

interpretation host: linear_env "guestmem_host_ctx root" "\<lambda>s. True" for root :: hpt_pa
  by unfold_locales
    (auto simp: guestmem_host_ctx_def guestmem_host_ctx_pa2ptr_def spa2hva_def hva2spa_def)

lemma guest_linear_env:
  assumes "t \<noteq> HPT_TYPE_INVALID"
  shows "linear_env (guestmem_guest_ctx r t g) (leaves_aligned (guestmem_host_ctx r :: 'x mach_scheme hptw_ctx))"
proof -
  let ?h = "guestmem_host_ctx r :: 'x mach_scheme hptw_ctx"
  have pa2ptr: "pa2ptr (guestmem_guest_ctx r t g) s pa sz prot cpl = hptw_checked_access_va ?h s prot cpl pa sz"
    for s pa sz prot cpl
    by (simp add: guestmem_guest_ctx_def guestmem_guest_ctx_pa2ptr_def)
  show ?thesis
  proof
    show "ctx_t (guestmem_guest_ctx r t g) \<noteq> HPT_TYPE_INVALID" using assms by (simp add: guestmem_guest_ctx_def)
  next
    fix s :: "'x mach_scheme" and pa sz prot cpl
    obtain p a where *: "hptw_checked_access_va ?h s prot cpl pa sz = Some (p, a)" "a \<le> sz"
       "p \<noteq> 0 \<longrightarrow> 0 < sz \<longrightarrow> 0 < a" "p \<noteq> 0 \<or> a \<noteq> 0 \<longrightarrow> within_page pa sz \<longrightarrow> a = sz"
      using host.checked_access_va_total [of r s prot cpl pa sz] by blast
    show "\<exists>p a. pa2ptr (guestmem_guest_ctx r t g) s pa sz prot cpl = Some (p, a)" using * pa2ptr by simp
    fix p a assume "pa2ptr (guestmem_guest_ctx r t g) s pa sz prot cpl = Some (p, a)"
    then show "a \<le> sz \<and> (p \<noteq> 0 \<longrightarrow> 0 < sz \<longrightarrow> 0 < a)"
      and "p \<noteq> 0 \<or> a \<noteq> 0 \<Longrightarrow> within_page pa sz \<Longrightarrow> a = sz"
      using * pa2ptr by auto
  next
    fix s :: "'x mach_scheme" and pa sz prot cpl p a j
    assume "leaves_aligned ?h s" "pa2ptr (guestmem_guest_ctx r t g) s pa sz prot cpl = Some (p, a)" "j < a"
    then show "pa2ptr (guestmem_guest_ctx r t g) s (pa + j) 1 prot cpl = Some (p + j, 1)"
      unfolding pa2ptr using host.access_linear by blast
  next
    fix s :: "'x mach_scheme" and pa sz prot cpl p a j
    assume "leaves_aligned ?h s" "pa2ptr (guestmem_guest_ctx r t g) s pa sz prot cpl = Some (p, a)" "p \<noteq> 0" "j < a" "p + j = 0"
    then show "pa + j = 0" unfolding pa2ptr using host.access_linear by blast
  next
    fix s :: "'x mach_scheme" and pa sz prot cpl p a sz'
    assume "pa2ptr (guestmem_guest_ctx r t g) s pa sz prot cpl = Some (p, a)"
    then show "\<exists>a'. pa2ptr (guestmem_guest_ctx r t g) s pa sz' prot cpl = Some (p, a')"
      unfolding pa2ptr by (rule host.access_size)
  qed
qed

interpretation host2: walk_env2 "guestmem_host_ctx r1" "guestmem_host_ctx r2" for r1 r2 :: hpt_pa
  by unfold_locales

lemma guest_type_valid: "hpt_emhf_get_guest_hpt_type v = Some t \<Longrightarrow> t \<noteq> HPT_TYPE_INVALID"
  by (auto simp: hpt_emhf_get_guest_hpt_type_def bind_eq_Some_conv split: if_splits)

lemma guestmem_init_SomeD:
  assumes "guestmem_init c v = Some pair"
  obtains r t g where "host_ctx pair = guestmem_host_ctx r" "guest_ctx pair = guestmem_guest_ctx r t g"
    "t \<noteq> HPT_TYPE_INVALID" "pair_vcpu pair = c"
  using assms guest_type_valid by (auto simp: guestmem_init_def bind_eq_Some_conv)

lemma host_pa2ptr_const:
  fixes s s' :: "'x mach_scheme"
  shows "pa2ptr (guestmem_host_ctx r) s = pa2ptr (guestmem_host_ctx r) s'"
  by (simp add: guestmem_host_ctx_def guestmem_host_ctx_pa2ptr_def fun_eq_iff)

lemma guest_pa2ptr_cong:
  fixes s s' :: "'x mach_scheme"
  assumes "mem s' = mem s"
  shows "pa2ptr (guestmem_guest_ctx r t g) s' = pa2ptr (guestmem_guest_ctx r t g) s"
  using host.checked_access_cong [OF assms host_pa2ptr_const]
  by (simp add: guestmem_guest_ctx_def guestmem_guest_ctx_pa2ptr_def fun_eq_iff)

lemma guest_pa2ptr_frame:
  assumes "tables_apart (guestmem_host_ctx r) s X" "\<And>a. a \<notin> X \<Longrightarrow> m a = mem s a"
  shows "pa2ptr (guestmem_guest_ctx r t g) (s\<lparr>mem := m\<rparr>) = pa2ptr (guestmem_guest_ctx r t g) s"
  using host.checked_access_frame [OF assms host_pa2ptr_const]
  by (simp add: guestmem_guest_ctx_def guestmem_guest_ctx_pa2ptr_def fun_eq_iff)

subsection \<open>Copies under the lock\<close>

abbreviation read_locked :: "nat \<Rightarrow> 'x eptlock_scheme \<Rightarrow> 'x eptlock_scheme" where
  "read_locked c s \<equiv> s\<lparr>vmx_eptlock_reading := (vmx_eptlock_reading s)(c := True)\<rparr>"

lemma read_lock_free:
  assumes "\<not> vmx_eptlock_reading s c" "\<not> g_eptlock_write_pending s"
  shows "memprot_x86vmx_eptlock_read_lock c s = Some (read_locked c s)"
    and "memprot_x86vmx_eptlock_read_unlock c ((read_locked c s)\<lparr>mem := m\<rparr>) = Some (s\<lparr>mem := m\<rparr>)"
  using assms
  by (simp_all add: memprot_x86vmx_eptlock_read_lock_def memprot_x86vmx_eptlock_read_unlock_def fun_upd_idem)


lemma locked_op:
  assumes "\<not> vmx_eptlock_reading s c" "\<not> g_eptlock_write_pending s"
    and "f (read_locked c s) = Some (r, (read_locked c s)\<lparr>mem := m\<rparr>)"
  shows "do {
       s \<leftarrow> memprot_x86vmx_eptlock_read_lock c s;
       (r, s) \<leftarrow> f s;
       assert_c (r = OK ());
       memprot_x86vmx_eptlock_read_unlock c s
     } = (if r = OK () then Some (s\<lparr>mem := m\<rparr>) else None)"
  using assms read_lock_free [OF assms(1,2)] by simp

text \<open>
  The laws of a context for copies that leave its tables alone: the linear translation, and a
  callback that depends on the memory outside \<open>X\<close> only.
\<close>

definition copy_ctx :: "'x eptlock_scheme hptw_ctx \<Rightarrow> ('x eptlock_scheme \<Rightarrow> bool) \<Rightarrow> bool" where
  "copy_ctx ctx lin \<longleftrightarrow> linear_env ctx lin \<and> (\<forall>s s'. mem s' = mem s \<longrightarrow> pa2ptr ctx s' = pa2ptr ctx s \<and> lin s' = lin s)"

lemma copy_from_locked:
  fixes s :: "'x eptlock_scheme"
  assumes env: "copy_ctx ctx lin"
    and apart: "tables_apart ctx s (buffer dst len)" and al: "leaves_aligned ctx s" and lin: "lin s"
    and pa: "\<And>m. (\<And>a. a \<notin> buffer dst len \<Longrightarrow> m a = mem s a) \<Longrightarrow> pa2ptr ctx (s\<lparr>mem := m\<rparr>) = pa2ptr ctx s"
    and disj: "\<And>i. i < len \<Longrightarrow> xlate ctx s HPT_PROTS_R cpl (src + i) \<notin> buffer dst len"
  shows "\<exists>r m'. hptw_checked_copy_from_va ctx (read_locked c s) cpl dst src len = Some (r, (read_locked c s)\<lparr>mem := m'\<rparr>)
    \<and> (\<forall>a. a \<notin> buffer dst len \<longrightarrow> m' a = mem s a)
    \<and> (r = OK () \<longrightarrow> (\<forall>i < len. m' (dst + i) = mem s (xlate ctx s HPT_PROTS_R cpl (src + i))))
    \<and> (r = OK () \<longleftrightarrow> (\<forall>i < len. xlate ctx s HPT_PROTS_R cpl (src + i) \<noteq> 0))"
proof -
  let ?s = "read_locked c s"
  have m: "mem ?s = mem s" by simp
  have l: "linear_env ctx lin" and w: "walk_env ctx"
    and cong: "\<And>s s'. mem s' = mem s \<Longrightarrow> pa2ptr ctx s' = pa2ptr ctx s" and lin': "lin ?s"
    using env lin m unfolding copy_ctx_def by (blast intro: linear_env.axioms)+
  have pa': "pa2ptr ctx (?s\<lparr>mem := m\<rparr>) = pa2ptr ctx ?s" if "\<And>a. a \<notin> buffer dst len \<Longrightarrow> m a = mem ?s a" for m
    using pa [of m] that cong [of "?s\<lparr>mem := m\<rparr>" "s\<lparr>mem := m\<rparr>"] cong [OF m] by simp
  note cg = tables_apart_cong [OF m cong [OF m]] walk_env.leaves_aligned_cong [OF w m cong [OF m]]
    walk_env.xlate_cong [OF w m cong [OF m]]
  show ?thesis
    using linear_env.checked_copy_from_va [OF l, of ?s dst len cpl src] apart al disj lin' pa' unfolding cg m by blast
qed

lemma copy_to_locked:
  fixes s :: "'x eptlock_scheme"
  assumes env: "copy_ctx ctx lin"
    and apart: "tables_apart ctx s (write_targets ctx s cpl dst len)" and al: "leaves_aligned ctx s" and lin: "lin s"
    and pa: "\<And>m. (\<And>a. a \<notin> write_targets ctx s cpl dst len \<Longrightarrow> m a = mem s a) \<Longrightarrow> pa2ptr ctx (s\<lparr>mem := m\<rparr>) = pa2ptr ctx s"
    and disj: "\<And>i. i < len \<Longrightarrow> src + i \<notin> write_targets ctx s cpl dst len"
  shows "\<exists>r m'. hptw_checked_copy_to_va ctx (read_locked c s) cpl dst src len = Some (r, (read_locked c s)\<lparr>mem := m'\<rparr>)
    \<and> (\<forall>a. a \<notin> write_targets ctx s cpl dst len \<longrightarrow> m' a = mem s a)
    \<and> (r = OK () \<longrightarrow> inj_on (\<lambda>i. xlate ctx s HPT_PROTS_W cpl (dst + i)) {..<len} \<longrightarrow>
        (\<forall>i < len. m' (xlate ctx s HPT_PROTS_W cpl (dst + i)) = mem s (src + i)))
    \<and> (r = OK () \<longleftrightarrow> (\<forall>i < len. xlate ctx s HPT_PROTS_W cpl (dst + i) \<noteq> 0))"
proof -
  let ?s = "read_locked c s"
  have m: "mem ?s = mem s" by simp
  have l: "linear_env ctx lin" and w: "walk_env ctx"
    and cong: "\<And>s s'. mem s' = mem s \<Longrightarrow> pa2ptr ctx s' = pa2ptr ctx s" and lin': "lin ?s"
    using env lin m unfolding copy_ctx_def by (blast intro: linear_env.axioms)+
  note cg = tables_apart_cong [OF m cong [OF m]] walk_env.leaves_aligned_cong [OF w m cong [OF m]]
    walk_env.xlate_cong [OF w m cong [OF m]]
  have wt: "write_targets ctx ?s cpl dst len = write_targets ctx s cpl dst len" by (simp add: write_targets_def cg)
  have pa': "pa2ptr ctx (?s\<lparr>mem := m\<rparr>) = pa2ptr ctx ?s" if "\<And>a. a \<notin> write_targets ctx s cpl dst len \<Longrightarrow> m a = mem ?s a" for m
    using pa [of m] that cong [of "?s\<lparr>mem := m\<rparr>" "s\<lparr>mem := m\<rparr>"] cong [OF m] by simp
  show ?thesis
    using linear_env.checked_copy_to_va [OF l, of ?s cpl dst len src] apart al disj lin' pa' unfolding wt cg m by blast
qed

lemma host_copy_ctx: "copy_ctx (guestmem_host_ctx r) (\<lambda>s. True)"
  unfolding copy_ctx_def using host.linear_env_axioms host_pa2ptr_const by blast

lemma guest_copy_ctx:
  "t \<noteq> HPT_TYPE_INVALID \<Longrightarrow> copy_ctx (guestmem_guest_ctx r t g) (leaves_aligned (guestmem_host_ctx r))"
  unfolding copy_ctx_def
  using guest_linear_env guest_pa2ptr_cong host.leaves_aligned_cong [OF _ host_pa2ptr_const] by blast


lemma copy_gv2h_result:
  fixes s :: "'x eptlock_scheme"
  assumes init: "guestmem_init c v = Some pair"
    and free: "\<not> vmx_eptlock_reading s c" "\<not> g_eptlock_write_pending s"
    and apart: "tables_apart (host_ctx pair) s (buffer dst len)" "tables_apart (guest_ctx pair) s (buffer dst len)"
    and al: "leaves_aligned (host_ctx pair) s" "leaves_aligned (guest_ctx pair) s"
    and disj: "\<And>i. i < len \<Longrightarrow> xlate (guest_ctx pair) s HPT_PROTS_R cpl (src + i) \<notin> buffer dst len"
  shows "case guestmem_copy_gv2h pair s cpl dst src len of
      None \<Rightarrow> \<exists>i < len. xlate (guest_ctx pair) s HPT_PROTS_R cpl (src + i) = 0
    | Some s' \<Rightarrow> s' = s\<lparr>mem := mem s'\<rparr>
        \<and> (\<forall>i < len. xlate (guest_ctx pair) s HPT_PROTS_R cpl (src + i) \<noteq> 0)
        \<and> (\<forall>i < len. mem s' (dst + i) = mem s (xlate (guest_ctx pair) s HPT_PROTS_R cpl (src + i)))
        \<and> (\<forall>a. a \<notin> buffer dst len \<longrightarrow> mem s' a = mem s a)"
proof (rule guestmem_init_SomeD [OF init])
  fix r t g assume h: "host_ctx pair = guestmem_host_ctx r" "guest_ctx pair = guestmem_guest_ctx r t g"
    and t: "t \<noteq> HPT_TYPE_INVALID" and c: "pair_vcpu pair = c"
  have pa: "pa2ptr (guestmem_guest_ctx r t g) (s\<lparr>mem := m\<rparr>) = pa2ptr (guestmem_guest_ctx r t g) s"
    if "\<And>a. a \<notin> buffer dst len \<Longrightarrow> m a = mem s a" for m
    using apart(1) that unfolding h by (rule guest_pa2ptr_frame)
  obtain ret m' where op: "hptw_checked_copy_from_va (guest_ctx pair) (read_locked c s) cpl dst src len =
        Some (ret, (read_locked c s)\<lparr>mem := m'\<rparr>)"
    and "\<forall>a. a \<notin> buffer dst len \<longrightarrow> m' a = mem s a"
      "ret = OK () \<longrightarrow> (\<forall>i < len. m' (dst + i) = mem s (xlate (guest_ctx pair) s HPT_PROTS_R cpl (src + i)))"
      "ret = OK () \<longleftrightarrow> (\<forall>i < len. xlate (guest_ctx pair) s HPT_PROTS_R cpl (src + i) \<noteq> 0)"
    using copy_from_locked [OF guest_copy_ctx [OF t, of r g], of s dst len cpl src c] apart al disj pa
    unfolding h by blast
  then show ?thesis
    using locked_op [OF free, of "\<lambda>s. hptw_checked_copy_from_va (guest_ctx pair) s cpl dst src len" ret m']
    by (auto simp: guestmem_copy_gv2h_def c)
qed

subsection \<open>Guest physical to system physical addresses\<close>

lemma host_access_cases:
  obtains (denied) "\<And>sz. hptw_checked_access_va (guestmem_host_ctx r) s access cpl va sz = Some (0, 0)"
  | (granted) p n where "0 < n" "\<And>sz. hptw_checked_access_va (guestmem_host_ctx r) s access cpl va sz = Some (p, min sz n)"
proof (rule host.checked_get_pmeo_total [of r s access cpl va])
  assume "hptw_checked_get_pmeo (guestmem_host_ctx r) s access cpl va = Some ERR"
  then show ?thesis by (intro denied) (simp add: hptw_checked_access_va_def)
next
  fix e assume e: "hptw_checked_get_pmeo (guestmem_host_ctx r) s access cpl va = Some (OK e)" "hpt_pmeo_is_page e = Some True"
  obtain pa n where "hpt_pmeo_va_to_pa e va = Some pa" "hpt_remaining_on_page e pa = Some n" "0 < n"
    using page_access [OF e(2), of va 0] by blast
  then show ?thesis using e
    by (intro granted [of n pa])
      (simp_all add: hptw_checked_access_va_def guestmem_host_ctx_def guestmem_host_ctx_pa2ptr_def spa2hva_def hva2spa_def)
qed

lemma min_one: "0 < (n :: u64) \<Longrightarrow> min 1 n = 1"
  by (simp add: min_def word_less_nat_alt word_le_nat_alt Suc_le_eq)

lemma gpa2spa_step:
  fixes len n scanned :: u64
  assumes "scanned < len" "0 < n"
  shows "0 < min (len - scanned) n" "scanned + min (len - scanned) n \<le> len"
    "scanned \<le> scanned + min (len - scanned) n" "0 < scanned + min (len - scanned) n"
    "unat (len - (scanned + min (len - scanned) n)) < unat (len - scanned)"
  using assms by (auto simp: min_def word_less_nat_alt [symmetric]; uint_arith)+


lemma gpa2spa_size_loop:
  fixes s :: "'x eptlock_scheme" and len scanned ga a :: u64
  assumes h: "host_ctx pair = guestmem_host_ctx r" and al: "leaves_aligned (guestmem_host_ctx r) s"
  shows "0 < scanned \<Longrightarrow> scanned \<le> len \<Longrightarrow>
    guestmem_gpa2spa_size_loop pair s ga len (Some a) scanned = Some res \<longleftrightarrow>
      res = Some a \<and> (\<forall>i. scanned \<le> i \<longrightarrow> i < len \<longrightarrow>
        hptw_checked_access_va (guestmem_host_ctx r) s HPT_PROTS_R HPTW_CPL0 (ga + i) 1 = Some (a + i, 1))"
proof (induction "unat (len - scanned)" arbitrary: scanned rule: less_induct)
  case less
  let ?acc = "hptw_checked_access_va (guestmem_host_ctx r) s HPT_PROTS_R HPTW_CPL0"
  note unfolded = guestmem_gpa2spa_size_loop.simps [of pair s ga len "Some a" scanned, unfolded h]
  have nz: "scanned \<noteq> 0" using less.prems(1) by auto
  show ?case
  proof (cases "scanned < len")
    case False
    then show ?thesis using unfolded by auto
  next
    case lt: True
    show ?thesis
    proof (cases rule: host_access_cases [of r s HPT_PROTS_R HPTW_CPL0 "ga + scanned"])
      case denied
      then have "guestmem_gpa2spa_size_loop pair s ga len (Some a) scanned = None"
        using unfolded lt less.prems(1) by (auto simp: assert_c_def)
      moreover have "?acc (ga + scanned) 1 \<noteq> Some (a + scanned, 1)" using denied by simp
      ultimately show ?thesis using lt by auto
    next
      case (granted p n)
      let ?n = "min (len - scanned) n"
      have one: "?acc (ga + scanned) 1 = Some (p, 1)" using granted min_one by simp
      show ?thesis
      proof (cases "a + scanned = p")
        case False
        then have "guestmem_gpa2spa_size_loop pair s ga len (Some a) scanned = None"
          using unfolded lt less.prems(1) granted by (auto simp: assert_c_def)
        moreover have "?acc (ga + scanned) 1 \<noteq> Some (a + scanned, 1)" using one False by simp
        ultimately show ?thesis using lt by auto
      next
        case True
        note step = gpa2spa_step [OF lt granted(1)]
        have "guestmem_gpa2spa_size_loop pair s ga len (Some a) scanned =
            guestmem_gpa2spa_size_loop pair s ga len (Some a) (scanned + ?n)"
          using unfolded lt nz granted True step(1) by (simp add: assert_c_def)
        moreover have "?acc (ga + i) 1 = Some (a + i, 1)" if "scanned \<le> i" "i < scanned + ?n" for i
        proof -
          have "i - scanned < ?n" using that by uint_arith
          moreover have "ga + scanned + (i - scanned) = ga + i" "p + (i - scanned) = a + i"
            unfolding True [symmetric] by simp_all
          ultimately show ?thesis using host.access_linear [OF granted(2) _ al, of "i - scanned" "len - scanned"] by simp
        qed
        ultimately show ?thesis
          using less.hyps [OF step(5,4,2)] step(3) by (metis (no_types) leI order_trans)
      qed
    qed
  qed
qed


lemma gpa2spa_size_iff:
  fixes s :: "'x eptlock_scheme" and len ga spa :: u64
  assumes h: "host_ctx pair = guestmem_host_ctx r" and al: "leaves_aligned (guestmem_host_ctx r) s"
  shows "guestmem_gpa2spa_size pair s ga len = Some spa \<longleftrightarrow> 0 < len \<and> (\<forall>i < len.
    hptw_checked_access_va (guestmem_host_ctx r) s HPT_PROTS_R HPTW_CPL0 (ga + i) 1 = Some (spa + i, 1))"
proof (cases "len = 0")
  case True
  then show ?thesis
    using guestmem_gpa2spa_size_loop.simps [of pair s ga len None 0] by (simp add: guestmem_gpa2spa_size_def)
next
  case False
  then have len: "0 < len" by (simp add: word_gt_0)
  let ?acc = "hptw_checked_access_va (guestmem_host_ctx r) s HPT_PROTS_R HPTW_CPL0"
  note unfolded = guestmem_gpa2spa_size_loop.simps [of pair s ga len None 0, unfolded h]
  show ?thesis
  proof (cases rule: host_access_cases [of r s HPT_PROTS_R HPTW_CPL0 ga])
    case denied
    then have "guestmem_gpa2spa_size_loop pair s ga len None 0 = None" using unfolded len by (simp add: assert_c_def)
    moreover have "?acc (ga + 0) 1 \<noteq> Some (spa + 0, 1)" using denied by simp
    ultimately show ?thesis using len unfolding guestmem_gpa2spa_size_def by auto
  next
    case (granted p n)
    let ?n = "min (len - 0) n"
    note step = gpa2spa_step [OF len granted(1)]
    have loop: "guestmem_gpa2spa_size_loop pair s ga len None 0 = guestmem_gpa2spa_size_loop pair s ga len (Some p) (0 + ?n)"
      using unfolded len granted step(1) by (simp add: assert_c_def)
    have first: "?acc (ga + i) 1 = Some (p + i, 1)" if "i < 0 + ?n" for i
      using host.access_linear [OF granted(2) _ al, of i "len - 0"] that by simp
    have *: "guestmem_gpa2spa_size_loop pair s ga len (Some p) (0 + ?n) = Some res \<longleftrightarrow>
        res = Some p \<and> (\<forall>i < len. ?acc (ga + i) 1 = Some (p + i, 1))" for res
      using gpa2spa_size_loop [OF h al step(4,2), of ga p res] first by (metis leI)
    show ?thesis
    proof
      assume "guestmem_gpa2spa_size pair s ga len = Some spa"
      then obtain res where "guestmem_gpa2spa_size_loop pair s ga len (Some p) (0 + ?n) = Some res" "res = Some spa"
        unfolding guestmem_gpa2spa_size_def loop by (auto simp: bind_eq_Some_conv hva2spa_def)
      then show "0 < len \<and> (\<forall>i < len. ?acc (ga + i) 1 = Some (spa + i, 1))" using * [of "Some spa"] len by simp
    next
      assume all: "0 < len \<and> (\<forall>i < len. ?acc (ga + i) 1 = Some (spa + i, 1))"
      then have "?acc (ga + 0) 1 = Some (spa + 0, 1)" by blast
      then have "p = spa" using first [of 0] step(1) by simp
      then show "guestmem_gpa2spa_size pair s ga len = Some spa"
        using * [of "Some p"] all unfolding guestmem_gpa2spa_size_def loop by (simp add: hva2spa_def)
    qed
  qed
qed

lemma page_aligned: "ga AND (PAGE_SIZE_4K - 1) = 0 \<longleftrightarrow> take_bit 12 (ga :: u64) = 0"
  using take_bit_eq_mask [of 12 ga] by (simp add: mask_eq_exp_minus_1)

lemma gpa2spa_page_iff:
  fixes s :: "'x eptlock_scheme" and ga spa :: u64
  assumes h: "host_ctx pair = guestmem_host_ctx r" and al: "leaves_aligned (guestmem_host_ctx r) s"
  shows "guestmem_gpa2spa_page pair s ga = Some spa \<longleftrightarrow> take_bit 12 ga = 0 \<and> (\<forall>i < PAGE_SIZE_4K.
    hptw_checked_access_va (guestmem_host_ctx r) s HPT_PROTS_R HPTW_CPL0 (ga + i) 1 = Some (spa + i, 1))"
proof (cases "take_bit 12 ga = 0")
  case True
  let ?acc = "hptw_checked_access_va (guestmem_host_ctx r) s HPT_PROTS_R HPTW_CPL0"
  have w: "within_page ga PAGE_SIZE_4K" using True by (simp add: within_page_def)
  have fn: "guestmem_gpa2spa_page pair s ga = Some spa \<longleftrightarrow> ?acc ga PAGE_SIZE_4K = Some (spa, PAGE_SIZE_4K)"
    unfolding guestmem_gpa2spa_page_def h hva2spa_def page_aligned using True by (auto simp: bind_eq_Some_conv)
  show ?thesis
  proof (cases rule: host_access_cases [of r s HPT_PROTS_R HPTW_CPL0 ga])
    case denied
    have "\<not> (\<forall>i < PAGE_SIZE_4K. ?acc (ga + i) 1 = Some (spa + i, 1))" using denied by (auto intro!: exI [of _ 0])
    then show ?thesis unfolding fn using denied by simp
  next
    case (granted p n)
    have "min PAGE_SIZE_4K n = PAGE_SIZE_4K"
      using host.checked_access_va_total [of r s HPT_PROTS_R HPTW_CPL0 ga PAGE_SIZE_4K] granted w min_one
      by (auto simp: min_def split: if_splits)
    then have acc: "?acc ga PAGE_SIZE_4K = Some (p, PAGE_SIZE_4K)" using granted by simp
    have "?acc (ga + i) 1 = Some (p + i, 1)" if "i < PAGE_SIZE_4K" for i
      using host.access_linear [OF acc that al] by simp
    moreover from this [of 0] have "?acc (ga + 0) 1 = Some (p + 0, 1)" by simp
    ultimately have "(\<forall>i < PAGE_SIZE_4K. ?acc (ga + i) 1 = Some (spa + i, 1)) \<longleftrightarrow> p = spa"
      by (auto dest!: spec [of _ 0])
    then show ?thesis unfolding fn acc using True by simp
  qed
next
  case False
  then show ?thesis unfolding guestmem_gpa2spa_page_def page_aligned by simp
qed

subsection \<open>Segmentation checks\<close>

text \<open>
  What the descriptor of a segment grants, from the fields of its access rights: bit 4 is S,
  bit 7 is P, bits 6:5 are the DPL; bit 3 tells code from data, bit 1 is R of a code segment and
  W of a data segment, bit 2 is the expand-down bit of a data segment.
\<close>

definition segment_grants :: "u32 \<Rightarrow> hpt_prot \<Rightarrow> hptw_cpl \<Rightarrow> bool" where
  "segment_grants ar mode cpl \<longleftrightarrow> bit ar 4 \<and> bit ar 7 \<and> cpl \<le> take_bit 2 (drop_bit 5 ar)
     \<and> (if bit ar 3 then mode AND (if bit ar 1 then HPT_PROTS_RX else HPT_PROT_EXEC_MASK) = mode
        else \<not> bit ar 2 \<and> mode AND (if bit ar 1 then HPT_PROTS_RW else HPT_PROTS_R) = mode)"

definition segment_range_ok :: "u64 \<Rightarrow> u32 \<Rightarrow> u64 \<Rightarrow> u64 \<Rightarrow> bool" where
  "segment_range_ok base limit addr sz \<longleftrightarrow>
     unat addr + unat sz < unat limit \<and> unat base + unat addr + unat sz < 2 ^ 32"

lemma and_bit_32:
  fixes ar :: u32
  shows "ar AND 2 = 0 \<longleftrightarrow> \<not> bit ar 1" "ar AND 4 = 0 \<longleftrightarrow> \<not> bit ar 2" "ar AND 8 = 0 \<longleftrightarrow> \<not> bit ar 3"
    "ar AND 16 = 0 \<longleftrightarrow> \<not> bit ar 4" "ar AND 128 = 0 \<longleftrightarrow> \<not> bit ar 7"
  using and_exp_eq_0_iff_not_bit [of ar 1] and_exp_eq_0_iff_not_bit [of ar 2] and_exp_eq_0_iff_not_bit [of ar 3]
    and_exp_eq_0_iff_not_bit [of ar 4] and_exp_eq_0_iff_not_bit [of ar 7] by simp_all

lemma segment_modes_eq:
  "segment_modes ar = (if bit ar 3 then Some (if bit ar 1 then HPT_PROTS_RX else HPT_PROT_EXEC_MASK)
     else if bit ar 2 then None else Some (if bit ar 1 then HPT_PROTS_RW else HPT_PROTS_R))"
  by (simp add: segment_modes_def and_bit_32 assert_c_def)

lemma segment_check_iff:
  fixes cpl :: hptw_cpl
  shows "do {
     supported_modes \<leftarrow> segment_modes ar;
     assert_c (supported_modes AND mode = mode);
     assert_c (ar AND 0x10 \<noteq> 0);
     assert_c (\<not> (drop_bit 5 ar AND 0x3) < cpl);
     assert_c (ar AND 0x80 \<noteq> 0)
   } = assert_c (segment_grants ar mode cpl)"
proof -
  have "drop_bit 5 ar AND 3 = take_bit 2 (drop_bit 5 ar)"
    by (simp add: take_bit_eq_mask mask_eq_exp_minus_1)
  then show ?thesis
    by (auto simp: segment_modes_eq segment_grants_def and_bit_32 assert_c_def not_less and.commute)
qed

lemma range_check_iff:
  fixes base addr sz :: u64 and limit :: u32
  assumes "sz \<le> UINT_MAX"
  shows "do {
     assert_c (addr \<le> UINT_MAX);
     assert_c (\<not> addr > UINT_MAX - sz);
     let addr_max = addr + sz in do {
       assert_c (\<not> addr_max \<ge> ucast limit);
       assert_c (\<not> base > UINT_MAX - addr_max)
     }
   } = assert_c (segment_range_ok base limit addr sz)"
proof -
  have lim: "unat limit < 2 ^ 32" using unsigned_less [of limit] by simp
  then have l: "unat (ucast limit :: u64) = unat limit"
    by (simp add: unsigned_ucast_eq take_bit_nat_eq_self)
  have u: "unat (UINT_MAX - x) = unat UINT_MAX - unat x" if "x \<le> UINT_MAX" for x :: u64
    using that by (rule unat_sub)
  have "addr \<le> UINT_MAX \<and> \<not> addr > UINT_MAX - sz \<longleftrightarrow> unat addr + unat sz < 2 ^ 32"
    using assms u [OF assms] by (auto simp: word_le_nat_alt word_less_nat_alt)
  moreover have "\<not> addr + sz \<ge> ucast limit \<and> \<not> base > UINT_MAX - (addr + sz) \<longleftrightarrow> segment_range_ok base limit addr sz"
    if "unat addr + unat sz < 2 ^ 32"
  proof -
    have a: "unat (addr + sz) = unat addr + unat sz"
      using that by (subst unat_add_lem [THEN iffD1]) simp_all
    then have "addr + sz \<le> UINT_MAX" using that by (simp add: word_le_nat_alt)
    then show ?thesis using u [of "addr + sz"] a l that
      by (auto simp: segment_range_ok_def word_le_nat_alt word_less_nat_alt)
  qed
  moreover have "segment_range_ok base limit addr sz \<Longrightarrow> unat addr + unat sz < 2 ^ 32"
    using lim by (simp add: segment_range_ok_def)
  ultimately show ?thesis by (auto simp: assert_c_def)
qed

lemma desegment_iff:
  assumes "VCPU_g64 v = Some g64" "segment_fields (vmcs v) seg = Some (base, ar, limit)" "sz \<le> UINT_MAX"
  shows "guestmem_desegment v seg addr sz mode cpl =
    (if (\<not> g64 \<longrightarrow> segment_range_ok base limit addr sz) \<and> (seg = CPU_SEG_CS \<or> \<not> g64 \<longrightarrow> segment_grants ar mode cpl)
     then Some (addr + base) else None)"
  unfolding guestmem_desegment_def assms(1,2) segment_check_iff range_check_iff [OF assms(3)]
  by (simp add: range_check_iff [OF assms(3)] assert_c_def)

text \<open>
  The \<open>n\<close> bytes at offset \<open>addr\<close> are in the segment: the limit is the last offset, and the linear addresses have 32 bits.
\<close>

definition in_segment :: "u64 \<Rightarrow> u32 \<Rightarrow> u64 \<Rightarrow> nat \<Rightarrow> bool" where
  "in_segment base limit addr n \<longleftrightarrow> (\<forall>k < n. unat addr + k \<le> unat limit \<and> unat base + unat addr + k < 2 ^ 32)"

lemma all_below_Suc: "(\<forall>k < Suc n. x + k < y) \<longleftrightarrow> x + n < y" for x y n :: nat
  by (auto dest: spec [of _ n])

lemma segment_range_iff:
  "segment_range_ok base limit addr sz \<longleftrightarrow>
     (\<forall>k < unat sz + 2. unat addr + k \<le> unat limit) \<and> (\<forall>k < unat sz + 1. unat base + unat addr + k < 2 ^ 32)"
  using all_below_Suc [of "unat sz + 1" "unat addr" "Suc (unat limit)"] all_below_Suc [of "unat sz" "unat base + unat addr" "2 ^ 32"]
  by (simp add: segment_range_ok_def less_Suc_eq_le) linarith

lemma segment_range_inside: "segment_range_ok base limit addr sz \<Longrightarrow> in_segment base limit addr (unat sz)"
  by (simp add: in_segment_def segment_range_ok_def)

subsection \<open>Granted accesses\<close>

lemma ctx_pa2ptr:
  "pa2ptr (guestmem_host_ctx r) s pa sz access cpl = Some (pa, sz)"
  "pa2ptr (guestmem_guest_ctx r t g) s pa sz access cpl = hptw_checked_access_va (guestmem_host_ctx r) s access cpl pa sz"
  by (simp_all add: guestmem_host_ctx_def guestmem_guest_ctx_def guestmem_host_ctx_pa2ptr_def guestmem_guest_ctx_pa2ptr_def
      spa2hva_def hva2spa_def)

lemma granted_leaf:
  assumes "hptw_checked_access_va ctx s access cpl va k = Some (p, 1)"
  obtains e pa sz where "hptw_checked_get_pmeo ctx s access cpl va = Some (OK e)" "hpt_pmeo_va_to_pa e va = Some pa"
    "pa2ptr ctx s pa sz access cpl = Some (p, 1)"
proof -
  obtain ret where ret: "hptw_checked_get_pmeo ctx s access cpl va = Some ret"
    using assms by (auto simp: hptw_checked_access_va_def bind_eq_Some_conv)
  then obtain e where "ret = OK e" using assms by (cases ret) (auto simp: hptw_checked_access_va_def)
  then show ?thesis using assms that ret by (auto simp: hptw_checked_access_va_def bind_eq_Some_conv)
qed

lemma checked_OK_prot:
  assumes ctx: "walk_env ctx" and ok: "hptw_checked_get_pmeo ctx s access cpl va = Some (OK e)"
  shows "hptw_get_pmeo ctx s 1 va = Some e" "access AND entry_prot e = access"
proof -
  obtain P u where eff: "hptw_get_effective_prots ctx s va = Some (P, u)"
    using walk_env.effective_prots_total [OF ctx, of s va] by force
  have "hptw_get_pmeo ctx s 1 va = Some e \<and> access AND entry_prot e = access"
    using eff
  proof (cases rule: effective_root_walk)
    case 1
    then show ?thesis using ok by (simp add: hptw_checked_get_pmeo_def)
  next
    case (2 pmo es pmo')
    then show ?thesis
      using ok checked_of_walk [OF 2, of access cpl] leaf_of_walk [OF 2] hptw_walk_nonempty [OF 2(2)]
      by (auto simp: entry_allows_def split: if_splits)
  qed
  then show "hptw_get_pmeo ctx s 1 va = Some e" "access AND entry_prot e = access" by simp_all
qed

end
