(* ===== verification/Emulation.thy ===== *)
theory Emulation
  imports Guestmem
begin

unbundle bit_operations_syntax

text \<open>
  The instruction emulator, \<^verbatim>\<open>x86vmx-emulation.c\<close>, with its types of \<^verbatim>\<open>xmhf-memprot.h\<close> and its three clients in
  \<^verbatim>\<open>memp-interface.c\<close>. It decodes one instruction of the guest (prefixes, opcode, ModR/M, SIB, displacement, immediate) and
  describes its operands; the client then performs the read or the write.

  Objects of the hypervisor that only the emulator names are values: the instruction bytes, the 64 bytes of an operand
  (\<open>op_val\<close>), the saved registers. A pointer to instruction bytes is the list of bytes from there to the end of the buffer, a pointer to a
  saved register is the register (\<open>None\<close> for \<^verbatim>\<open>NULL\<close>), the union in \<^verbatim>\<open>struct operand\<close> is its members side by side: every reader tests
  \<open>op_type\<close> first. Where the code hands the address of a local variable to \<open>guestmem_copy_gv2h\<close>, that address is the argument \<open>loc\<close>.
  \<open>xmm0\<close> is the content of the register of that name, which the code reads by inline assembly.
\<close>

abbreviation (input) BIT_SIZE_64 :: u64 where "BIT_SIZE_64 \<equiv> 8"
abbreviation (input) BIT_SIZE_32 :: u64 where "BIT_SIZE_32 \<equiv> 4"
abbreviation (input) BIT_SIZE_16 :: u64 where "BIT_SIZE_16 \<equiv> 2"
abbreviation (input) BIT_SIZE_8 :: u64 where "BIT_SIZE_8 \<equiv> 1"
abbreviation (input) XMM_REG_SIZE :: u64 where "XMM_REG_SIZE \<equiv> 16"
abbreviation (input) OPERAND_VAL_LENGTH :: nat where "OPERAND_VAL_LENGTH \<equiv> 64"
abbreviation (input) X86_INST_MAX_LEN :: u64 where "X86_INST_MAX_LEN \<equiv> 15"
abbreviation (input) CR0_PG :: u64 where "CR0_PG \<equiv> 0x80000000"
abbreviation (input) EFLAGS_CF :: u64 where "EFLAGS_CF \<equiv> 1"

text \<open>The values of \<^verbatim>\<open>enum CPU_Reg_Sel\<close> that the code compares with.\<close>

abbreviation (input) REG_AX :: u8 where "REG_AX \<equiv> 0"
abbreviation (input) REG_SP :: u8 where "REG_SP \<equiv> 4"
abbreviation (input) REG_BP :: u8 where "REG_BP \<equiv> 5"

subsection \<open>Bytes\<close>

fun le_val :: "u8 list \<Rightarrow> u64" where
  "le_val [] = 0"
| "le_val (b # bs) = ucast b OR push_bit 8 (le_val bs)"

fun le_bytes :: "nat \<Rightarrow> u64 \<Rightarrow> u8 list" where
  "le_bytes 0 x = []"
| "le_bytes (Suc n) x = ucast x # le_bytes n (drop_bit 8 x)"

text \<open>The value of \<open>n\<close> bytes behind a pointer.\<close>

definition fetch :: "u64 \<Rightarrow> u8 list \<Rightarrow> u64 exec" where
  "fetch n bs = do { assert_c (unat n \<le> length bs); Some (le_val (take (unat n) bs)) }"

definition overlay :: "u8 list \<Rightarrow> nat \<Rightarrow> u8 list \<Rightarrow> u8 list" where
  "overlay buf k bs = take k buf @ bs @ drop (k + length bs) buf"

definition read_bytes :: "memory \<Rightarrow> u64 \<Rightarrow> nat \<Rightarrow> u8 list" where
  "read_bytes m a n = map (\<lambda>i. m (a + of_nat i)) [0..<n]"

definition write_bytes :: "memory \<Rightarrow> u64 \<Rightarrow> u8 list \<Rightarrow> memory" where
  "write_bytes m a bs = (\<lambda>x. if unat (x - a) < length bs then bs ! unat (x - a) else m x)"

subsection \<open>Types\<close>

record prefix_t =
  p_lock :: bool
  p_repe :: bool
  p_repne :: bool
  p_seg :: cpu_segment
  p_opsize :: bool
  p_addrsize :: bool
  p_rex :: u8

definition rex_b :: "prefix_t \<Rightarrow> u8" where "rex_b p = p_rex p AND 1"
definition rex_x :: "prefix_t \<Rightarrow> u8" where "rex_x p = drop_bit 1 (p_rex p) AND 1"
definition rex_r :: "prefix_t \<Rightarrow> u8" where "rex_r p = drop_bit 2 (p_rex p) AND 1"
definition rex_w :: "prefix_t \<Rightarrow> u8" where "rex_w p = drop_bit 3 (p_rex p) AND 1"
definition rex_four :: "prefix_t \<Rightarrow> u8" where "rex_four p = drop_bit 4 (p_rex p)"

record postfix_t =
  modrm :: u8
  sib :: u8
  displacement :: "u8 list"
  immediate :: "u8 list"

definition modrm_rm :: "postfix_t \<Rightarrow> u8" where "modrm_rm q = modrm q AND 7"
definition modrm_regop :: "postfix_t \<Rightarrow> u8" where "modrm_regop q = drop_bit 3 (modrm q) AND 7"
definition modrm_mod :: "postfix_t \<Rightarrow> u8" where "modrm_mod q = drop_bit 6 (modrm q)"
definition sib_base :: "postfix_t \<Rightarrow> u8" where "sib_base q = sib q AND 7"
definition sib_index :: "postfix_t \<Rightarrow> u8" where "sib_index q = drop_bit 3 (sib q) AND 7"
definition sib_scale :: "postfix_t \<Rightarrow> u8" where "sib_scale q = drop_bit 6 (sib q)"

datatype op_type = OPERAND_REG | OPERAND_MEM | OPERAND_IMM | OPERAND_NONE

record operand =
  op_type :: op_type
  op_val :: "u8 list"
  operand_size :: u64
  reg_hvaddr :: "CPU_Reg_Sel option"
  mem_seg :: cpu_segment
  mem_offset :: u64
  mem_gvaddr :: u64

record 'x emu_env =
  e_vcpu :: vcpu
  e_r :: regs
  e_ctx_pair :: "'x guestmem_hptw_ctx_pair"
  e_g64 :: bool
  e_cs_d :: bool
  e_pinst :: "u8 list"
  e_pinst_len :: u32
  e_src :: operand
  e_dst :: operand
  e_prefix :: prefix_t
  e_postfix :: postfix_t
  e_seg :: cpu_segment
  e_displacement_len :: u64
  e_immediate_len :: u64

record mem_access_env =
  ma_hvaddr :: "u8 list"
  ma_gaddr :: u64
  ma_seg :: cpu_segment
  ma_size :: u64
  ma_mode :: hpt_prot
  ma_cpl :: hptw_cpl

type_synonym 'x emu_result = "unit ret \<times> 'x emu_env \<times> 'x eptlock_scheme"

subsection \<open>Access to guest memory\<close>

definition eval_guest_memory_gvaddr :: "vcpu \<Rightarrow> mem_access_env \<Rightarrow> u64 \<Rightarrow> u64 exec" where
  "eval_guest_memory_gvaddr v env guest_mem_linear_addr =
     guestmem_desegment v (ma_seg env) guest_mem_linear_addr (ma_size env) (ma_mode env) (ma_cpl env)"

text \<open>One turn of the loop translates the address \<open>gva\<close>: the host address and the number of bytes to copy.\<close>

definition access_gva ::
  "vcpu \<Rightarrow> 'x guestmem_hptw_ctx_pair \<Rightarrow> mem_access_env \<Rightarrow> 'x eptlock_scheme \<Rightarrow> u64 \<Rightarrow> u64 \<Rightarrow> (u64 \<times> u64) exec" where
  "access_gva v ctx_pair env s gva sz = do {
     (gpa, sz) \<leftarrow> (if guest_CR0 (vmcs v) AND CR0_PG \<noteq> 0 then do {
         r \<leftarrow> hptw_checked_get_pmeo (guest_ctx ctx_pair) s (ma_mode env) (ma_cpl env) gva;
         case r of
           ERR \<Rightarrow> None
         | OK pmeo \<Rightarrow> do {
             gpa \<leftarrow> hpt_pmeo_va_to_pa pmeo gva;
             remaining \<leftarrow> hpt_remaining_on_page pmeo gpa;
             Some (gpa, min sz remaining)
           }
       }
       else Some (gva, sz));
     spa \<leftarrow> hptw_gpa_to_spa (host_ctx ctx_pair) s gpa;
     hva \<leftarrow> spa2hva spa;
     Some (hva, sz)
   }"

partial_function (option) access_memory_gv_loop ::
  "vcpu \<Rightarrow> 'x guestmem_hptw_ctx_pair \<Rightarrow> mem_access_env \<Rightarrow> u64 \<Rightarrow> u8 list \<Rightarrow> 'x eptlock_scheme \<Rightarrow> u64
    \<Rightarrow> (unit ret \<times> u8 list \<times> 'x eptlock_scheme) exec" where
  "access_memory_gv_loop v ctx_pair env lin_addr buf s copied =
     (if copied < ma_size env then do {
        (hva, sz) \<leftarrow> access_gva v ctx_pair env s (lin_addr + copied) (ma_size env - copied);
        if hva = 0 then Some (ERR, buf, s)
        else do {
          assert_c (unat copied + unat sz \<le> length buf);
          if ma_mode env AND HPT_PROT_WRITE_MASK \<noteq> 0
          then access_memory_gv_loop v ctx_pair env lin_addr buf
                 (s\<lparr>mem := write_bytes (mem s) hva (take (unat sz) (drop (unat copied) buf))\<rparr>) (copied + sz)
          else access_memory_gv_loop v ctx_pair env lin_addr
                 (overlay buf (unat copied) (read_bytes (mem s) hva (unat sz))) s (copied + sz)
        }
      }
      else Some (OK (), buf, s))"

definition access_memory_gv ::
  "vcpu \<Rightarrow> 'x guestmem_hptw_ctx_pair \<Rightarrow> mem_access_env \<Rightarrow> 'x eptlock_scheme
    \<Rightarrow> (unit ret \<times> u8 list \<times> 'x eptlock_scheme) exec" where
  "access_memory_gv v ctx_pair env s = do {
     s \<leftarrow> memprot_x86vmx_eptlock_read_lock (pair_vcpu ctx_pair) s;
     lin_addr \<leftarrow> guestmem_desegment v (ma_seg env) (ma_gaddr env) (ma_size env) (ma_mode env) (ma_cpl env);
     (ret, buf, s) \<leftarrow> access_memory_gv_loop v ctx_pair env lin_addr (ma_hvaddr env) s 0;
     case ret of
       ERR \<Rightarrow> Some (ERR, buf, s)
     | OK _ \<Rightarrow> do {
         s \<leftarrow> memprot_x86vmx_eptlock_read_unlock (pair_vcpu ctx_pair) s;
         Some (OK (), buf, s)
       }
   }"

definition x86_vmx_access_memory_gv ::
  "vcpu \<Rightarrow> 'x guestmem_hptw_ctx_pair \<Rightarrow> mem_access_env \<Rightarrow> 'x eptlock_scheme
    \<Rightarrow> (unit ret \<times> u8 list \<times> 'x eptlock_scheme) exec" where
  "x86_vmx_access_memory_gv v ctx_pair env s = access_memory_gv v ctx_pair env s"

subsection \<open>Sizes, registers and operand values\<close>

text \<open>The pairs of destination and source size for which the C code has a line.\<close>

definition extend_sizes :: "(u64 \<times> u64) list" where
  "extend_sizes = [(1, 1), (2, 1), (4, 1), (8, 1), (2, 2), (4, 2), (8, 2), (4, 4), (8, 4), (8, 8)]"

definition zero_extend :: "u64 \<Rightarrow> u64 \<Rightarrow> u64 \<Rightarrow> u64 exec" where
  "zero_extend src dst_size src_size = do {
     assert_c ((dst_size, src_size) \<in> set extend_sizes);
     Some (take_bit (8 * unat src_size) src)
   }"

definition sign_extend :: "u64 \<Rightarrow> u64 \<Rightarrow> u64 \<Rightarrow> u64 exec" where
  "sign_extend src dst_size src_size = do {
     assert_c ((dst_size, src_size) \<in> set extend_sizes);
     Some (take_bit (8 * unat dst_size) (signed_take_bit (8 * unat src_size - 1) src))
   }"

definition get_reg_ptr :: "u8 \<Rightarrow> u64 \<Rightarrow> CPU_Reg_Sel exec" where
  "get_reg_ptr index sz = do {
     assert_c (sz \<noteq> BIT_SIZE_8);
     (if index = 0 then Some CPU_REG_AX else if index = 1 then Some CPU_REG_CX
      else if index = 2 then Some CPU_REG_DX else if index = 3 then Some CPU_REG_BX
      else if index = 4 then Some CPU_REG_SP else if index = 5 then Some CPU_REG_BP
      else if index = 6 then Some CPU_REG_SI else if index = 7 then Some CPU_REG_DI
      else if index = 8 then Some CPU_REG_R8 else if index = 9 then Some CPU_REG_R9
      else if index = 10 then Some CPU_REG_R10 else if index = 11 then Some CPU_REG_R11
      else if index = 12 then Some CPU_REG_R12 else if index = 13 then Some CPU_REG_R13
      else if index = 14 then Some CPU_REG_R14 else if index = 15 then Some CPU_REG_R15
      else None)
   }"

text \<open>The 64 bits behind such a pointer; the stack pointer is in the shadow VMCS.\<close>

definition load_reg :: "vcpu \<Rightarrow> regs \<Rightarrow> CPU_Reg_Sel \<Rightarrow> u64 exec" where
  "load_reg v r sel = (case sel of
     CPU_REG_AX \<Rightarrow> Some (rax r) | CPU_REG_CX \<Rightarrow> Some (rcx r) | CPU_REG_DX \<Rightarrow> Some (rdx r) | CPU_REG_BX \<Rightarrow> Some (rbx r)
   | CPU_REG_SP \<Rightarrow> Some (guest_RSP (vmcs v))
   | CPU_REG_BP \<Rightarrow> Some (rbp r) | CPU_REG_SI \<Rightarrow> Some (rsi r) | CPU_REG_DI \<Rightarrow> Some (rdi r)
   | CPU_REG_R8 \<Rightarrow> Some (r8 r) | CPU_REG_R9 \<Rightarrow> Some (r9 r) | CPU_REG_R10 \<Rightarrow> Some (r10 r) | CPU_REG_R11 \<Rightarrow> Some (r11 r)
   | CPU_REG_R12 \<Rightarrow> Some (r12 r) | CPU_REG_R13 \<Rightarrow> Some (r13 r) | CPU_REG_R14 \<Rightarrow> Some (r14 r) | CPU_REG_R15 \<Rightarrow> Some (r15 r)
   | CPU_REG_FLAGS \<Rightarrow> None | CPU_REG_IP \<Rightarrow> None)"

definition store_reg :: "vcpu \<Rightarrow> regs \<Rightarrow> CPU_Reg_Sel \<Rightarrow> u64 \<Rightarrow> (vcpu \<times> regs) exec" where
  "store_reg v r sel x = (case sel of
     CPU_REG_AX \<Rightarrow> Some (v, r\<lparr>rax := x\<rparr>) | CPU_REG_CX \<Rightarrow> Some (v, r\<lparr>rcx := x\<rparr>)
   | CPU_REG_DX \<Rightarrow> Some (v, r\<lparr>rdx := x\<rparr>) | CPU_REG_BX \<Rightarrow> Some (v, r\<lparr>rbx := x\<rparr>)
   | CPU_REG_SP \<Rightarrow> Some (v\<lparr>vmcs := (vmcs v)\<lparr>guest_RSP := x\<rparr>\<rparr>, r)
   | CPU_REG_BP \<Rightarrow> Some (v, r\<lparr>rbp := x\<rparr>) | CPU_REG_SI \<Rightarrow> Some (v, r\<lparr>rsi := x\<rparr>) | CPU_REG_DI \<Rightarrow> Some (v, r\<lparr>rdi := x\<rparr>)
   | CPU_REG_R8 \<Rightarrow> Some (v, r\<lparr>r8 := x\<rparr>) | CPU_REG_R9 \<Rightarrow> Some (v, r\<lparr>r9 := x\<rparr>)
   | CPU_REG_R10 \<Rightarrow> Some (v, r\<lparr>r10 := x\<rparr>) | CPU_REG_R11 \<Rightarrow> Some (v, r\<lparr>r11 := x\<rparr>)
   | CPU_REG_R12 \<Rightarrow> Some (v, r\<lparr>r12 := x\<rparr>) | CPU_REG_R13 \<Rightarrow> Some (v, r\<lparr>r13 := x\<rparr>)
   | CPU_REG_R14 \<Rightarrow> Some (v, r\<lparr>r14 := x\<rparr>) | CPU_REG_R15 \<Rightarrow> Some (v, r\<lparr>r15 := x\<rparr>)
   | CPU_REG_FLAGS \<Rightarrow> None | CPU_REG_IP \<Rightarrow> None)"

definition get_operand_size :: "'x emu_env \<Rightarrow> u64" where
  "get_operand_size e =
     (if e_g64 e then
        (if rex_w (e_prefix e) \<noteq> 0 then BIT_SIZE_64
         else if p_opsize (e_prefix e) then BIT_SIZE_16 else BIT_SIZE_32)
      else if p_opsize (e_prefix e) then (if e_cs_d e then BIT_SIZE_16 else BIT_SIZE_32)
      else (if e_cs_d e then BIT_SIZE_32 else BIT_SIZE_16))"

definition get_address_size :: "'x emu_env \<Rightarrow> u64" where
  "get_address_size e =
     (if e_g64 e then (if p_addrsize (e_prefix e) then BIT_SIZE_32 else BIT_SIZE_64)
      else if p_addrsize (e_prefix e) then (if e_cs_d e then BIT_SIZE_16 else BIT_SIZE_32)
      else (if e_cs_d e then BIT_SIZE_32 else BIT_SIZE_16))"

definition emu_cpl :: "'x emu_env \<Rightarrow> hptw_cpl" where
  "emu_cpl e = ucast (guest_CS_selector (vmcs (e_vcpu e)) AND 3)"

definition eval_operand_value ::
  "'x emu_env \<Rightarrow> operand \<Rightarrow> 'x eptlock_scheme \<Rightarrow> (unit ret \<times> operand \<times> 'x eptlock_scheme) exec" where
  "eval_operand_value e oper s = (case op_type oper of
     OPERAND_REG \<Rightarrow> do {
       sel \<leftarrow> reg_hvaddr oper;
       x \<leftarrow> load_reg (e_vcpu e) (e_r e) sel;
       Some (OK (), oper\<lparr>op_val := overlay (op_val oper) 0 (le_bytes (unat (operand_size oper)) x)\<rparr>, s)
     }
   | OPERAND_MEM \<Rightarrow> do {
       (ret, buf, s) \<leftarrow> access_memory_gv (e_vcpu e) (e_ctx_pair e)
         \<lparr>ma_hvaddr = op_val oper, ma_gaddr = mem_offset oper, ma_seg = mem_seg oper, ma_size = operand_size oper,
          ma_mode = HPT_PROT_READ_MASK, ma_cpl = emu_cpl e\<rparr> s;
       Some (ret, oper\<lparr>op_val := buf\<rparr>, s)
     }
   | OPERAND_IMM \<Rightarrow>
       if operand_size oper = BIT_SIZE_64 then do {
         imm \<leftarrow> fetch 4 (immediate (e_postfix e));
         Some (OK (), oper\<lparr>op_val := overlay (op_val oper) 0 (le_bytes 8 (signed_take_bit 31 imm))\<rparr>, s)
       }
       else do {
         imm \<leftarrow> fetch (operand_size oper) (immediate (e_postfix e));
         Some (OK (), oper\<lparr>op_val := overlay (op_val oper) 0 (le_bytes (unat (operand_size oper)) imm)\<rparr>, s)
       }
   | OPERAND_NONE \<Rightarrow> Some (ERR, oper, s))"

subsection \<open>Addressing modes\<close>

definition get_modrm_reg :: "'x emu_env \<Rightarrow> u8" where
  "get_modrm_reg e = (if rex_four (e_prefix e) \<noteq> 0 then modrm_regop (e_postfix e) OR push_bit 3 (rex_r (e_prefix e))
     else modrm_regop (e_postfix e))"

definition get_modrm_rm :: "'x emu_env \<Rightarrow> u8" where
  "get_modrm_rm e = (if rex_four (e_prefix e) \<noteq> 0 then modrm_rm (e_postfix e) OR push_bit 3 (rex_b (e_prefix e))
     else modrm_rm (e_postfix e))"

definition get_sib_index :: "'x emu_env \<Rightarrow> u8" where
  "get_sib_index e = (if rex_four (e_prefix e) \<noteq> 0 then sib_index (e_postfix e) OR push_bit 3 (rex_x (e_prefix e))
     else sib_index (e_postfix e))"

definition get_sib_base :: "'x emu_env \<Rightarrow> u8" where
  "get_sib_base e = (if rex_four (e_prefix e) \<noteq> 0 then sib_base (e_postfix e) OR push_bit 3 (rex_b (e_prefix e))
     else sib_base (e_postfix e))"

definition eval_modrm_reg :: "'x emu_env \<Rightarrow> CPU_Reg_Sel exec" where
  "eval_modrm_reg e = get_reg_ptr (get_modrm_reg e) (get_operand_size e)"

definition compute_segment :: "'x emu_env \<Rightarrow> u8 \<Rightarrow> 'x emu_env exec" where
  "compute_segment e index = do {
     assert_c (e_seg e = CPU_SEG_UNKNOWN);
     Some (if p_seg (e_prefix e) \<noteq> CPU_SEG_UNKNOWN then e\<lparr>e_seg := p_seg (e_prefix e)\<rparr>
           else if index = REG_BP \<or> index = REG_SP then e\<lparr>e_seg := CPU_SEG_SS\<rparr>
           else e\<lparr>e_seg := CPU_SEG_DS\<rparr>)
   }"

definition eval_sib_addr :: "'x emu_env \<Rightarrow> (u64 \<times> 'x emu_env) exec" where
  "eval_sib_addr e = (let address_size = get_address_size e; idx = get_sib_index e; bs = get_sib_base e in do {
     assert_c (address_size \<noteq> BIT_SIZE_16);
     scaled_index \<leftarrow> (if idx \<noteq> REG_SP then do {
         sel \<leftarrow> get_reg_ptr idx address_size;
         x \<leftarrow> load_reg (e_vcpu e) (e_r e) sel;
         x \<leftarrow> zero_extend x 8 address_size;
         Some (push_bit (unat (sib_scale (e_postfix e))) x)
       }
       else Some 0);
     (base, e) \<leftarrow> (if \<not> (modrm_mod (e_postfix e) = 0 \<and> bs mod 8 = REG_BP) then do {
         sel \<leftarrow> get_reg_ptr bs address_size;
         x \<leftarrow> load_reg (e_vcpu e) (e_r e) sel;
         x \<leftarrow> zero_extend x 8 address_size;
         e \<leftarrow> compute_segment e bs;
         Some (x, e)
       }
       else do { e \<leftarrow> compute_segment e REG_AX; Some (0, e) });
     Some (scaled_index + base, e)
   })"

text \<open>Where a ModR/M operand lies: in guest memory, or in a register.\<close>

datatype modrm_place = In_Memory u64 | In_Register CPU_Reg_Sel

definition eval_modrm_addr :: "'x emu_env \<Rightarrow> (modrm_place \<times> 'x emu_env) exec" where
  "eval_modrm_addr e = (let address_size = get_address_size e in do {
     assert_c (address_size \<noteq> BIT_SIZE_16);
     if modrm_mod (e_postfix e) = 3 then do {
       ans \<leftarrow> get_reg_ptr (get_modrm_rm e) (get_operand_size e);
       Some (In_Register ans, e)
     }
     else do {
       (addr, e) \<leftarrow> (if get_modrm_rm e mod 8 = REG_SP then eval_sib_addr e
         else if get_modrm_rm e mod 8 = REG_BP \<and> modrm_mod (e_postfix e) = 0 then do {
           assert_c (address_size \<noteq> BIT_SIZE_64);
           e \<leftarrow> compute_segment e REG_AX;
           Some (0, e)
         }
         else do {
           rm \<leftarrow> Some (get_modrm_rm e);
           sel \<leftarrow> get_reg_ptr rm address_size;
           x \<leftarrow> load_reg (e_vcpu e) (e_r e) sel;
           addr \<leftarrow> zero_extend x 8 address_size;
           e \<leftarrow> compute_segment e rm;
           Some (addr, e)
         });
       addr \<leftarrow> (if e_displacement_len e \<noteq> 0 then do {
           d \<leftarrow> fetch (e_displacement_len e) (displacement (e_postfix e));
           d \<leftarrow> sign_extend d 8 (e_displacement_len e);
           Some (addr + d)
         }
         else Some addr);
       addr \<leftarrow> zero_extend addr 8 address_size;
       Some (In_Memory addr, e)
     }
   })"

subsection \<open>Decoding\<close>

definition pinst_at :: "'x emu_env \<Rightarrow> nat \<Rightarrow> u8 exec" where
  "pinst_at e i = (if i < length (e_pinst e) then Some (e_pinst e ! i) else None)"

definition advance :: "u64 \<Rightarrow> 'x emu_env \<Rightarrow> 'x emu_env" where
  "advance n e = e\<lparr>e_pinst := drop (unat n) (e_pinst e), e_pinst_len := e_pinst_len e - ucast n\<rparr>"

text \<open>The legacy prefixes: what one byte does to the prefix state; \<open>None\<close> if it is not a prefix.\<close>

definition legacy_prefix :: "u8 \<Rightarrow> prefix_t \<Rightarrow> prefix_t option" where
  "legacy_prefix b p =
     (if b = 0x26 then Some (p\<lparr>p_seg := CPU_SEG_ES\<rparr>) else if b = 0x2e then Some (p\<lparr>p_seg := CPU_SEG_CS\<rparr>)
      else if b = 0x36 then Some (p\<lparr>p_seg := CPU_SEG_SS\<rparr>) else if b = 0x3e then Some (p\<lparr>p_seg := CPU_SEG_DS\<rparr>)
      else if b = 0x64 then Some (p\<lparr>p_seg := CPU_SEG_FS\<rparr>) else if b = 0x65 then Some (p\<lparr>p_seg := CPU_SEG_GS\<rparr>)
      else if b = 0x66 then Some (p\<lparr>p_opsize := True\<rparr>) else if b = 0x67 then Some (p\<lparr>p_addrsize := True\<rparr>)
      else if b = 0xf0 then Some (p\<lparr>p_lock := True\<rparr>) else if b = 0xf2 then Some (p\<lparr>p_repne := True\<rparr>)
      else if b = 0xf3 then Some (p\<lparr>p_repe := True\<rparr>) else None)"

function parse_legacy_prefixes :: "'x emu_env \<Rightarrow> 'x emu_env exec" where
  "parse_legacy_prefixes e = do {
     assert_c (e_pinst_len e > 0);
     b \<leftarrow> pinst_at e 0;
     case legacy_prefix b (e_prefix e) of
       None \<Rightarrow> Some e
     | Some p \<Rightarrow> parse_legacy_prefixes (advance 1 (e\<lparr>e_prefix := p\<rparr>))
   }"
  by pat_completeness auto
termination
  by (relation "measure (\<lambda>e. length (e_pinst e))") (auto simp: pinst_at_def advance_def split: if_splits)

declare parse_legacy_prefixes.simps [simp del]

definition parse_prefix :: "'x emu_env \<Rightarrow> 'x emu_env exec" where
  "parse_prefix e = do {
     e \<leftarrow> parse_legacy_prefixes e;
     b \<leftarrow> pinst_at e 0;
     if e_g64 e \<and> b AND 0xf0 = 0x40 then do {
       e \<leftarrow> Some (advance 1 (e\<lparr>e_prefix := (e_prefix e)\<lparr>p_rex := b\<rparr>\<rparr>));
       assert_c (e_pinst_len e > 0);
       Some e
     }
     else Some e
   }"

text \<open>
  The bytes after the opcode. \<open>modrm_disp\<close> is the switch on \<^verbatim>\<open>mod\<close>; the \<open>assert_c\<close> of \<open>set_disp\<close> and on \<open>has_sib\<close> are
  the macros \<^verbatim>\<open>SET_DISP\<close> and \<^verbatim>\<open>SET_SIB\<close>.
\<close>

definition set_disp :: "u64 \<Rightarrow> u64 \<Rightarrow> u64 exec" where
  "set_disp displacement_len x = do { assert_c (displacement_len = 0); Some x }"

definition modrm_disp :: "'x emu_env \<Rightarrow> u64 \<Rightarrow> u64 exec" where
  "modrm_disp e displacement_len =
     (if modrm_mod (e_postfix e) = 0 then
        (if get_address_size e = BIT_SIZE_16 then
           (if get_modrm_rm e = 6 then set_disp displacement_len BIT_SIZE_16 else Some displacement_len)
         else if get_address_size e = BIT_SIZE_32 \<or> get_address_size e = BIT_SIZE_64 then
           (if get_modrm_rm e mod 8 = REG_BP then set_disp displacement_len BIT_SIZE_32 else Some displacement_len)
         else None)
      else if modrm_mod (e_postfix e) = 1 then set_disp displacement_len BIT_SIZE_8
      else if modrm_mod (e_postfix e) = 2 then set_disp displacement_len (min (get_address_size e) BIT_SIZE_32)
      else if modrm_mod (e_postfix e) = 3 then Some displacement_len
      else None)"

definition parse_modrm :: "'x emu_env \<Rightarrow> bool \<Rightarrow> u64 \<Rightarrow> ('x emu_env \<times> bool \<times> u64) exec" where
  "parse_modrm e has_sib displacement_len = do {
     assert_c (e_pinst_len e \<ge> 1);
     b \<leftarrow> pinst_at e 0;
     e \<leftarrow> Some (advance 1 (e\<lparr>e_postfix := (e_postfix e)\<lparr>modrm := b\<rparr>\<rparr>));
     displacement_len \<leftarrow> modrm_disp e displacement_len;
     if modrm_mod (e_postfix e) \<noteq> 3 \<and> get_address_size e \<noteq> BIT_SIZE_16 \<and> get_modrm_rm e mod 8 = REG_SP
     then do { assert_c (\<not> has_sib); Some (e, True, displacement_len) }
     else Some (e, has_sib, displacement_len)
   }"

definition parse_sib :: "'x emu_env \<Rightarrow> u64 \<Rightarrow> ('x emu_env \<times> u64) exec" where
  "parse_sib e displacement_len = do {
     assert_c (e_pinst_len e \<ge> 1);
     b \<leftarrow> pinst_at e 0;
     e \<leftarrow> Some (advance 1 (e\<lparr>e_postfix := (e_postfix e)\<lparr>sib := b\<rparr>\<rparr>));
     displacement_len \<leftarrow> (if modrm_mod (e_postfix e) = 0 \<and> get_sib_base e mod 8 = REG_BP
       then set_disp displacement_len BIT_SIZE_32 else Some displacement_len);
     Some (e, displacement_len)
   }"

definition parse_postfix :: "'x emu_env \<Rightarrow> bool \<Rightarrow> bool \<Rightarrow> u64 \<Rightarrow> u64 \<Rightarrow> 'x emu_env exec" where
  "parse_postfix e has_modrm has_sib displacement_len immediate_len = do {
     (e, has_sib, displacement_len) \<leftarrow>
       (if has_modrm then parse_modrm e has_sib displacement_len else Some (e, has_sib, displacement_len));
     (e, displacement_len) \<leftarrow> (if has_sib then parse_sib e displacement_len else Some (e, displacement_len));
     e \<leftarrow> (if displacement_len > 0 then do {
         assert_c (ucast (e_pinst_len e) \<ge> displacement_len);
         Some (advance displacement_len (e\<lparr>e_postfix := (e_postfix e)\<lparr>displacement := e_pinst e\<rparr>\<rparr>))
       } else Some e);
     e \<leftarrow> (if immediate_len > 0 then do {
         assert_c (ucast (e_pinst_len e) \<ge> immediate_len);
         Some (advance immediate_len (e\<lparr>e_postfix := (e_postfix e)\<lparr>immediate := e_pinst e\<rparr>\<rparr>))
       } else Some e);
     assert_c (e_pinst_len e = 0);
     Some (e\<lparr>e_displacement_len := displacement_len, e_immediate_len := immediate_len\<rparr>)
   }"

subsection \<open>Two-byte opcodes\<close>

definition store_xmm0 :: "u8 list \<Rightarrow> 'x emu_env \<Rightarrow> 'x emu_env" where
  "store_xmm0 xmm0 e = e\<lparr>e_src := (e_src e)\<lparr>op_type := OPERAND_REG, operand_size := XMM_REG_SIZE,
     op_val := overlay (op_val (e_src e)) 0 xmm0\<rparr>\<rparr>"

definition emu_0f_11 :: "u8 list \<Rightarrow> 'x emu_env \<Rightarrow> unit ret \<times> 'x emu_env" where
  "emu_0f_11 xmm0 e =
     (if e_pinst_len e = 1 \<and> pinst_at e 0 = Some 0x01 then (OK (), store_xmm0 xmm0 e)
      else if e_pinst_len e = 2 \<and> pinst_at e 0 = Some 0x04 then (OK (), store_xmm0 xmm0 e)
      else if e_pinst_len e = 1 \<and> pinst_at e 0 = Some 0x00 then (OK (), store_xmm0 xmm0 e)
      else (ERR, e))"

definition emu_0f_29 :: "u8 list \<Rightarrow> 'x emu_env \<Rightarrow> unit ret \<times> 'x emu_env" where
  "emu_0f_29 xmm0 e =
     (if e_pinst_len e = 1 \<and> pinst_at e 0 = Some 0x01 then (OK (), store_xmm0 xmm0 e)
      else if e_pinst_len e = 2 \<and> pinst_at e 0 = Some 0x41 then (OK (), store_xmm0 xmm0 e)
      else (ERR, e))"

definition emu_0f_7f :: "u8 list \<Rightarrow> 'x emu_env \<Rightarrow> unit ret \<times> 'x emu_env" where
  "emu_0f_7f xmm0 e =
     (if e_pinst_len e = 2 \<and> pinst_at e 0 = Some 0x04 \<and> pinst_at e 1 = Some 0xc8 then (OK (), store_xmm0 xmm0 e)
      else if e_pinst_len e = 1 \<and> pinst_at e 0 = Some 0x01 then (OK (), store_xmm0 xmm0 e)
      else (ERR, e))"

text \<open>BT, BTS, BTR and BTC with an immediate. \<open>bit_op\<close> is the switch on the \<^verbatim>\<open>regop\<close> field.\<close>

definition bit_op :: "u8 \<Rightarrow> nat \<Rightarrow> u64 \<Rightarrow> u64 exec" where
  "bit_op regop b value =
     (if regop = 4 then Some value
      else if regop = 5 then Some (value OR push_bit b 1)
      else if regop = 6 then Some (value AND NOT (push_bit b 1))
      else if regop = 7 then Some (value XOR push_bit b 1)
      else None)"

definition set_carry :: "bool \<Rightarrow> vcpu \<Rightarrow> vcpu" where
  "set_carry c v = v\<lparr>vmcs := (vmcs v)\<lparr>guest_RFLAGS :=
     (if c then guest_RFLAGS (vmcs v) OR EFLAGS_CF else guest_RFLAGS (vmcs v) AND NOT EFLAGS_CF)\<rparr>\<rparr>"

text \<open>The operand in memory; \<open>value\<close> is the local variable of that name, which is zero here.\<close>

definition emu_0f_ba_memory :: "u64 \<Rightarrow> nat \<Rightarrow> u64 \<Rightarrow> u64 \<Rightarrow> 'x emu_env \<Rightarrow> 'x eptlock_scheme \<Rightarrow> 'x emu_result exec" where
  "emu_0f_ba_memory opsize bitno value guest_linear_addr e s = do {
     env \<leftarrow> Some \<lparr>ma_hvaddr = le_bytes 8 value, ma_gaddr = guest_linear_addr, ma_seg = e_seg e, ma_size = opsize,
       ma_mode = HPT_PROT_READ_MASK, ma_cpl = emu_cpl e\<rparr>;
     gvaddr \<leftarrow> eval_guest_memory_gvaddr (e_vcpu e) env guest_linear_addr;
     e \<leftarrow> Some (e\<lparr>e_src := (e_src e)\<lparr>op_type := OPERAND_MEM, operand_size := opsize, mem_seg := e_seg e,
       mem_offset := guest_linear_addr, mem_gvaddr := gvaddr\<rparr>\<rparr>);
     (ret, src, s) \<leftarrow> eval_operand_value e (e_src e) s;
     e \<leftarrow> Some (e\<lparr>e_src := src\<rparr>);
     case ret of
       ERR \<Rightarrow> Some (ERR, e, s)
     | OK _ \<Rightarrow> do {
         e \<leftarrow> Some (e\<lparr>e_vcpu := set_carry (drop_bit bitno value AND 1 \<noteq> 0) (e_vcpu e)\<rparr>);
         value \<leftarrow> bit_op (modrm_regop (e_postfix e)) bitno value;
         e \<leftarrow> Some (e\<lparr>e_src := (e_src e)\<lparr>op_val := overlay (op_val (e_src e)) 0 (le_bytes 8 value)\<rparr>\<rparr>);
         gvaddr \<leftarrow> eval_guest_memory_gvaddr (e_vcpu e) env guest_linear_addr;
         e \<leftarrow> Some (e\<lparr>e_dst := (e_dst e)\<lparr>op_type := OPERAND_MEM, operand_size := opsize, mem_seg := e_seg e,
           mem_offset := guest_linear_addr, mem_gvaddr := gvaddr\<rparr>\<rparr>);
         Some (OK (), e, s)
       }
   }"

definition emu_0f_ba :: "'x emu_env \<Rightarrow> 'x eptlock_scheme \<Rightarrow> 'x emu_result exec" where
  "emu_0f_ba e s = do {
     e \<leftarrow> Some (e\<lparr>e_prefix := (e_prefix e)\<lparr>p_lock := True\<rparr>\<rparr>);
     assert_c (\<not> p_repe (e_prefix e));
     assert_c (\<not> p_repne (e_prefix e));
     e \<leftarrow> parse_postfix e True False 0 1;
     opsize \<leftarrow> Some (get_operand_size e);
     imm \<leftarrow> fetch 1 (immediate (e_postfix e));
     bitno \<leftarrow> Some (unat (imm mod (opsize * 8)));
     (place, e) \<leftarrow> eval_modrm_addr e;
     case place of
       In_Register _ \<Rightarrow> None
     | In_Memory guest_linear_addr \<Rightarrow> emu_0f_ba_memory opsize bitno 0 guest_linear_addr e s
   }"

definition parse_opcode_two_0f :: "u8 list \<Rightarrow> 'x emu_env \<Rightarrow> 'x eptlock_scheme \<Rightarrow> 'x emu_result exec" where
  "parse_opcode_two_0f xmm0 e s = do {
     assert_c (e_pinst_len e > 0);
     opcode \<leftarrow> pinst_at e 0;
     e \<leftarrow> Some (advance 1 e);
     if opcode = 0x11 then (case emu_0f_11 xmm0 e of (ret, e) \<Rightarrow> Some (ret, e, s))
     else if opcode = 0x29 then (case emu_0f_29 xmm0 e of (ret, e) \<Rightarrow> Some (ret, e, s))
     else if opcode = 0x7f then (case emu_0f_7f xmm0 e of (ret, e) \<Rightarrow> Some (ret, e, s))
     else if opcode = 0xba then emu_0f_ba e s
     else Some (ERR, e, s)
   }"

subsection \<open>One-byte opcodes\<close>

definition emu_83 :: "u64 \<Rightarrow> 'x emu_env \<Rightarrow> 'x eptlock_scheme \<Rightarrow> 'x emu_result exec" where
  "emu_83 loc e s =
     (if e_pinst_len e = 3 \<and> pinst_at e 0 = Some 0x70 \<and> pinst_at e 1 = Some 0x0c \<and> pinst_at e 2 = Some 0x01 then do {
        ax \<leftarrow> VCPU_reg_get (e_vcpu e) (e_r e) CPU_REG_AX;
        ctx_pair \<leftarrow> guestmem_init (pair_vcpu (e_ctx_pair e)) (e_vcpu e);
        s \<leftarrow> Some (s\<lparr>mem := store_le (mem s) loc 4 0\<rparr>);
        s \<leftarrow> guestmem_copy_gv2h ctx_pair s HPTW_CPL0 loc (ax + 0xc) 4;
        s \<leftarrow> Some (s\<lparr>mem := store_le (mem s) loc 4 (load_le (mem s) loc 4 XOR 1)\<rparr>);
        Some (OK (), e\<lparr>e_src := (e_src e)\<lparr>op_type := OPERAND_MEM, operand_size := BIT_SIZE_32,
          op_val := overlay (op_val (e_src e)) 0 (le_bytes 4 (load_le (mem s) loc 4))\<rparr>\<rparr>, s)
      }
      else Some (ERR, e, s))"

definition emu_88 :: "'x emu_env \<Rightarrow> (unit ret \<times> 'x emu_env) exec" where
  "emu_88 e =
     (if e_pinst_len e = 3 \<and> pinst_at e 0 = Some 0x44 \<and> pinst_at e 1 = Some 0xd1 \<and> pinst_at e 2 = Some 0x0c
       \<or> e_pinst_len e = 2 \<and> pinst_at e 0 = Some 0x47 \<and> pinst_at e 1 = Some 0x0c
       \<or> e_pinst_len e = 2 \<and> pinst_at e 0 = Some 0x41 \<and> pinst_at e 1 = Some 0x0c
      then do {
        al \<leftarrow> VCPU_reg_get (e_vcpu e) (e_r e) CPU_REG_AX;
        Some (OK (), e\<lparr>e_src := (e_src e)\<lparr>op_type := OPERAND_REG, operand_size := BIT_SIZE_8,
          op_val := overlay (op_val (e_src e)) 0 (le_bytes 1 al)\<rparr>\<rparr>)
      }
      else Some (ERR, e))"

definition no_rep_lock :: "'x emu_env \<Rightarrow> bool" where
  "no_rep_lock e \<longleftrightarrow> \<not> p_lock (e_prefix e) \<and> \<not> p_repe (e_prefix e) \<and> \<not> p_repne (e_prefix e)"

text \<open>The destination operand of a MOV to a ModR/M place.\<close>

definition set_modrm_dst :: "u64 \<Rightarrow> u8 list \<Rightarrow> 'x emu_env \<Rightarrow> 'x emu_env exec" where
  "set_modrm_dst opsize hvaddr e = do {
     (place, e) \<leftarrow> eval_modrm_addr e;
     case place of
       In_Memory guest_linear_addr \<Rightarrow> do {
         gvaddr \<leftarrow> eval_guest_memory_gvaddr (e_vcpu e)
           \<lparr>ma_hvaddr = hvaddr, ma_gaddr = guest_linear_addr, ma_seg = e_seg e, ma_size = opsize,
            ma_mode = HPT_PROT_WRITE_MASK, ma_cpl = emu_cpl e\<rparr> guest_linear_addr;
         Some (e\<lparr>e_dst := (e_dst e)\<lparr>op_type := OPERAND_MEM, operand_size := opsize, mem_seg := e_seg e,
           mem_offset := guest_linear_addr, mem_gvaddr := gvaddr\<rparr>\<rparr>)
       }
     | In_Register sel \<Rightarrow>
         Some (e\<lparr>e_dst := (e_dst e)\<lparr>op_type := OPERAND_REG, operand_size := opsize, reg_hvaddr := Some sel\<rparr>\<rparr>)
   }"

definition emu_89 :: "'x emu_env \<Rightarrow> 'x eptlock_scheme \<Rightarrow> 'x emu_result exec" where
  "emu_89 e s = do {
     assert_c (no_rep_lock e);
     e \<leftarrow> parse_postfix e True False 0 0;
     opsize \<leftarrow> Some (get_operand_size e);
     reg \<leftarrow> eval_modrm_reg e;
     e \<leftarrow> Some (e\<lparr>e_src := (e_src e)\<lparr>op_type := OPERAND_REG, reg_hvaddr := Some reg, operand_size := opsize\<rparr>\<rparr>);
     (ret, src, s) \<leftarrow> eval_operand_value e (e_src e) s;
     e \<leftarrow> Some (e\<lparr>e_src := src\<rparr>);
     case ret of
       ERR \<Rightarrow> Some (ERR, e, s)
     | OK _ \<Rightarrow> do {
         e \<leftarrow> set_modrm_dst opsize (op_val src) e;
         Some (OK (), e, s)
       }
   }"

definition emu_8b :: "'x emu_env \<Rightarrow> 'x eptlock_scheme \<Rightarrow> 'x emu_result exec" where
  "emu_8b e s = do {
     assert_c (no_rep_lock e);
     e \<leftarrow> parse_postfix e True False 0 0;
     opsize \<leftarrow> Some (get_operand_size e);
     reg \<leftarrow> eval_modrm_reg e;
     e \<leftarrow> Some (e\<lparr>e_dst := (e_dst e)\<lparr>op_type := OPERAND_REG, operand_size := opsize, reg_hvaddr := Some reg\<rparr>\<rparr>);
     (place, e) \<leftarrow> eval_modrm_addr e;
     e \<leftarrow> (case place of
       In_Memory guest_linear_addr \<Rightarrow> do {
         gvaddr \<leftarrow> eval_guest_memory_gvaddr (e_vcpu e)
           \<lparr>ma_hvaddr = op_val (e_dst e), ma_gaddr = guest_linear_addr, ma_seg = e_seg e, ma_size = opsize,
            ma_mode = HPT_PROT_READ_MASK, ma_cpl = emu_cpl e\<rparr> guest_linear_addr;
         Some (e\<lparr>e_src := (e_src e)\<lparr>op_type := OPERAND_MEM, operand_size := opsize, mem_seg := e_seg e,
           mem_offset := guest_linear_addr, mem_gvaddr := gvaddr\<rparr>\<rparr>)
       }
     | In_Register sel \<Rightarrow>
         Some (e\<lparr>e_src := (e_src e)\<lparr>op_type := OPERAND_REG, operand_size := opsize, reg_hvaddr := Some sel\<rparr>\<rparr>));
     (ret, src, s) \<leftarrow> eval_operand_value e (e_src e) s;
     Some (ret, e\<lparr>e_src := src\<rparr>, s)
   }"

definition emu_a0_a3 :: "u8 \<Rightarrow> 'x emu_env \<Rightarrow> 'x eptlock_scheme \<Rightarrow> 'x emu_result exec" where
  "emu_a0_a3 opcode e s = do {
     assert_c (no_rep_lock e);
     address_size \<leftarrow> Some (get_address_size e);
     opsize \<leftarrow> Some (if opcode AND 1 \<noteq> 0 then get_operand_size e else 1);
     reg \<leftarrow> get_reg_ptr REG_AX opsize;
     e \<leftarrow> Some (e\<lparr>e_src := (e_src e)\<lparr>op_type := OPERAND_REG, operand_size := opsize, reg_hvaddr := Some reg\<rparr>\<rparr>);
     (ret, src, s) \<leftarrow> eval_operand_value e (e_src e) s;
     e \<leftarrow> Some (e\<lparr>e_src := src\<rparr>);
     case ret of
       ERR \<Rightarrow> Some (ERR, e, s)
     | OK _ \<Rightarrow> do {
         e \<leftarrow> parse_postfix e False False 0 address_size;
         e \<leftarrow> compute_segment e REG_AX;
         imm \<leftarrow> fetch address_size (immediate (e_postfix e));
         guest_linear_addr \<leftarrow> zero_extend imm 8 address_size;
         gvaddr \<leftarrow> eval_guest_memory_gvaddr (e_vcpu e)
           \<lparr>ma_hvaddr = op_val src, ma_gaddr = guest_linear_addr, ma_seg = e_seg e, ma_size = opsize,
            ma_mode = (if opcode AND 2 \<noteq> 0 then HPT_PROT_WRITE_MASK else HPT_PROT_READ_MASK),
            ma_cpl = emu_cpl e\<rparr> guest_linear_addr;
         Some (OK (), e\<lparr>e_dst := (e_dst e)\<lparr>op_type := OPERAND_MEM, operand_size := opsize, mem_seg := e_seg e,
           mem_offset := guest_linear_addr, mem_gvaddr := gvaddr\<rparr>\<rparr>, s)
       }
   }"

definition emu_c7 :: "'x emu_env \<Rightarrow> 'x eptlock_scheme \<Rightarrow> 'x emu_result exec" where
  "emu_c7 e s = do {
     assert_c (no_rep_lock e);
     assert_c (modrm_regop (e_postfix e) = 0);
     opsize \<leftarrow> Some (get_operand_size e);
     imm_size \<leftarrow> Some (min opsize BIT_SIZE_32);
     e \<leftarrow> parse_postfix e True False 0 imm_size;
     e \<leftarrow> Some (e\<lparr>e_src := (e_src e)\<lparr>op_type := OPERAND_IMM, operand_size := opsize\<rparr>\<rparr>);
     (ret, src, s) \<leftarrow> eval_operand_value e (e_src e) s;
     e \<leftarrow> Some (e\<lparr>e_src := src\<rparr>);
     case ret of
       ERR \<Rightarrow> Some (ERR, e, s)
     | OK _ \<Rightarrow> do {
         e \<leftarrow> set_modrm_dst opsize [] e;
         Some (OK (), e, s)
       }
   }"

definition parse_opcode_one :: "u8 list \<Rightarrow> u64 \<Rightarrow> 'x emu_env \<Rightarrow> 'x eptlock_scheme \<Rightarrow> 'x emu_result exec" where
  "parse_opcode_one xmm0 loc e s = do {
     assert_c (e_pinst_len e > 0);
     opcode \<leftarrow> pinst_at e 0;
     e \<leftarrow> Some (advance 1 e);
     if opcode = 0x0f then parse_opcode_two_0f xmm0 e s
     else if opcode \<in> set [0x26, 0x2e, 0x36, 0x3e, 0x64, 0x65, 0x66, 0x67, 0xf0, 0xf2, 0xf3] then None
     else if opcode = 0x83 then emu_83 loc e s
     else if opcode = 0x88 then do { (ret, e) \<leftarrow> emu_88 e; Some (ret, e, s) }
     else if opcode = 0x89 then emu_89 e s
     else if opcode = 0x8b then emu_8b e s
     else if opcode \<in> set [0xa0, 0xa1, 0xa2, 0xa3] then emu_a0_a3 opcode e s
     else if opcode = 0xc7 then emu_c7 e s
     else Some (ERR, e, s)
   }"

subsection \<open>Entry points\<close>

definition prefix_init :: prefix_t where
  "prefix_init = \<lparr>p_lock = False, p_repe = False, p_repne = False, p_seg = CPU_SEG_UNKNOWN, p_opsize = False,
     p_addrsize = False, p_rex = 0\<rparr>"

text \<open>An operand and the bytes after the opcode as \<^verbatim>\<open>memset\<close> leaves them.\<close>

definition operand_zero :: operand where
  "operand_zero = \<lparr>op_type = OPERAND_REG, op_val = replicate OPERAND_VAL_LENGTH 0, operand_size = 0, reg_hvaddr = None,
     mem_seg = CPU_SEG_ES, mem_offset = 0, mem_gvaddr = 0\<rparr>"

definition postfix_zero :: postfix_t where
  "postfix_zero = \<lparr>modrm = 0, sib = 0, displacement = [], immediate = []\<rparr>"

definition x86_vmx_emulate_instruction ::
  "u8 list \<Rightarrow> u64 \<Rightarrow> nat \<Rightarrow> vcpu \<Rightarrow> regs \<Rightarrow> 'x emu_env \<Rightarrow> u8 list \<Rightarrow> u32 \<Rightarrow> 'x eptlock_scheme \<Rightarrow> 'x emu_result exec" where
  "x86_vmx_emulate_instruction xmm0 loc c v r emu_env inst inst_len s =
     (if inst_len = 0 then Some (ERR, emu_env, s)
      else do {
        ctx_pair \<leftarrow> guestmem_init c v;
        g64 \<leftarrow> VCPU_g64 v;
        e \<leftarrow> parse_prefix \<lparr>e_vcpu = v, e_r = r, e_ctx_pair = ctx_pair, e_g64 = g64,
          e_cs_d = (guest_CS_access_rights (vmcs v) AND push_bit 14 1 \<noteq> 0), e_pinst = inst, e_pinst_len = inst_len,
          e_src = operand_zero, e_dst = operand_zero, e_prefix = prefix_init, e_postfix = postfix_zero,
          e_seg = CPU_SEG_UNKNOWN, e_displacement_len = 0, e_immediate_len = 0\<rparr>;
        parse_opcode_one xmm0 loc e s
      })"

definition xmhf_memprot_emulate_guest_instruction ::
  "u8 list \<Rightarrow> u64 \<Rightarrow> nat \<Rightarrow> vcpu \<Rightarrow> regs \<Rightarrow> 'x emu_env \<Rightarrow> u8 list \<Rightarrow> u32 \<Rightarrow> 'x eptlock_scheme \<Rightarrow> 'x emu_result exec" where
  "xmhf_memprot_emulate_guest_instruction xmm0 loc c v r emu_env inst inst_len s =
     x86_vmx_emulate_instruction xmm0 loc c v r emu_env inst inst_len s"

text \<open>
  The clients copy the instruction at the guest instruction pointer into a local buffer, at the address \<open>inst\<close>. \<open>ctxt\<close> is the
  uninitialized local \<^verbatim>\<open>emu_env_t\<close>.
\<close>

definition fetch_and_emulate ::
  "u8 list \<Rightarrow> u64 \<Rightarrow> u64 \<Rightarrow> nat \<Rightarrow> vcpu \<Rightarrow> regs \<Rightarrow> 'x emu_env \<Rightarrow> 'x eptlock_scheme
    \<Rightarrow> ('x guestmem_hptw_ctx_pair \<times> 'x emu_result) exec" where
  "fetch_and_emulate xmm0 loc inst c v r ctxt s = do {
     s \<leftarrow> Some (s\<lparr>mem := memset (mem s) inst 0 X86_INST_MAX_LEN\<rparr>);
     rip \<leftarrow> VCPU_grip v;
     len \<leftarrow> Some (info_vmexit_instruction_length (vmcs v));
     ctx_pair \<leftarrow> guestmem_init c v;
     s \<leftarrow> guestmem_copy_gv2h ctx_pair s HPTW_CPL0 inst rip (ucast len);
     res \<leftarrow> xmhf_memprot_emulate_guest_instruction xmm0 loc c v r ctxt (read_bytes (mem s) inst (unat X86_INST_MAX_LEN)) len s;
     Some (ctx_pair, res)
   }"

definition xmhf_memprot_emulate_guest_ring0_read_size ::
  "u8 list \<Rightarrow> u64 \<Rightarrow> u64 \<Rightarrow> nat \<Rightarrow> vcpu \<Rightarrow> regs \<Rightarrow> 'x emu_env \<Rightarrow> 'x eptlock_scheme
    \<Rightarrow> (u64 ret \<times> vcpu \<times> regs \<times> 'x eptlock_scheme) exec" where
  "xmhf_memprot_emulate_guest_ring0_read_size xmm0 loc inst c v r ctxt s = do {
     (ctx_pair, status, e, s) \<leftarrow> fetch_and_emulate xmm0 loc inst c v r ctxt s;
     case status of
       ERR \<Rightarrow> Some (ERR, e_vcpu e, e_r e, s)
     | OK _ \<Rightarrow> Some (OK (operand_size (e_dst e)), e_vcpu e, e_r e, s)
   }"

definition xmhf_memprot_emulate_guest_ring0_read ::
  "u8 list \<Rightarrow> u64 \<Rightarrow> u64 \<Rightarrow> nat \<Rightarrow> vcpu \<Rightarrow> regs \<Rightarrow> 'x emu_env \<Rightarrow> u64 \<Rightarrow> 'x eptlock_scheme
    \<Rightarrow> (unit ret \<times> vcpu \<times> regs \<times> 'x eptlock_scheme) exec" where
  "xmhf_memprot_emulate_guest_ring0_read xmm0 loc inst c v r ctxt force_read_value s = do {
     (ctx_pair, status, e, s) \<leftarrow> fetch_and_emulate xmm0 loc inst c v r ctxt s;
     case status of
       ERR \<Rightarrow> Some (ERR, e_vcpu e, e_r e, s)
     | OK _ \<Rightarrow> (let n = operand_size (e_dst e) in
         if op_type (e_dst e) = OPERAND_REG then
           (case reg_hvaddr (e_dst e) of
              None \<Rightarrow> if n = 0 then Some (OK (), e_vcpu e, e_r e, s) else None
            | Some sel \<Rightarrow> do {
                assert_c (unat n \<le> 8);
                old \<leftarrow> load_reg (e_vcpu e) (e_r e) sel;
                (v, r) \<leftarrow> store_reg (e_vcpu e) (e_r e) sel
                  (le_val (overlay (le_bytes 8 old) 0 (read_bytes (mem s) force_read_value (unat n))));
                Some (OK (), v, r, s)
              })
         else if op_type (e_dst e) = OPERAND_MEM then do {
           s \<leftarrow> guestmem_copy_h2gv ctx_pair s HPTW_CPL0 (mem_gvaddr (e_dst e)) force_read_value n;
           Some (OK (), e_vcpu e, e_r e, s)
         }
         else Some (OK (), e_vcpu e, e_r e, s))
   }"

definition xmhf_memprot_emulate_guest_ring0_write ::
  "u8 list \<Rightarrow> u64 \<Rightarrow> u64 \<Rightarrow> nat \<Rightarrow> vcpu \<Rightarrow> regs \<Rightarrow> 'x emu_env \<Rightarrow> 'x eptlock_scheme
    \<Rightarrow> ((u8 list \<times> u64) ret \<times> vcpu \<times> regs \<times> 'x eptlock_scheme) exec" where
  "xmhf_memprot_emulate_guest_ring0_write xmm0 loc inst c v r ctxt s = do {
     (ctx_pair, status, e, s) \<leftarrow> fetch_and_emulate xmm0 loc inst c v r ctxt s;
     case status of
       ERR \<Rightarrow> Some (ERR, e_vcpu e, e_r e, s)
     | OK _ \<Rightarrow> do {
         assert_c (unat (operand_size (e_src e)) \<le> length (op_val (e_src e)));
         Some (OK (take (unat (operand_size (e_src e))) (op_val (e_src e)), operand_size (e_src e)), e_vcpu e, e_r e, s)
       }
   }"

end
