(* ===== verification/EmuDecode.thy ===== *)
theory EmuDecode
  imports Emulation
begin

unbundle bit_operations_syntax

text \<open>
  The decoder of the emulator against a reference assembler. The reference is the instruction format of the processor: an operand form
  (\<open>amode\<close>) with its effective address and default segment, and its encoding in ModR/M, SIB, displacement and REX. The lemmas follow the
  decoder over the encoded bytes: prefixes, the bytes after the opcode, the address, and the two stores as whole instructions.
\<close>

subsection \<open>Bit fields of the encoding\<close>

lemma and_7: "(x :: u8) AND 7 = take_bit 3 x"
  using take_bit_eq_mask [of 3 x] by (simp add: mask_eq_exp_minus_1)

lemma and_1: "(x :: u8) AND 1 = take_bit 1 x"
  using take_bit_eq_mask [of 1 x] by (simp add: mask_eq_exp_minus_1)

lemma mod_8: "(x :: u8) mod 8 = take_bit 3 x"
  by (simp add: take_bit_eq_mod)

text \<open>Three fields of two, three and three bits, as in ModR/M and SIB, and the REX byte.\<close>

definition pack_233 :: "u8 \<Rightarrow> u8 \<Rightarrow> u8 \<Rightarrow> u8" where
  "pack_233 a b c = push_bit 6 a OR push_bit 3 (take_bit 3 b) OR take_bit 3 c"

definition pack_rex :: "bool \<Rightarrow> u8 \<Rightarrow> u8 \<Rightarrow> u8 \<Rightarrow> u8" where
  "pack_rex w r x b = 0x40 OR push_bit 3 (of_bool w) OR push_bit 2 (of_bool (bit r 3)) OR push_bit 1 (of_bool (bit x 3))
     OR of_bool (bit b 3)"

lemma take_bit_less: "(x :: u8) < 2 ^ k \<Longrightarrow> k < 8 \<Longrightarrow> take_bit k x = x"
  by (simp add: take_bit_eq_mod word_unat_eq_iff unat_mod word_less_nat_alt)

lemma take_bit_2: "(x :: u8) < 4 \<Longrightarrow> take_bit 2 x = x"
  using take_bit_less [of x 2] by simp

lemma take_bit_3: "(x :: u8) < 8 \<Longrightarrow> take_bit 3 x = x"
  using take_bit_less [of x 3] by simp

lemma take_bit_4: "(x :: u8) < 16 \<Longrightarrow> take_bit 4 x = x"
  using take_bit_less [of x 4] by simp

lemma pack_233_fields [simp]:
  "take_bit 3 (pack_233 a b c) = take_bit 3 c"
  "take_bit 3 (drop_bit 3 (pack_233 a b c)) = take_bit 3 b"
  "drop_bit 6 (pack_233 a b c) = take_bit 2 a"
  by (rule bit_word_eqI; auto simp: pack_233_def bit_simps)+

lemma bit_0x40: "bit (0x40 :: u8) n \<longleftrightarrow> n = 6"
  using bit_push_bit_iff [of 6 "1 :: u8" n] by (auto simp: bit_simps)

lemmas bit_unfold = bit_or_iff bit_and_iff bit_push_bit_iff bit_take_bit_iff bit_drop_bit_eq comp_def bit_of_bool_iff

lemma pack_rex_fields [simp]:
  "take_bit 1 (pack_rex w r x b) = of_bool (bit b 3)"
  "take_bit 1 (drop_bit 1 (pack_rex w r x b)) = of_bool (bit x 3)"
  "take_bit 1 (drop_bit 2 (pack_rex w r x b)) = of_bool (bit r 3)"
  "take_bit 1 (drop_bit 3 (pack_rex w r x b)) = of_bool w"
  "drop_bit 4 (pack_rex w r x b) = 4"
  "pack_rex w r x b AND 0xf0 = 0x40"
proof -
  have four: "bit (4 :: u8) n \<longleftrightarrow> n = 2" for n using bit_push_bit_iff [of 2 "1 :: u8" n] by (auto simp: bit_simps)
  have f0: "bit (0xf0 :: u8) n \<longleftrightarrow> 4 \<le> n \<and> n < 8" for n
  proof -
    have e: "(0xf0 :: u8) = push_bit 4 (mask 4)" by (simp add: mask_eq_exp_minus_1)
    show ?thesis unfolding e bit_push_bit_iff bit_mask_iff by auto
  qed
  show "take_bit 1 (pack_rex w r x b) = of_bool (bit b 3)"
    "take_bit 1 (drop_bit 1 (pack_rex w r x b)) = of_bool (bit x 3)"
    "take_bit 1 (drop_bit 2 (pack_rex w r x b)) = of_bool (bit r 3)"
    "take_bit 1 (drop_bit 3 (pack_rex w r x b)) = of_bool w"
    "drop_bit 4 (pack_rex w r x b) = 4" "pack_rex w r x b AND 0xf0 = 0x40"
    by (rule bit_word_eqI; unfold pack_rex_def bit_unfold bit_0x40 four f0; auto)+
qed

lemma split_reg: "take_bit 4 b = b \<Longrightarrow> take_bit 3 b OR push_bit 3 (of_bool (bit b 3)) = (b :: u8)"
proof (rule bit_word_eqI)
  fix n assume b: "take_bit 4 b = b" "n < LENGTH(8)"
  have "bit b n \<Longrightarrow> n < 4" using b(1) by (metis bit_take_bit_iff)
  then show "bit (take_bit 3 b OR push_bit 3 (of_bool (bit b 3))) n = bit b n"
    using b(2) unfolding bit_unfold by (cases "n < 3"; cases "n = 3") auto
qed

subsection \<open>The position in the instruction\<close>

text \<open>The instruction pointer stands before the bytes \<open>bs\<close>, the last of the instruction; \<open>rest\<close> is the rest of the buffer.\<close>

definition before :: "u8 list \<Rightarrow> u8 list \<Rightarrow> 'x emu_env \<Rightarrow> 'x emu_env" where
  "before bs rest e = e\<lparr>e_pinst := bs @ rest, e_pinst_len := of_nat (length bs)\<rparr>"

lemma ucast_of_nat_32: "ucast (of_nat n :: u64) = (of_nat n :: u32)"
  by (simp add: word_unat_eq_iff unsigned_ucast_eq unsigned_of_nat take_bit_take_bit)

lemma before_simps [simp]:
  "e_vcpu (before bs rest e) = e_vcpu e" "e_r (before bs rest e) = e_r e" "e_ctx_pair (before bs rest e) = e_ctx_pair e"
  "e_g64 (before bs rest e) = e_g64 e" "e_cs_d (before bs rest e) = e_cs_d e" "e_src (before bs rest e) = e_src e"
  "e_dst (before bs rest e) = e_dst e" "e_prefix (before bs rest e) = e_prefix e" "e_postfix (before bs rest e) = e_postfix e"
  "e_seg (before bs rest e) = e_seg e" "e_displacement_len (before bs rest e) = e_displacement_len e"
  "e_immediate_len (before bs rest e) = e_immediate_len e"
  "e_pinst (before bs rest e) = bs @ rest" "e_pinst_len (before bs rest e) = of_nat (length bs)"
  by (simp_all add: before_def)

lemma before_update [simp]:
  "(before bs rest e)\<lparr>e_prefix := p\<rparr> = before bs rest (e\<lparr>e_prefix := p\<rparr>)"
  "(before bs rest e)\<lparr>e_postfix := q\<rparr> = before bs rest (e\<lparr>e_postfix := q\<rparr>)"
  by (simp_all add: before_def)

lemma advance_before:
  assumes "unat n = length xs"
  shows "advance n (before (xs @ ys) rest e) = before ys rest e"
proof -
  have "n = of_nat (length xs)" by (simp add: assms [symmetric])
  then have "ucast n = (of_nat (length xs) :: u32)" by (simp add: ucast_of_nat_32)
  then show ?thesis using assms by (simp add: advance_def before_def)
qed

lemma advance_1_before [simp]: "advance 1 (before (b # bs) rest e) = before bs rest e"
  using advance_before [of 1 "[b]" bs rest e] by simp

lemma pinst_at_before [simp]: "i < length bs \<Longrightarrow> pinst_at (before bs rest e) i = Some (bs ! i)"
  by (simp add: pinst_at_def nth_append)

lemma of_nat_length_32:
  "length bs < 2 ^ 32 \<Longrightarrow> (0 :: u32) < of_nat (length bs) \<longleftrightarrow> bs \<noteq> []"
  "length bs < 2 ^ 32 \<Longrightarrow> (1 :: u32) \<le> of_nat (length bs) \<longleftrightarrow> bs \<noteq> []"
  "length bs < 2 ^ 32 \<Longrightarrow> (of_nat (length bs) :: u32) = 0 \<longleftrightarrow> bs = []"
  by (cases bs; simp add: word_less_nat_alt word_le_nat_alt word_unat_eq_iff unat_of_nat del: of_nat_Suc)+

lemma ucast_length: "length bs < 2 ^ 32 \<Longrightarrow> n \<le> ucast (of_nat (length bs) :: u32) \<longleftrightarrow> unat (n :: u64) \<le> length bs"
  by (simp add: word_le_nat_alt unat_of_nat unsigned_ucast_eq take_bit_nat_eq_self)

subsection \<open>Prefixes\<close>

definition legacy_bytes :: "u8 list" where
  "legacy_bytes = [0x26, 0x2e, 0x36, 0x3e, 0x64, 0x65, 0x66, 0x67, 0xf0, 0xf2, 0xf3]"

lemma legacy_prefix_None: "legacy_prefix b p = None \<longleftrightarrow> b \<notin> set legacy_bytes"
  by (auto simp: legacy_prefix_def legacy_bytes_def)

definition prefixed :: "u8 list \<Rightarrow> prefix_t \<Rightarrow> prefix_t" where
  "prefixed ps p = foldl (\<lambda>p b. the (legacy_prefix b p)) p ps"

lemma parse_legacy_prefixes_before:
  assumes "set ps \<subseteq> set legacy_bytes" "b \<notin> set legacy_bytes" "length (ps @ b # bs) < 2 ^ 32"
  shows "parse_legacy_prefixes (before (ps @ b # bs) rest e) = Some (before (b # bs) rest (e\<lparr>e_prefix := prefixed ps (e_prefix e)\<rparr>))"
  using assms
proof (induction ps arbitrary: e)
  case Nil
  then have n: "(0 :: u32) < of_nat (length (b # bs))" by (subst of_nat_length_32) simp_all
  have "legacy_prefix b (e_prefix e) = None" using Nil by (simp add: legacy_prefix_None)
  then show ?case using n by (simp add: parse_legacy_prefixes.simps [of "before (b # bs) rest e"] prefixed_def del: of_nat_Suc)
next
  case (Cons p ps)
  have n: "(0 :: u32) < of_nat (length (p # ps @ b # bs))" using Cons.prems by (subst of_nat_length_32) simp_all
  obtain p' where p': "legacy_prefix p (e_prefix e) = Some p'"
    using Cons.prems(1) legacy_prefix_None [of p "e_prefix e"] by (cases "legacy_prefix p (e_prefix e)") auto
  have "parse_legacy_prefixes (before (ps @ b # bs) rest (e\<lparr>e_prefix := p'\<rparr>))
      = Some (before (b # bs) rest (e\<lparr>e_prefix := prefixed ps p'\<rparr>))"
    using Cons.IH [of "e\<lparr>e_prefix := p'\<rparr>"] Cons.prems by simp
  then show ?case using n p' by (simp add: parse_legacy_prefixes.simps [of "before (p # ps @ b # bs) rest e"] prefixed_def del: of_nat_Suc)
qed

lemma prefixed_fields:
  assumes "set ps \<subseteq> set legacy_bytes"
  shows "p_opsize (prefixed ps p) \<longleftrightarrow> p_opsize p \<or> 0x66 \<in> set ps"
    and "p_addrsize (prefixed ps p) \<longleftrightarrow> p_addrsize p \<or> 0x67 \<in> set ps"
    and "p_lock (prefixed ps p) \<longleftrightarrow> p_lock p \<or> 0xf0 \<in> set ps"
    and "p_repne (prefixed ps p) \<longleftrightarrow> p_repne p \<or> 0xf2 \<in> set ps"
    and "p_repe (prefixed ps p) \<longleftrightarrow> p_repe p \<or> 0xf3 \<in> set ps"
    and "p_rex (prefixed ps p) = p_rex p"
  using assms unfolding prefixed_def
  by (induction ps arbitrary: p) (auto simp: legacy_bytes_def legacy_prefix_def)

lemma parse_prefix_before:
  assumes "set ps \<subseteq> set legacy_bytes" "b \<notin> set legacy_bytes" "length (ps @ b # bs) < 2 ^ 32"
    and "\<not> (e_g64 e \<and> b AND 0xf0 = 0x40)"
  shows "parse_prefix (before (ps @ b # bs) rest e) = Some (before (b # bs) rest (e\<lparr>e_prefix := prefixed ps (e_prefix e)\<rparr>))"
  using assms(4) unfolding parse_prefix_def parse_legacy_prefixes_before [OF assms(1-3)] by auto

lemma parse_prefix_rex:
  assumes "set ps \<subseteq> set legacy_bytes" "b AND 0xf0 = 0x40" "length (ps @ b # c # bs) < 2 ^ 32" "e_g64 e"
  shows "parse_prefix (before (ps @ b # c # bs) rest e) =
    Some (before (c # bs) rest (e\<lparr>e_prefix := (prefixed ps (e_prefix e))\<lparr>p_rex := b\<rparr>\<rparr>))"
proof -
  have "b \<notin> set legacy_bytes" using assms(2) by (auto simp: legacy_bytes_def)
  note l = parse_legacy_prefixes_before [OF assms(1) this assms(3)]
  have "(0 :: u32) < of_nat (length (c # bs))" using assms(3) by (subst of_nat_length_32) simp_all
  then show ?thesis using assms(2,4) unfolding parse_prefix_def l by (simp del: of_nat_Suc)
qed

subsection \<open>Addressing modes of the processor\<close>

text \<open>
  The reference: the operand forms that ModR/M and SIB encode, as the architecture defines them. Register numbers are those of the
  encoding, a displacement is its bytes.
\<close>

datatype amode = Direct u8 | Based u8 "u8 list" | Indexed "u8 option" "u8 option" u8 "u8 list" | Absolute "u8 list"

definition reg_sels :: "CPU_Reg_Sel list" where
  "reg_sels = [CPU_REG_AX, CPU_REG_CX, CPU_REG_DX, CPU_REG_BX, CPU_REG_SP, CPU_REG_BP, CPU_REG_SI, CPU_REG_DI,
     CPU_REG_R8, CPU_REG_R9, CPU_REG_R10, CPU_REG_R11, CPU_REG_R12, CPU_REG_R13, CPU_REG_R14, CPU_REG_R15]"

definition reg_value :: "vcpu \<Rightarrow> regs \<Rightarrow> u8 \<Rightarrow> u64" where
  "reg_value v r i = [rax r, rcx r, rdx r, rbx r, guest_RSP (vmcs v), rbp r, rsi r, rdi r,
     r8 r, r9 r, r10 r, r11 r, r12 r, r13 r, r14 r, r15 r] ! unat i"

definition disp_value :: "u8 list \<Rightarrow> u64" where
  "disp_value d = (if d = [] then 0 else signed_take_bit (8 * length d - 1) (le_val d))"

fun am_addr :: "(u8 \<Rightarrow> u64) \<Rightarrow> amode \<Rightarrow> u64" where
  "am_addr rd (Direct r) = 0"
| "am_addr rd (Based b d) = rd b + disp_value d"
| "am_addr rd (Indexed bo io sc d) = (case io of None \<Rightarrow> 0 | Some i \<Rightarrow> rd i * 2 ^ unat sc)
     + (case bo of None \<Rightarrow> 0 | Some b \<Rightarrow> rd b) + disp_value d"
| "am_addr rd (Absolute d) = disp_value d"

fun am_seg :: "cpu_segment \<Rightarrow> amode \<Rightarrow> cpu_segment" where
  "am_seg override am = (if override \<noteq> CPU_SEG_UNKNOWN then override
     else case am of Based b _ \<Rightarrow> if b = REG_SP \<or> b = REG_BP then CPU_SEG_SS else CPU_SEG_DS
       | Indexed (Some b) _ _ _ \<Rightarrow> if b = REG_SP \<or> b = REG_BP then CPU_SEG_SS else CPU_SEG_DS
       | _ \<Rightarrow> CPU_SEG_DS)"

text \<open>Their encoding.\<close>

definition disp_mod :: "u8 list \<Rightarrow> u8" where
  "disp_mod d = (if d = [] then 0 else if length d = 1 then 1 else 2)"

fun am_mod :: "amode \<Rightarrow> u8" where
  "am_mod (Direct r) = 3"
| "am_mod (Based b d) = disp_mod d"
| "am_mod (Indexed bo io sc d) = (if bo = None then 0 else disp_mod d)"
| "am_mod (Absolute d) = 0"

fun am_base :: "amode \<Rightarrow> u8" where
  "am_base (Direct r) = r"
| "am_base (Based b d) = b"
| "am_base (Indexed bo io sc d) = (case bo of None \<Rightarrow> REG_BP | Some b \<Rightarrow> b)"
| "am_base (Absolute d) = REG_BP"

fun am_index :: "amode \<Rightarrow> u8" where
  "am_index (Indexed bo io sc d) = (case io of None \<Rightarrow> REG_SP | Some i \<Rightarrow> i)"
| "am_index am = 0"

fun am_sib :: "amode \<Rightarrow> u8 list" where
  "am_sib (Indexed bo io sc d) = [pack_233 sc (am_index (Indexed bo io sc d)) (am_base (Indexed bo io sc d))]"
| "am_sib am = []"

fun am_disp :: "amode \<Rightarrow> u8 list" where
  "am_disp (Direct r) = []"
| "am_disp (Based b d) = d"
| "am_disp (Indexed bo io sc d) = d"
| "am_disp (Absolute d) = d"

definition am_rm :: "amode \<Rightarrow> u8" where
  "am_rm am = (if am_sib am \<noteq> [] then REG_SP else am_base am)"

definition encode_modrm :: "u8 \<Rightarrow> amode \<Rightarrow> u8 list" where
  "encode_modrm reg am = pack_233 (am_mod am) reg (am_rm am) # am_sib am @ am_disp am"

text \<open>The modes that have an encoding: the numbers 4 and 5 of base and index are taken for other purposes.\<close>

definition base_ok :: "u8 \<Rightarrow> u8 list \<Rightarrow> bool" where
  "base_ok b d \<longleftrightarrow> b < 16 \<and> length d \<in> {0, 1, 4} \<and> (d = [] \<longrightarrow> b mod 8 \<noteq> REG_BP)"

fun amode_ok :: "amode \<Rightarrow> bool" where
  "amode_ok (Direct r) \<longleftrightarrow> r < 16"
| "amode_ok (Based b d) \<longleftrightarrow> base_ok b d \<and> b mod 8 \<noteq> REG_SP"
| "amode_ok (Indexed bo io sc d) \<longleftrightarrow> sc < 4 \<and> (case io of None \<Rightarrow> True | Some i \<Rightarrow> i < 16 \<and> i \<noteq> REG_SP)
     \<and> (case bo of None \<Rightarrow> length d = 4 | Some b \<Rightarrow> base_ok b d)"
| "amode_ok (Absolute d) \<longleftrightarrow> length d = 4"

text \<open>The prefix state has the upper bits of the register numbers, or there is no REX prefix and they are zero.\<close>

definition rex_for :: "prefix_t \<Rightarrow> u8 \<Rightarrow> amode \<Rightarrow> bool" where
  "rex_for p reg am \<longleftrightarrow> (if rex_four p \<noteq> 0
     then rex_r p = of_bool (bit reg 3) \<and> rex_x p = of_bool (bit (am_index am) 3) \<and> rex_b p = of_bool (bit (am_base am) 3)
     else reg < 8 \<and> am_index am < 8 \<and> am_base am < 8)"

subsection \<open>Registers\<close>

lemma reg_all:
  assumes "(i :: u8) < 16" "list_all (\<lambda>k. P (of_nat k)) [0..<16]"
  shows "P i"
proof -
  have "unat i < 16" using assms(1) by (simp add: word_less_nat_alt)
  then have "unat i \<in> set [0..<16]" by simp
  then have "P (of_nat (unat i))" using assms(2) unfolding list_all_iff by (rule bspec [rotated])
  then show ?thesis by simp
qed

lemma get_reg_ptr_sel: "i < 16 \<Longrightarrow> sz \<noteq> 1 \<Longrightarrow> get_reg_ptr i sz = Some (reg_sels ! unat i)"
  by (erule reg_all) (simp add: get_reg_ptr_def reg_sels_def upt_rec)

lemma load_reg_sel: "i < 16 \<Longrightarrow> load_reg v r (reg_sels ! unat i) = Some (reg_value v r i)"
  by (erule reg_all) (simp add: load_reg_def reg_sels_def reg_value_def upt_rec)

lemma amode_regs:
  assumes "amode_ok am"
  shows "am_base am < 16" "am_index am < 16"
  using assms by (cases am; auto simp: base_ok_def split: option.splits)+

subsection \<open>Fields of an encoded operand\<close>

lemma rexed_reg:
  assumes "x < 16" "q = take_bit 3 x" "if f \<noteq> 0 then y = of_bool (bit x 3) else x < 8"
  shows "(if f \<noteq> 0 then q OR push_bit 3 y else q) = (x :: u8)"
  using assms split_reg [of x] take_bit_4 [of x] take_bit_3 [of x] by auto

lemma modrm_fields:
  assumes "modrm q = pack_233 (am_mod am) reg (am_rm am)"
  shows "modrm_rm q = take_bit 3 (am_rm am)" "modrm_regop q = take_bit 3 reg" "modrm_mod q = am_mod am"
proof -
  have "take_bit 2 (am_mod am) = am_mod am" by (rule take_bit_2) (cases am; simp add: disp_mod_def)
  then show "modrm_rm q = take_bit 3 (am_rm am)" "modrm_regop q = take_bit 3 reg" "modrm_mod q = am_mod am"
    using assms by (simp_all add: modrm_rm_def modrm_regop_def modrm_mod_def and_7)
qed

lemma reg_field:
  assumes "modrm (e_postfix e) = pack_233 (am_mod am) reg (am_rm am)" "rex_for (e_prefix e) reg am" "reg < 16"
  shows "get_modrm_reg e = reg"
  unfolding get_modrm_reg_def
  by (rule rexed_reg) (use assms modrm_fields [OF assms(1)] in \<open>auto simp: rex_for_def split: if_splits\<close>)

lemma rm_field:
  assumes "modrm (e_postfix e) = pack_233 (am_mod am) reg (am_rm am)" "rex_for (e_prefix e) reg am" "amode_ok am"
  shows "am_sib am = [] \<Longrightarrow> get_modrm_rm e = am_base am"
    and "get_modrm_rm e mod 8 = am_rm am mod 8"
proof -
  note f = modrm_fields [OF assms(1)]
  show "get_modrm_rm e = am_base am" if "am_sib am = []"
    unfolding get_modrm_rm_def
    by (rule rexed_reg) (use that assms amode_regs [OF assms(3)] f in \<open>auto simp: rex_for_def am_rm_def split: if_splits\<close>)
  have "take_bit 3 (x OR push_bit 3 y) = take_bit 3 x" for x y :: u8
    by (rule bit_word_eqI; unfold bit_unfold; auto)
  then show "get_modrm_rm e mod 8 = am_rm am mod 8"
    using f(1) by (simp add: get_modrm_rm_def mod_8)
qed

lemma sib_fields:
  assumes "am = Indexed bo io sc d" "sib (e_postfix e) = pack_233 sc (am_index am) (am_base am)"
    and "rex_for (e_prefix e) reg am" "amode_ok am"
  shows "get_sib_index e = am_index am" "get_sib_base e = am_base am" "sib_scale (e_postfix e) = sc"
proof -
  show "get_sib_index e = am_index am" unfolding get_sib_index_def
    by (rule rexed_reg) (use assms amode_regs [OF assms(4)] in \<open>auto simp: sib_index_def and_7 rex_for_def split: if_splits\<close>)
  show "get_sib_base e = am_base am" unfolding get_sib_base_def
    by (rule rexed_reg) (use assms amode_regs [OF assms(4)] in \<open>auto simp: sib_base_def and_7 rex_for_def split: if_splits\<close>)
  show "sib_scale (e_postfix e) = sc" using assms(1,2,4) by (simp add: sib_scale_def take_bit_2)
qed

subsection \<open>Decoding the bytes after the opcode\<close>

lemma address_size_simps [simp]:
  "get_address_size (before bs rest e) = get_address_size e"
  "get_address_size (e\<lparr>e_postfix := q\<rparr>) = get_address_size e"
  "get_address_size (e\<lparr>e_seg := sg\<rparr>) = get_address_size e"
  "get_operand_size (before bs rest e) = get_operand_size e"
  "get_operand_size (e\<lparr>e_postfix := q\<rparr>) = get_operand_size e"
  by (simp_all add: get_address_size_def get_operand_size_def)

lemma field_before [simp]:
  "get_modrm_rm (before bs rest e) = get_modrm_rm e" "get_modrm_reg (before bs rest e) = get_modrm_reg e"
  "get_sib_base (before bs rest e) = get_sib_base e" "get_sib_index (before bs rest e) = get_sib_index e"
  by (simp_all add: get_modrm_rm_def get_modrm_reg_def get_sib_base_def get_sib_index_def)

lemma address_size_cases: "get_address_size e = 2 \<or> get_address_size e = 4 \<or> get_address_size e = 8"
  by (simp add: get_address_size_def)

lemma operand_size_cases: "get_operand_size e = 2 \<or> get_operand_size e = 4 \<or> get_operand_size e = 8"
  by (simp add: get_operand_size_def)

lemma address_size_min: "get_address_size e \<noteq> 2 \<Longrightarrow> min (get_address_size e) 4 = 4"
  using address_size_cases [of e] by auto

text \<open>The displacement that ModR/M alone announces.\<close>

definition modrm_disp_len :: "amode \<Rightarrow> u64" where
  "modrm_disp_len am = (case am of Indexed None _ _ _ \<Rightarrow> 0 | _ \<Rightarrow> of_nat (length (am_disp am)))"

lemma modrm_disp_encoded:
  assumes m: "modrm (e_postfix e) = pack_233 (am_mod am) reg (am_rm am)"
    and "rex_for (e_prefix e) reg am" "amode_ok am" "get_address_size e \<noteq> 2"
  shows "modrm_disp e 0 = Some (modrm_disp_len am)"
proof -
  note f = modrm_fields [OF m] rm_field [OF assms(1-3)]
  have a: "get_address_size e = 4 \<or> get_address_size e = 8" using address_size_cases [of e] assms(4) by simp
  note s = modrm_disp_def f(3) f(5) assms(4) a set_disp_def disp_mod_def modrm_disp_len_def am_rm_def
  show ?thesis
  proof (cases am)
    case (Direct r)
    then show ?thesis by (simp add: s)
  next
    case (Based b d)
    then have "base_ok b d" using assms(3) by simp
    then show ?thesis using Based address_size_min [OF assms(4)] by (auto simp: s base_ok_def)
  next
    case (Indexed bo io sc d)
    then have "case bo of None \<Rightarrow> True | Some b \<Rightarrow> base_ok b d" using assms(3) by (auto split: option.splits)
    then show ?thesis using Indexed address_size_min [OF assms(4)] by (auto simp: s base_ok_def split: option.splits)
  next
    case (Absolute d)
    then show ?thesis using assms(3) by (simp add: s)
  qed
qed

lemma parse_modrm_encoded:
  assumes "rex_for (e_prefix e) reg am" "amode_ok am" "get_address_size e \<noteq> 2"
    and "length (encode_modrm reg am @ bs) < 2 ^ 32"
  shows "parse_modrm (before (encode_modrm reg am @ bs) rest e) False 0 =
    Some (before (am_sib am @ am_disp am @ bs) rest (e\<lparr>e_postfix := (e_postfix e)\<lparr>modrm := pack_233 (am_mod am) reg (am_rm am)\<rparr>\<rparr>),
      am_sib am \<noteq> [], modrm_disp_len am)"
proof -
  let ?e = "e\<lparr>e_postfix := (e_postfix e)\<lparr>modrm := pack_233 (am_mod am) reg (am_rm am)\<rparr>\<rparr>"
  have m: "modrm (e_postfix ?e) = pack_233 (am_mod am) reg (am_rm am)" "rex_for (e_prefix ?e) reg am" using assms(1) by simp_all
  note f = modrm_fields [OF m(1)] rm_field [OF m assms(2)]
  have n: "(1 :: u32) \<le> of_nat (length (encode_modrm reg am @ bs))"
    using assms(4) by (subst of_nat_length_32) (simp_all add: encode_modrm_def)
  have d: "modrm_disp (before bs' rest ?e) 0 = Some (modrm_disp_len am)" for bs'
    using modrm_disp_encoded [of "before bs' rest ?e"] m assms(2,3) by simp
  have s: "am_mod am \<noteq> 3 \<and> am_rm am mod 8 = REG_SP \<longleftrightarrow> am_sib am \<noteq> []"
    using assms(2) by (cases am) (auto simp: am_rm_def disp_mod_def)
  have b: "before (encode_modrm reg am @ bs) rest e
      = before (pack_233 (am_mod am) reg (am_rm am) # am_sib am @ am_disp am @ bs) rest e"
    by (simp add: encode_modrm_def)
  show ?thesis
    unfolding parse_modrm_def using n s f(3,5) assms(3) unfolding b
    by (simp add: encode_modrm_def d del: of_nat_Suc of_nat_add)
qed

lemma parse_sib_encoded:
  assumes "am = Indexed bo io sc d" "amode_ok am" "modrm (e_postfix e) = pack_233 (am_mod am) reg (am_rm am)"
    and "rex_for (e_prefix e) reg am" "length (am_sib am @ bs) < 2 ^ 32"
  shows "parse_sib (before (am_sib am @ bs) rest e) (modrm_disp_len am) =
    Some (before bs rest (e\<lparr>e_postfix := (e_postfix e)\<lparr>sib := hd (am_sib am)\<rparr>\<rparr>), of_nat (length (am_disp am)))"
proof -
  let ?e = "e\<lparr>e_postfix := (e_postfix e)\<lparr>sib := hd (am_sib am)\<rparr>\<rparr>"
  have "(1 :: u32) \<le> of_nat (length (am_sib am @ bs))"
    using assms(1,5) by (subst of_nat_length_32) simp_all
  then have n: "(1 :: u32) \<le> of_nat (Suc (length bs))" using assms(1) by simp
  have f: "get_sib_base ?e = am_base am" by (rule sib_fields [OF assms(1)]) (use assms in simp_all)
  have m: "modrm_mod (e_postfix ?e) = am_mod am"
    by (rule modrm_fields) (use assms(3) in simp)
  have "(if am_mod am = 0 \<and> am_base am mod 8 = REG_BP then set_disp (modrm_disp_len am) 4 else Some (modrm_disp_len am))
      = Some (of_nat (length (am_disp am)))"
    using assms(1,2) by (auto simp: set_disp_def modrm_disp_len_def base_ok_def disp_mod_def split: option.splits)
  moreover obtain sb where "am_sib am = [sb]" using assms(1) by simp
  ultimately show ?thesis using n f m by (simp add: parse_sib_def del: of_nat_Suc)
qed

lemma parse_postfix_encoded:
  assumes "rex_for (e_prefix e) reg am" "amode_ok am" "get_address_size e \<noteq> 2"
    and "length (encode_modrm reg am @ imm) < 2 ^ 32" "unat n = length imm"
  shows "\<exists>q. parse_postfix (before (encode_modrm reg am @ imm) rest e) True False 0 n =
      Some (before [] rest (e\<lparr>e_postfix := q, e_displacement_len := of_nat (length (am_disp am)), e_immediate_len := n\<rparr>))
    \<and> modrm q = pack_233 (am_mod am) reg (am_rm am) \<and> (am_sib am \<noteq> [] \<longrightarrow> sib q = hd (am_sib am))
    \<and> (am_disp am \<noteq> [] \<longrightarrow> displacement q = am_disp am @ imm @ rest) \<and> (imm \<noteq> [] \<longrightarrow> immediate q = imm @ rest)"
proof -
  let ?m = "pack_233 (am_mod am) reg (am_rm am)"
  define q1 where "q1 = (e_postfix e)\<lparr>modrm := ?m\<rparr>"
  define q2 where "q2 = (if am_sib am \<noteq> [] then q1\<lparr>sib := hd (am_sib am)\<rparr> else q1)"
  define q3 where "q3 = (if am_disp am \<noteq> [] then q2\<lparr>displacement := am_disp am @ imm @ rest\<rparr> else q2)"
  define q4 where "q4 = (if imm \<noteq> [] then q3\<lparr>immediate := imm @ rest\<rparr> else q3)"
  let ?b2 = "before (am_disp am @ imm) rest (e\<lparr>e_postfix := q2\<rparr>)" and ?b3 = "before imm rest (e\<lparr>e_postfix := q3\<rparr>)"
  have l: "length (am_disp am) \<le> 4" using assms(2) by (cases am) (auto simp: base_ok_def split: option.splits)
  have len: "length (am_disp am @ imm) < 2 ^ 32" "length imm < 2 ^ 32" "length (am_sib am @ am_disp am @ imm) < 2 ^ 32"
    using assms(4) by (simp_all add: encode_modrm_def)
  have u: "unat (of_nat (length (am_disp am)) :: u64) = length (am_disp am)" using l by (simp add: unat_of_nat_64)
  have p1: "parse_modrm (before (encode_modrm reg am @ imm) rest e) False 0 =
      Some (before (am_sib am @ am_disp am @ imm) rest (e\<lparr>e_postfix := q1\<rparr>), am_sib am \<noteq> [], modrm_disp_len am)"
    unfolding q1_def by (rule parse_modrm_encoded [OF assms(1-4)])
  have p2: "(if am_sib am \<noteq> [] then parse_sib (before (am_sib am @ am_disp am @ imm) rest (e\<lparr>e_postfix := q1\<rparr>)) (modrm_disp_len am)
      else Some (before (am_sib am @ am_disp am @ imm) rest (e\<lparr>e_postfix := q1\<rparr>), modrm_disp_len am))
      = Some (before (am_disp am @ imm) rest (e\<lparr>e_postfix := q2\<rparr>), of_nat (length (am_disp am)))"
  proof (cases am)
    case (Indexed bo io sc d)
    then show ?thesis
      using parse_sib_encoded [OF Indexed assms(2), of "e\<lparr>e_postfix := q1\<rparr>" reg "am_disp am @ imm" rest] assms(1) len(3)
      by (simp add: q1_def q2_def)
  qed (simp_all add: q2_def modrm_disp_len_def)
  have p3: "(if (0 :: u64) < of_nat (length (am_disp am)) then do {
       assert_c ((of_nat (length (am_disp am)) :: u64) \<le> ucast (e_pinst_len ?b2));
       Some (advance (of_nat (length (am_disp am))) (?b2\<lparr>e_postfix := (e_postfix ?b2)\<lparr>displacement := e_pinst ?b2\<rparr>\<rparr>))
     } else Some ?b2)
     = Some (before imm rest (e\<lparr>e_postfix := q3\<rparr>))"
  proof (cases "am_disp am = []")
    case False
    then have "(0 :: u64) < of_nat (length (am_disp am))" using u by (simp add: word_less_nat_alt)
    then show ?thesis using False u advance_before [OF u, of imm rest] ucast_length [OF len(1)]
      by (simp add: q3_def del: of_nat_add)
  qed (simp add: q3_def)
  have p4: "(if 0 < n then do {
       assert_c (n \<le> ucast (e_pinst_len ?b3));
       Some (advance n (?b3\<lparr>e_postfix := (e_postfix ?b3)\<lparr>immediate := e_pinst ?b3\<rparr>\<rparr>))
     } else Some ?b3)
     = Some (before [] rest (e\<lparr>e_postfix := q4\<rparr>))"
  proof (cases "imm = []")
    case True
    then have "n = 0" using assms(5) by (simp add: unat_eq_zero)
    then show ?thesis using True by (simp add: q4_def)
  next
    case False
    then have "0 < n" using assms(5) by (simp add: word_less_nat_alt)
    then show ?thesis using False assms(5) advance_before [OF assms(5), of "[]" rest] ucast_length [OF len(2)]
      by (simp add: q4_def)
  qed
  have "parse_postfix (before (encode_modrm reg am @ imm) rest e) True False 0 n =
      Some (before [] rest (e\<lparr>e_postfix := q4, e_displacement_len := of_nat (length (am_disp am)), e_immediate_len := n\<rparr>))"
    by (simp only: parse_postfix_def if_True p1 p2 p3 p4 bind.bind_lunit prod.case) (simp add: before_def)
  then show ?thesis by (intro exI [of _ q4]) (auto simp: q4_def q3_def q2_def q1_def)
qed

subsection \<open>The effective address\<close>

lemma zero_extend_8: "sz = 2 \<or> sz = 4 \<or> sz = 8 \<Longrightarrow> zero_extend x 8 sz = Some (take_bit (8 * unat sz) x)"
  by (auto simp: zero_extend_def extend_sizes_def)

lemma sign_extend_8: "sz = 1 \<or> sz = 4 \<Longrightarrow> sign_extend x 8 sz = Some (signed_take_bit (8 * unat sz - 1) x)"
  by (auto simp: sign_extend_def extend_sizes_def take_bit_word_eq_self)

lemma take_bit_add_cong:
  fixes x y :: u64
  assumes "take_bit k x = take_bit k x'" "take_bit k y = take_bit k y'"
  shows "take_bit k (x + y) = take_bit k (x' + y')"
  using assms take_bit_add_word [of k x y] take_bit_add_word [of k x' y'] by (cases "k \<le> 64") (simp_all add: take_bit_word_eq_self)

lemma take_bit_sum_trunc:
  fixes a b d :: u64
  shows "take_bit k (push_bit s (take_bit k a) + take_bit k b + d) = take_bit k (a * 2 ^ s + b + d)"
    and "take_bit k (take_bit k b + d) = take_bit k (b + d)"
proof -
  have add: "take_bit k (x + y) = take_bit k (x' + y')" if "take_bit k x = take_bit k x'" "take_bit k y = take_bit k y'" for x y x' y' :: u64
    using that by (rule take_bit_add_cong)
  show "take_bit k (take_bit k b + d) = take_bit k (b + d)" by (rule add) simp_all
  have "take_bit k (push_bit s (take_bit k a)) = take_bit k (a * 2 ^ s)"
    by (rule bit_word_eqI) (auto simp: bit_simps push_bit_eq_mult [symmetric])
  then show "take_bit k (push_bit s (take_bit k a) + take_bit k b + d) = take_bit k (a * 2 ^ s + b + d)"
    by (intro add) simp_all
qed

text \<open>An environment whose fields are those of an encoded operand.\<close>

definition encoded_env :: "u8 \<Rightarrow> amode \<Rightarrow> 'x emu_env \<Rightarrow> bool" where
  "encoded_env reg am e \<longleftrightarrow> amode_ok am \<and> rex_for (e_prefix e) reg am \<and> reg < 16 \<and> get_address_size e \<noteq> 2
     \<and> modrm (e_postfix e) = pack_233 (am_mod am) reg (am_rm am) \<and> (am_sib am \<noteq> [] \<longrightarrow> sib (e_postfix e) = hd (am_sib am))
     \<and> e_displacement_len e = of_nat (length (am_disp am))
     \<and> (am_disp am \<noteq> [] \<longrightarrow> (\<exists>bs. displacement (e_postfix e) = am_disp am @ bs))"

lemma encoded_displacement:
  assumes "encoded_env reg am e"
  shows "(if e_displacement_len e \<noteq> 0 then do {
           d \<leftarrow> fetch (e_displacement_len e) (displacement (e_postfix e));
           d \<leftarrow> sign_extend d 8 (e_displacement_len e);
           Some (addr + d)
         }
         else Some addr) = Some (addr + disp_value (am_disp am))"
proof -
  have "length (am_disp am) \<in> {0, 1, 4}"
    using assms by (cases am) (auto simp: encoded_env_def base_ok_def split: option.splits)
  then consider "am_disp am = []" | n where "n = 1 \<or> n = 4" "unat n = length (am_disp am)" "e_displacement_len e = n" "am_disp am \<noteq> []"
    using assms by (force simp: encoded_env_def)
  then show ?thesis
  proof cases
    case 1
    then show ?thesis using assms by (simp add: encoded_env_def disp_value_def)
  next
    case (2 n)
    then obtain bs where "displacement (e_postfix e) = am_disp am @ bs" using assms by (auto simp: encoded_env_def)
    then have "fetch n (displacement (e_postfix e)) = Some (le_val (am_disp am))" using 2 by (simp add: fetch_def)
    moreover have "n \<noteq> 0" using 2 by auto
    ultimately show ?thesis using 2 sign_extend_8 [OF 2(1)] by (simp add: disp_value_def)
  qed
qed

lemma read_reg_address:
  assumes "i < 16" "get_address_size e \<noteq> 2"
  shows "get_reg_ptr i (get_address_size e) = Some (reg_sels ! unat i)"
    "load_reg v r (reg_sels ! unat i) = Some (reg_value v r i)"
    "zero_extend x 8 (get_address_size e) = Some (take_bit (8 * unat (get_address_size e)) x)"
  using address_size_cases [of e] assms
  by (auto intro!: get_reg_ptr_sel load_reg_sel zero_extend_8)

lemma compute_segment_encoded:
  assumes "e_seg e = CPU_SEG_UNKNOWN"
  shows "compute_segment e i = Some (e\<lparr>e_seg := (if p_seg (e_prefix e) \<noteq> CPU_SEG_UNKNOWN then p_seg (e_prefix e)
    else if i = REG_SP \<or> i = REG_BP then CPU_SEG_SS else CPU_SEG_DS)\<rparr>)"
  using assms by (simp add: compute_segment_def)

lemma eval_sib_addr_encoded:
  assumes "encoded_env reg (Indexed bo io sc d) e" "e_seg e = CPU_SEG_UNKNOWN"
  defines "k \<equiv> 8 * unat (get_address_size e)" and "rd \<equiv> reg_value (e_vcpu e) (e_r e)"
  shows "eval_sib_addr e = Some ((case io of None \<Rightarrow> 0 | Some i \<Rightarrow> push_bit (unat sc) (take_bit k (rd i)))
    + (case bo of None \<Rightarrow> 0 | Some b \<Rightarrow> take_bit k (rd b)), e\<lparr>e_seg := am_seg (p_seg (e_prefix e)) (Indexed bo io sc d)\<rparr>)"
proof -
  let ?am = "Indexed bo io sc d"
  have ok: "amode_ok ?am" "get_address_size e \<noteq> 2" "rex_for (e_prefix e) reg ?am"
    and q: "modrm (e_postfix e) = pack_233 (am_mod ?am) reg (am_rm ?am)" "sib (e_postfix e) = pack_233 sc (am_index ?am) (am_base ?am)"
    using assms(1) by (simp_all add: encoded_env_def)
  note f = sib_fields [OF refl q(2) ok(3,1)] modrm_fields(3) [OF q(1)]
  have i: "(if am_index ?am \<noteq> REG_SP then do {
         sel \<leftarrow> get_reg_ptr (am_index ?am) (get_address_size e);
         x \<leftarrow> load_reg (e_vcpu e) (e_r e) sel;
         x \<leftarrow> zero_extend x 8 (get_address_size e);
         Some (push_bit (unat sc) x)
       } else Some 0) = Some (case io of None \<Rightarrow> 0 | Some i \<Rightarrow> push_bit (unat sc) (take_bit k (rd i)))"
  proof (cases io)
    case (Some i)
    then have "i < 16" "i \<noteq> REG_SP" using ok(1) by auto
    then show ?thesis using Some read_reg_address [OF _ ok(2)] by (simp add: k_def rd_def)
  qed simp
  show ?thesis
  proof (cases bo)
    case None
    then show ?thesis using compute_segment_encoded [OF assms(2)] ok(2) unfolding eval_sib_addr_def Let_def f i by simp
  next
    case (Some b)
    then have b: "b < 16" "\<not> (am_mod ?am = 0 \<and> b mod 8 = REG_BP)" "am_base ?am = b" using ok(1) by (auto simp: base_ok_def disp_mod_def split: if_splits)
    show ?thesis
      using b compute_segment_encoded [OF assms(2)] ok(2) read_reg_address [OF b(1) ok(2)]
      unfolding eval_sib_addr_def Let_def f i by (simp add: Some k_def rd_def)
  qed
qed

lemma eval_modrm_addr_direct:
  assumes "encoded_env reg (Direct m) e"
  shows "eval_modrm_addr e = Some (In_Register (reg_sels ! unat m), e)"
proof -
  have ok: "amode_ok (Direct m)" "get_address_size e \<noteq> 2" "rex_for (e_prefix e) reg (Direct m)"
    and q: "modrm (e_postfix e) = pack_233 (am_mod (Direct m)) reg (am_rm (Direct m))"
    using assms by (simp_all add: encoded_env_def)
  have "get_reg_ptr m (get_operand_size e) = Some (reg_sels ! unat m)"
    using operand_size_cases [of e] ok(1) by (intro get_reg_ptr_sel) auto
  then show ?thesis
    using modrm_fields(3) [OF q] rm_field(1) [OF q ok(3,1)] ok(2) by (simp add: eval_modrm_addr_def)
qed

lemma eval_modrm_addr_memory:
  assumes "encoded_env reg am e" "e_seg e = CPU_SEG_UNKNOWN" "am_mod am \<noteq> 3" "\<And>d. am = Absolute d \<Longrightarrow> get_address_size e \<noteq> 8"
  shows "eval_modrm_addr e =
    Some (In_Memory (take_bit (8 * unat (get_address_size e)) (am_addr (reg_value (e_vcpu e) (e_r e)) am)),
      e\<lparr>e_seg := am_seg (p_seg (e_prefix e)) am\<rparr>)"
proof -
  have ok: "amode_ok am" "get_address_size e \<noteq> 2" "rex_for (e_prefix e) reg am"
    and q: "modrm (e_postfix e) = pack_233 (am_mod am) reg (am_rm am)"
    using assms(1) by (simp_all add: encoded_env_def)
  let ?k = "8 * unat (get_address_size e)" and ?rd = "reg_value (e_vcpu e) (e_r e)"
  note f = modrm_fields(3) [OF q] rm_field [OF q ok(3,1)]
  have b: "encoded_env reg am (e\<lparr>e_seg := sg\<rparr>)" for sg
    using assms(1) by (simp add: encoded_env_def)
  have z: "zero_extend x 8 (get_address_size e) = Some (take_bit ?k x)" for x
    using address_size_cases [of e] by (intro zero_extend_8) auto
  note u = eval_modrm_addr_def Let_def f ok(2) assms(2,3) z encoded_displacement [OF b, simplified] compute_segment_encoded [OF assms(2)]
  show ?thesis
  proof (cases am)
    case (Direct m)
    then show ?thesis using assms(3) by simp
  next
    case (Based i d')
    then have i: "i < 16" "i mod 8 \<noteq> 4" "\<not> (i mod 8 = 5 \<and> disp_mod d' = 0)" "disp_mod d' \<noteq> 3"
      using Based ok(1) by (auto simp: base_ok_def disp_mod_def)
    then show ?thesis using Based read_reg_address [OF i(1) ok(2)] by (simp add: u am_rm_def take_bit_sum_trunc) blast
  next
    case (Indexed bo io sc d')
    have "take_bit ?k ((case io of None \<Rightarrow> 0 | Some i \<Rightarrow> push_bit (unat sc) (take_bit ?k (?rd i)))
        + (case bo of None \<Rightarrow> 0 | Some j \<Rightarrow> take_bit ?k (?rd j)) + disp_value d') = take_bit ?k (am_addr ?rd am)"
      using take_bit_sum_trunc(1) [of ?k "unat sc" "case io of None \<Rightarrow> 0 | Some i \<Rightarrow> ?rd i"
          "case bo of None \<Rightarrow> 0 | Some j \<Rightarrow> ?rd j" "disp_value d'"] Indexed
      by (cases io; cases bo; simp)
    moreover have "disp_mod d' \<noteq> 3" by (simp add: disp_mod_def)
    ultimately show ?thesis
      using eval_sib_addr_encoded [of reg bo io sc d' e] assms(1,2) Indexed by (simp add: u am_rm_def)
  next
    case (Absolute d')
    then show ?thesis using assms(4) by (simp add: u am_rm_def)
  qed
qed

subsection \<open>Instructions of the processor\<close>

text \<open>
  An instruction with the opcode bytes \<open>ops\<close>, the register number \<open>reg\<close> and the operand \<open>am\<close>, after any sequence \<open>ps\<close> of segment and
  size prefixes and an optional REX prefix of the given W bit. The stores are MOV of a register (\<^verbatim>\<open>89 /r\<close>) or of an
  immediate (\<^verbatim>\<open>C7 /0\<close>).
\<close>

datatype store_src = From_Reg u8 | From_Imm "u8 list"

fun store_opcode :: "store_src \<Rightarrow> u8" where
  "store_opcode (From_Reg reg) = 0x89"
| "store_opcode (From_Imm i) = 0xc7"

fun store_reg_field :: "store_src \<Rightarrow> u8" where
  "store_reg_field (From_Reg reg) = reg"
| "store_reg_field (From_Imm i) = 0"

fun store_imm :: "store_src \<Rightarrow> u8 list" where
  "store_imm (From_Reg reg) = []"
| "store_imm (From_Imm i) = i"

definition encode_insn :: "u8 list \<Rightarrow> bool option \<Rightarrow> u8 list \<Rightarrow> u8 \<Rightarrow> amode \<Rightarrow> u8 list \<Rightarrow> u8 list" where
  "encode_insn ps rexo ops reg am imm =
     ps @ (case rexo of None \<Rightarrow> [] | Some w \<Rightarrow> [pack_rex w reg (am_index am) (am_base am)]) @ ops @ encode_modrm reg am @ imm"

definition encode_store :: "u8 list \<Rightarrow> bool option \<Rightarrow> store_src \<Rightarrow> amode \<Rightarrow> u8 list" where
  "encode_store ps rexo src am = encode_insn ps rexo [store_opcode src] (store_reg_field src) am (store_imm src)"

definition segment_bytes :: "(u8 \<times> cpu_segment) list" where
  "segment_bytes = [(0x26, CPU_SEG_ES), (0x2e, CPU_SEG_CS), (0x36, CPU_SEG_SS), (0x3e, CPU_SEG_DS), (0x64, CPU_SEG_FS), (0x65, CPU_SEG_GS)]"

definition seg_override :: "u8 list \<Rightarrow> cpu_segment" where
  "seg_override ps = last (CPU_SEG_UNKNOWN # List.map_filter (map_of segment_bytes) ps)"

definition op_size :: "bool \<Rightarrow> bool \<Rightarrow> u8 list \<Rightarrow> bool option \<Rightarrow> u64" where
  "op_size g64 cs_d ps rexo = (if rexo = Some True then 8 else if (g64 \<or> cs_d) = (0x66 \<in> set ps) then 2 else 4)"

definition addr_size :: "bool \<Rightarrow> bool \<Rightarrow> u8 list \<Rightarrow> u64" where
  "addr_size g64 cs_d ps = (if g64 then (if 0x67 \<in> set ps then 4 else 8) else if cs_d = (0x67 \<in> set ps) then 2 else 4)"

definition store_value :: "vcpu \<Rightarrow> regs \<Rightarrow> store_src \<Rightarrow> u64" where
  "store_value v r src = (case src of From_Reg reg \<Rightarrow> reg_value v r reg | From_Imm i \<Rightarrow> disp_value i)"

text \<open>
  Which of them there are, in the given mode. In 64-bit mode the absolute form means relative to the instruction pointer, which the
  emulator does not implement.
\<close>

definition insn_ok :: "bool \<Rightarrow> bool \<Rightarrow> u8 list \<Rightarrow> bool option \<Rightarrow> u8 \<Rightarrow> amode \<Rightarrow> bool" where
  "insn_ok g64 cs_d ps rexo reg am \<longleftrightarrow> set ps \<subseteq> {0x66, 0x67} \<union> fst ` set segment_bytes \<and> amode_ok am \<and> reg < 16
     \<and> (case rexo of None \<Rightarrow> reg < 8 \<and> am_index am < 8 \<and> am_base am < 8 | Some _ \<Rightarrow> g64)
     \<and> (case am of Absolute _ \<Rightarrow> \<not> g64 | _ \<Rightarrow> True) \<and> addr_size g64 cs_d ps \<noteq> 2"

definition store_ok :: "bool \<Rightarrow> bool \<Rightarrow> u8 list \<Rightarrow> bool option \<Rightarrow> store_src \<Rightarrow> amode \<Rightarrow> bool" where
  "store_ok g64 cs_d ps rexo src am \<longleftrightarrow> insn_ok g64 cs_d ps rexo (store_reg_field src) am
     \<and> (case src of From_Reg _ \<Rightarrow> True | From_Imm i \<Rightarrow> length i = unat (min (op_size g64 cs_d ps rexo) 4))"

subsection \<open>Operand values\<close>

lemma le_bytes_nth: "i < n \<Longrightarrow> le_bytes n x ! i = ucast (drop_bit (8 * i) x)"
proof (induction n arbitrary: i x)
  case (Suc n)
  then show ?case by (cases i) (simp_all add: algebra_simps)
qed simp

lemma length_le_bytes [simp]: "length (le_bytes n x) = n"
  by (induction n arbitrary: x) simp_all

lemma le_bytes_cong:
  assumes "take_bit (8 * n) x = take_bit (8 * n) y"
  shows "le_bytes n x = le_bytes n y"
proof (rule nth_equalityI)
  fix i assume "i < length (le_bytes n x)"
  then have "i < n" by simp
  have "bit x k = bit y k" if "k < 8 * n" for k using assms that by (metis bit_take_bit_iff)
  then have "ucast (drop_bit (8 * i) x) = (ucast (drop_bit (8 * i) y) :: u8)"
    using \<open>i < n\<close> by (intro bit_word_eqI) (auto simp: bit_simps)
  then show "le_bytes n x ! i = le_bytes n y ! i" using \<open>i < n\<close> by (simp add: le_bytes_nth)
qed simp

lemma le_bytes_signed: "0 < n \<Longrightarrow> le_bytes n (signed_take_bit (8 * n - 1) x) = le_bytes n x"
proof (intro le_bytes_cong bit_word_eqI)
  fix k assume "0 < n" "k < LENGTH(64)"
  then have "k < 8 * n \<Longrightarrow> 8 * n - 1 \<le> k \<Longrightarrow> k = 8 * n - 1" by linarith
  then show "bit (take_bit (8 * n) (signed_take_bit (8 * n - 1) x)) k = bit (take_bit (8 * n) x) k"
    using \<open>k < LENGTH(64)\<close> by (auto simp: bit_simps min_def)
qed

lemma overlay_start: "length bs \<le> length buf \<Longrightarrow> take (length bs) (overlay buf 0 bs) = bs \<and> length (overlay buf 0 bs) = length buf"
  by (simp add: overlay_def)

text \<open>The operand \<open>oper\<close> has the \<open>n\<close> bytes of the value \<open>x\<close>.\<close>

definition holds_value :: "operand \<Rightarrow> u64 \<Rightarrow> u64 \<Rightarrow> bool" where
  "holds_value oper n x \<longleftrightarrow> operand_size oper = n \<and> length (op_val oper) = OPERAND_VAL_LENGTH
     \<and> take (unat n) (op_val oper) = le_bytes (unat n) x"

lemma eval_register_value:
  assumes "op_type oper = OPERAND_REG" "reg_hvaddr oper = Some (reg_sels ! unat i)" "i < 16"
    and "unat (operand_size oper) \<le> 8" "length (op_val oper) = OPERAND_VAL_LENGTH"
  shows "\<exists>oper'. eval_operand_value e oper s = Some (OK (), oper', s)
    \<and> op_type oper' = OPERAND_REG \<and> holds_value oper' (operand_size oper) (reg_value (e_vcpu e) (e_r e) i)"
  using assms load_reg_sel [OF assms(3)] overlay_start [of "le_bytes (unat (operand_size oper)) (reg_value (e_vcpu e) (e_r e) i)" "op_val oper"]
  by (simp add: eval_operand_value_def holds_value_def)

lemma eval_immediate_value:
  assumes "op_type oper = OPERAND_IMM" "immediate (e_postfix e) = imm @ rest" "length imm = unat (min (operand_size oper) 4)"
    and "operand_size oper = 2 \<or> operand_size oper = 4 \<or> operand_size oper = 8" "length (op_val oper) = OPERAND_VAL_LENGTH"
  shows "\<exists>oper'. eval_operand_value e oper s = Some (OK (), oper', s)
    \<and> op_type oper' = OPERAND_IMM \<and> holds_value oper' (operand_size oper) (disp_value imm)"
proof -
  let ?n = "operand_size oper"
  have i: "imm \<noteq> []" using assms(3,4) by auto
  show ?thesis
  proof (cases "?n = 8")
    case True
    then have l: "length imm = 4" using assms(3) by simp
    have "fetch 4 (imm @ rest) = Some (le_val imm)" using l by (simp add: fetch_def)
    moreover have "signed_take_bit 31 (le_val imm) = disp_value imm" using i l by (simp add: disp_value_def)
    ultimately show ?thesis
      using assms(1,2,5) True overlay_start [of "le_bytes 8 (disp_value imm)" "op_val oper"]
      by (simp add: eval_operand_value_def holds_value_def)
  next
    case False
    then have l: "length imm = unat ?n" using assms(3,4) by auto
    have "fetch ?n (imm @ rest) = Some (le_val imm)" using l by (simp add: fetch_def)
    moreover have "le_bytes (unat ?n) (disp_value imm) = le_bytes (unat ?n) (le_val imm)"
      using i l le_bytes_signed [of "unat ?n" "le_val imm"] by (cases imm) (simp_all add: disp_value_def)
    moreover have "unat ?n \<le> 8" using assms(4) by auto
    ultimately show ?thesis
      using assms(1,2,5) False overlay_start [of "le_bytes (unat ?n) (le_val imm)" "op_val oper"]
      by (simp add: eval_operand_value_def holds_value_def)
  qed
qed

subsection \<open>Stores\<close>

lemma size_updates [simp]:
  "get_address_size (e\<lparr>e_src := x\<rparr>) = get_address_size e" "get_operand_size (e\<lparr>e_src := x\<rparr>) = get_operand_size e"
  "get_address_size (e\<lparr>e_displacement_len := n\<rparr>) = get_address_size e"
  "get_operand_size (e\<lparr>e_displacement_len := n\<rparr>) = get_operand_size e"
  "get_address_size (e\<lparr>e_immediate_len := n\<rparr>) = get_address_size e"
  "get_operand_size (e\<lparr>e_immediate_len := n\<rparr>) = get_operand_size e"
  by (simp_all add: get_address_size_def get_operand_size_def)

lemma rex_of_pack:
  assumes "p_rex p = pack_rex w r x b"
  shows "rex_b p = of_bool (bit b 3)" "rex_x p = of_bool (bit x 3)" "rex_r p = of_bool (bit r 3)" "rex_w p = of_bool w" "rex_four p = 4"
  by (simp_all only: rex_b_def rex_x_def rex_r_def rex_w_def rex_four_def assms and_1 pack_rex_fields)

lemma prefixed_seg:
  assumes "set ps \<subseteq> {0x66, 0x67} \<union> fst ` set segment_bytes"
  shows "p_seg (prefixed ps p) = last (p_seg p # List.map_filter (map_of segment_bytes) ps)"
  using assms
proof (induction ps arbitrary: p)
  case (Cons b ps)
  have "b \<in> {0x66, 0x67} \<union> fst ` set segment_bytes" using Cons.prems by simp
  then have "p_seg (the (legacy_prefix b p)) = (case map_of segment_bytes b of None \<Rightarrow> p_seg p | Some sg \<Rightarrow> sg)"
    by (auto simp: segment_bytes_def legacy_prefix_def)
  then show ?case using Cons.IH [of "the (legacy_prefix b p)"] Cons.prems
    by (auto simp: prefixed_def List.map_filter_simps split: option.splits)
qed (simp add: prefixed_def List.map_filter_simps)

text \<open>The environment after the prefixes of an encoded instruction.\<close>

lemma insn_prefixes:
  assumes ok: "insn_ok g64 cs_d ps rexo reg am" and e: "e_g64 e = g64" "e_cs_d e = cs_d" "e_prefix e = prefix_init"
    and opc: "opc \<notin> set legacy_bytes" "opc AND 0xf0 \<noteq> 0x40"
    and len: "length (encode_insn ps rexo (opc # ops) reg am imm) < 2 ^ 32"
  shows "\<exists>p. parse_prefix (before (encode_insn ps rexo (opc # ops) reg am imm) rest e) =
      Some (before (opc # ops @ encode_modrm reg am @ imm) rest (e\<lparr>e_prefix := p\<rparr>))
    \<and> rex_for p reg am \<and> p_seg p = seg_override ps \<and> no_rep_lock (e\<lparr>e_prefix := p\<rparr>)
    \<and> get_operand_size (e\<lparr>e_prefix := p\<rparr>) = op_size g64 cs_d ps rexo
    \<and> get_address_size (e\<lparr>e_prefix := p\<rparr>) = addr_size g64 cs_d ps"
proof -
  have ps: "set ps \<subseteq> {0x66, 0x67} \<union> fst ` set segment_bytes" using ok by (simp add: insn_ok_def)
  then have lg: "set ps \<subseteq> set legacy_bytes" by (auto simp: segment_bytes_def legacy_bytes_def)
  have no: "0xf0 \<notin> set ps" "0xf2 \<notin> set ps" "0xf3 \<notin> set ps" using ps by (auto simp: segment_bytes_def)
  define p where "p = prefixed ps prefix_init"
  have np: "p_seg p = seg_override ps" "p_opsize p \<longleftrightarrow> 0x66 \<in> set ps" "p_addrsize p \<longleftrightarrow> 0x67 \<in> set ps"
      "\<not> p_lock p" "\<not> p_repe p" "\<not> p_repne p" "p_rex p = 0"
    using prefixed_fields [OF lg, of prefix_init] prefixed_seg [OF ps, of prefix_init] no
    by (simp_all add: p_def prefix_init_def seg_override_def)
  note sizes = no_rep_lock_def get_operand_size_def get_address_size_def op_size_def addr_size_def
  show ?thesis
  proof (cases rexo)
    case None
    have "parse_prefix (before (encode_insn ps rexo (opc # ops) reg am imm) rest e) =
        Some (before (opc # ops @ encode_modrm reg am @ imm) rest (e\<lparr>e_prefix := p\<rparr>))"
      using parse_prefix_before [OF lg opc(1), where e = e] opc(2) len None by (simp add: encode_insn_def p_def e)
    moreover have "rex_for p reg am" using ok np(7) None by (simp add: insn_ok_def rex_for_def rex_four_def)
    ultimately show ?thesis
      using np None e by (intro exI [of _ p]) (auto simp: sizes rex_w_def)
  next
    case (Some w)
    let ?p = "p\<lparr>p_rex := pack_rex w reg (am_index am) (am_base am)\<rparr>"
    have g: "g64" using ok Some by (simp add: insn_ok_def)
    have "parse_prefix (before (encode_insn ps rexo (opc # ops) reg am imm) rest e) =
        Some (before (opc # ops @ encode_modrm reg am @ imm) rest (e\<lparr>e_prefix := ?p\<rparr>))"
      using parse_prefix_rex [OF lg, where e = e] len Some g by (simp add: encode_insn_def p_def e)
    moreover note w = rex_of_pack [of ?p, simplified, OF refl]
    then have "rex_for ?p reg am" by (simp add: rex_for_def)
    ultimately show ?thesis
      using np Some e g w(4) by (intro exI [of _ ?p]) (auto simp: sizes)
  qed
qed

text \<open>What the destination of a store of \<open>n\<close> bytes is, for the registers of \<open>v\<close> and \<open>r\<close>.\<close>

definition dst_linear :: "vcpu \<Rightarrow> regs \<Rightarrow> u64 \<Rightarrow> amode \<Rightarrow> u64" where
  "dst_linear v r asize am = take_bit (8 * unat asize) (am_addr (reg_value v r) am)"

definition dst_of :: "vcpu \<Rightarrow> regs \<Rightarrow> u64 \<Rightarrow> cpu_segment \<Rightarrow> amode \<Rightarrow> u64 \<Rightarrow> operand \<Rightarrow> operand exec" where
  "dst_of v r asize seg am n d = (case am of
     Direct m \<Rightarrow> Some (d\<lparr>op_type := OPERAND_REG, operand_size := n, reg_hvaddr := Some (reg_sels ! unat m)\<rparr>)
   | _ \<Rightarrow> (case guestmem_desegment v (am_seg seg am) (dst_linear v r asize am) n HPT_PROT_WRITE_MASK
         (ucast (guest_CS_selector (vmcs v) AND 3)) of
       None \<Rightarrow> None
     | Some gva \<Rightarrow> Some (d\<lparr>op_type := OPERAND_MEM, operand_size := n, mem_seg := am_seg seg am,
         mem_offset := dst_linear v r asize am, mem_gvaddr := gva\<rparr>)))"

lemma set_modrm_dst_encoded:
  fixes n :: u64
  assumes "encoded_env reg am e" "e_seg e = CPU_SEG_UNKNOWN" "\<And>d. am = Absolute d \<Longrightarrow> get_address_size e \<noteq> 8"
  defines "d \<equiv> dst_of (e_vcpu e) (e_r e) (get_address_size e) (p_seg (e_prefix e)) am n (e_dst e)"
  shows "set_modrm_dst n hv e = (case d of None \<Rightarrow> None
    | Some d \<Rightarrow> Some (e\<lparr>e_dst := d, e_seg := (case am of Direct _ \<Rightarrow> CPU_SEG_UNKNOWN | _ \<Rightarrow> am_seg (p_seg (e_prefix e)) am)\<rparr>))"
proof (cases "am_mod am = 3")
  case True
  then obtain m where m: "am = Direct m" by (cases am) (auto simp: disp_mod_def split: if_splits)
  then show ?thesis
    using eval_modrm_addr_direct [of reg m e] assms(1,2) by (simp add: set_modrm_dst_def d_def dst_of_def)
next
  case False
  have x: "eval_modrm_addr e = Some (In_Memory (dst_linear (e_vcpu e) (e_r e) (get_address_size e) am),
      e\<lparr>e_seg := am_seg (p_seg (e_prefix e)) am\<rparr>)"
    unfolding dst_linear_def by (rule eval_modrm_addr_memory [OF assms(1,2) False assms(3)])
  have "\<And>m. am \<noteq> Direct m" using False by auto
  then show ?thesis unfolding set_modrm_dst_def x
    by (cases am; simp add: d_def dst_of_def eval_guest_memory_gvaddr_def emu_cpl_def split: option.splits)
qed

text \<open>The emulation of a store: \<open>st\<close> is the environment it returns.\<close>

definition store_result :: "vcpu \<Rightarrow> regs \<Rightarrow> 'x emu_env \<Rightarrow> u64 \<Rightarrow> u64 \<Rightarrow> operand \<Rightarrow> bool" where
  "store_result v r st n x d \<longleftrightarrow> e_vcpu st = v \<and> e_r st = r \<and> e_dst st = d \<and> holds_value (e_src st) n x"

text \<open>\<open>e'\<close> is the environment after the bytes that follow the opcode.\<close>

definition decoded :: "'x emu_env \<Rightarrow> u8 \<Rightarrow> amode \<Rightarrow> u8 list \<Rightarrow> u8 list \<Rightarrow> u64 \<Rightarrow> 'x emu_env \<Rightarrow> bool" where
  "decoded e reg am imm rest n e' \<longleftrightarrow> (\<exists>q.
     e' = before [] rest (e\<lparr>e_postfix := q, e_displacement_len := of_nat (length (am_disp am)), e_immediate_len := n\<rparr>)
     \<and> modrm q = pack_233 (am_mod am) reg (am_rm am) \<and> (am_sib am \<noteq> [] \<longrightarrow> sib q = hd (am_sib am))
     \<and> (am_disp am \<noteq> [] \<longrightarrow> displacement q = am_disp am @ imm @ rest) \<and> (imm \<noteq> [] \<longrightarrow> immediate q = imm @ rest))"

lemma decoded_simps:
  assumes "decoded e reg am imm rest n e'"
  shows "e_vcpu e' = e_vcpu e" "e_r e' = e_r e" "e_src e' = e_src e" "e_dst e' = e_dst e" "e_prefix e' = e_prefix e"
    "e_seg e' = e_seg e" "get_operand_size e' = get_operand_size e" "get_address_size e' = get_address_size e"
    "imm \<noteq> [] \<Longrightarrow> immediate (e_postfix e') = imm @ rest"
  using assms by (auto simp: decoded_def)

lemma parse_postfix_decoded:
  assumes "rex_for (e_prefix e) reg am" "amode_ok am" "get_address_size e \<noteq> 2"
    and "length (encode_modrm reg am @ imm) < 2 ^ 32" "unat n = length imm"
  obtains e' where "parse_postfix (before (encode_modrm reg am @ imm) rest e) True False 0 n = Some e'" "decoded e reg am imm rest n e'"
  using parse_postfix_encoded [OF assms, of rest] by (auto simp: decoded_def)

lemma decoded_encoded:
  assumes "decoded e reg am imm rest n e'" "rex_for (e_prefix e) reg am" "amode_ok am" "reg < 16" "get_address_size e \<noteq> 2"
  shows "encoded_env reg am (e'\<lparr>e_src := x\<rparr>)"
  using assms by (auto simp: encoded_env_def decoded_def)

lemma decoded_reg:
  assumes "decoded e reg am imm rest n e'" "rex_for (e_prefix e) reg am" "reg < 16"
  shows "eval_modrm_reg e' = Some (reg_sels ! unat reg)"
proof -
  have "get_modrm_reg e' = reg" by (rule reg_field) (use assms in \<open>auto simp: decoded_def\<close>)
  then show ?thesis
    using assms(3) operand_size_cases [of e'] by (auto simp: eval_modrm_reg_def intro!: get_reg_ptr_sel)
qed

text \<open>The environment before those bytes.\<close>

definition store_env :: "'x emu_env \<Rightarrow> u8 \<Rightarrow> amode \<Rightarrow> u8 list \<Rightarrow> bool" where
  "store_env e reg am imm \<longleftrightarrow> e_src e = operand_zero \<and> e_seg e = CPU_SEG_UNKNOWN \<and> e_postfix e = postfix_zero \<and> no_rep_lock e
     \<and> rex_for (e_prefix e) reg am \<and> amode_ok am \<and> reg < 16 \<and> get_address_size e \<noteq> 2
     \<and> (case am of Absolute _ \<Rightarrow> get_address_size e \<noteq> 8 | _ \<Rightarrow> True) \<and> length (encode_modrm reg am @ imm) < 2 ^ 32"

definition store_done :: "'x emu_env \<Rightarrow> amode \<Rightarrow> 'x eptlock_scheme \<Rightarrow> 'x emu_result exec \<Rightarrow> u64 \<Rightarrow> bool" where
  "store_done e am s res x \<longleftrightarrow>
     (case dst_of (e_vcpu e) (e_r e) (get_address_size e) (p_seg (e_prefix e)) am (get_operand_size e) (e_dst e) of
        None \<Rightarrow> res = None
      | Some d \<Rightarrow> \<exists>st. res = Some (OK (), st, s) \<and> store_result (e_vcpu e) (e_r e) st (get_operand_size e) x d)"

lemma store_env_dst:
  assumes "store_env e reg am imm" "decoded e reg am imm rest l e'" "holds_value x (get_operand_size e) y"
  shows "store_done e am s (do { e'' \<leftarrow> set_modrm_dst (get_operand_size e) hv (e'\<lparr>e_src := x\<rparr>); Some (OK (), e'', s) }) y"
proof -
  have "encoded_env reg am (e'\<lparr>e_src := x\<rparr>)"
    by (rule decoded_encoded [OF assms(2)]) (use assms(1) in \<open>simp_all add: store_env_def\<close>)
  moreover have "e_seg (e'\<lparr>e_src := x\<rparr>) = CPU_SEG_UNKNOWN" "\<And>d. am = Absolute d \<Longrightarrow> get_address_size (e'\<lparr>e_src := x\<rparr>) \<noteq> 8"
    using assms(1) decoded_simps [OF assms(2)] by (simp_all add: store_env_def)
  ultimately have "set_modrm_dst (get_operand_size e) hv (e'\<lparr>e_src := x\<rparr>) =
      (case dst_of (e_vcpu e) (e_r e) (get_address_size e) (p_seg (e_prefix e)) am (get_operand_size e) (e_dst e) of None \<Rightarrow> None
       | Some d \<Rightarrow> Some (e'\<lparr>e_src := x, e_dst := d,
           e_seg := (case am of Direct _ \<Rightarrow> CPU_SEG_UNKNOWN | _ \<Rightarrow> am_seg (p_seg (e_prefix (e'\<lparr>e_src := x\<rparr>))) am)\<rparr>))"
    using set_modrm_dst_encoded [of reg am "e'\<lparr>e_src := x\<rparr>" "get_operand_size e" hv] decoded_simps [OF assms(2)] by simp
  then show ?thesis
    using assms(3) decoded_simps(1,2) [OF assms(2)] by (auto simp: store_done_def store_result_def split: option.splits)
qed

lemma emu_89_store:
  assumes "store_env e reg am []"
  shows "store_done e am s (emu_89 (before (encode_modrm reg am) rest e) s) (reg_value (e_vcpu e) (e_r e) reg)"
proof -
  note a = assms [unfolded store_env_def]
  let ?n = "get_operand_size e"
  obtain e' where e': "parse_postfix (before (encode_modrm reg am) rest e) True False 0 0 = Some e'" "decoded e reg am [] rest 0 e'"
    using parse_postfix_decoded [of e reg am "[]" 0 rest] a by auto
  let ?s = "operand_zero\<lparr>op_type := OPERAND_REG, reg_hvaddr := Some (reg_sels ! unat reg), operand_size := ?n\<rparr>"
  obtain x where x: "eval_operand_value (e'\<lparr>e_src := ?s\<rparr>) ?s s = Some (OK (), x, s)" "holds_value x ?n (reg_value (e_vcpu e) (e_r e) reg)"
  proof -
    have "unat ?n \<le> 8" using operand_size_cases [of e] by auto
    then have "\<exists>x. eval_operand_value (e'\<lparr>e_src := ?s\<rparr>) ?s s = Some (OK (), x, s)
        \<and> op_type x = OPERAND_REG \<and> holds_value x (operand_size ?s) (reg_value (e_vcpu (e'\<lparr>e_src := ?s\<rparr>)) (e_r (e'\<lparr>e_src := ?s\<rparr>)) reg)"
      by (intro eval_register_value) (use a in \<open>simp_all add: operand_zero_def\<close>)
    then show ?thesis using that decoded_simps(1,2) [OF e'(2)] by auto
  qed
  have "emu_89 (before (encode_modrm reg am) rest e) s
      = do { e'' \<leftarrow> set_modrm_dst ?n (op_val x) (e'\<lparr>e_src := x\<rparr>); Some (OK (), e'', s) }"
    using a e'(1) x(1) decoded_simps [OF e'(2)] decoded_reg [OF e'(2)] by (simp add: emu_89_def no_rep_lock_def)
  then show ?thesis using store_env_dst [OF assms e'(2) x(2)] by simp
qed

lemma emu_c7_store:
  assumes "store_env e 0 am imm" "length imm = unat (min (get_operand_size e) 4)"
  shows "store_done e am s (emu_c7 (before (encode_modrm 0 am @ imm) rest e) s) (disp_value imm)"
proof -
  note a = assms(1) [unfolded store_env_def]
  let ?n = "get_operand_size e"
  have i: "imm \<noteq> []" using assms(2) operand_size_cases [of e] by auto
  obtain e' where e': "parse_postfix (before (encode_modrm 0 am @ imm) rest e) True False 0 (min ?n 4) = Some e'"
      "decoded e 0 am imm rest (min ?n 4) e'"
    using a by (elim conjE) (rule parse_postfix_decoded [OF _ _ _ _ assms(2) [symmetric]])
  let ?s = "operand_zero\<lparr>op_type := OPERAND_IMM, operand_size := ?n\<rparr>"
  obtain x where x: "eval_operand_value (e'\<lparr>e_src := ?s\<rparr>) ?s s = Some (OK (), x, s)" "holds_value x ?n (disp_value imm)"
  proof -
    have "\<exists>x. eval_operand_value (e'\<lparr>e_src := ?s\<rparr>) ?s s = Some (OK (), x, s)
        \<and> op_type x = OPERAND_IMM \<and> holds_value x (operand_size ?s) (disp_value imm)"
      by (rule eval_immediate_value [where rest = rest])
        (use operand_size_cases [of e] decoded_simps(9) [OF e'(2) i] assms(2) in \<open>simp_all add: operand_zero_def\<close>)
    then show ?thesis using that by auto
  qed
  have "emu_c7 (before (encode_modrm 0 am @ imm) rest e) s
      = do { e'' \<leftarrow> set_modrm_dst ?n [] (e'\<lparr>e_src := x\<rparr>); Some (OK (), e'', s) }"
    using a e'(1) x(1) decoded_simps [OF e'(2)] by (simp add: emu_c7_def no_rep_lock_def modrm_regop_def postfix_zero_def)
  then show ?thesis using store_env_dst [OF assms(1) e'(2) x(2)] by simp
qed

subsection \<open>The emulation of a store\<close>

lemma store_env_of_ok:
  assumes "store_ok g64 cs_d ps rexo src am" "length (encode_store ps rexo src am) < 2 ^ 32"
    and "e_src e = operand_zero" "e_seg e = CPU_SEG_UNKNOWN" "e_postfix e = postfix_zero" "no_rep_lock e"
    and "rex_for (e_prefix e) (store_reg_field src) am" "get_address_size e = addr_size g64 cs_d ps"
  shows "store_env e (store_reg_field src) am (store_imm src)"
  using assms by (cases am) (auto simp: store_env_def store_ok_def insn_ok_def encode_store_def encode_insn_def addr_size_def split: if_splits)

text \<open>The environment in which \<open>x86_vmx_emulate_instruction\<close> starts to decode, up to the position in the instruction.\<close>

definition emu_start :: "vcpu \<Rightarrow> regs \<Rightarrow> 'x guestmem_hptw_ctx_pair \<Rightarrow> bool \<Rightarrow> bool \<Rightarrow> 'x emu_env" where
  "emu_start v r pair g64 cs_d = \<lparr>e_vcpu = v, e_r = r, e_ctx_pair = pair, e_g64 = g64, e_cs_d = cs_d, e_pinst = [], e_pinst_len = 0,
     e_src = operand_zero, e_dst = operand_zero, e_prefix = prefix_init, e_postfix = postfix_zero,
     e_seg = CPU_SEG_UNKNOWN, e_displacement_len = 0, e_immediate_len = 0\<rparr>"

lemma emulate_start:
  assumes "guestmem_init c v = Some pair" "VCPU_g64 v = Some g64" "cs_d \<longleftrightarrow> guest_CS_access_rights (vmcs v) AND push_bit 14 1 \<noteq> 0"
    and "code \<noteq> []" "length code < 2 ^ 32"
  shows "x86_vmx_emulate_instruction xmm0 loc c v r e0 (code @ rest) (of_nat (length code)) s =
    do { e \<leftarrow> parse_prefix (before code rest (emu_start v r pair g64 cs_d)); parse_opcode_one xmm0 loc e s }"
  using assms of_nat_length_32(3) [OF assms(5)] by (simp add: x86_vmx_emulate_instruction_def before_def emu_start_def)

lemma emulate_store:
  fixes s :: "'x eptlock_scheme" and e0 :: "'x emu_env" and rest xmm0 :: "u8 list" and loc :: u64 and r :: regs
  assumes ok: "store_ok g64 cs_d ps rexo src am" and len: "length (encode_store ps rexo src am) < 2 ^ 32"
    and v: "guestmem_init c v = Some (pair :: 'x guestmem_hptw_ctx_pair)" "VCPU_g64 v = Some g64"
      "cs_d \<longleftrightarrow> guest_CS_access_rights (vmcs v) AND push_bit 14 1 \<noteq> 0"
  defines "n \<equiv> op_size g64 cs_d ps rexo"
    and "res \<equiv> x86_vmx_emulate_instruction xmm0 loc c v r e0 (encode_store ps rexo src am @ rest)
      (of_nat (length (encode_store ps rexo src am))) s"
  shows "case dst_of v r (addr_size g64 cs_d ps) (seg_override ps) am n operand_zero of None \<Rightarrow> res = None
    | Some d \<Rightarrow> \<exists>st. res = Some (OK (), st, s) \<and> store_result v r st n (store_value v r src) d"
proof -
  let ?code = "encode_store ps rexo src am" and ?bs = "encode_modrm (store_reg_field src) am @ store_imm src"
  define e where "e = emu_start v r pair g64 cs_d"
  have start: "res = do { e \<leftarrow> parse_prefix (before ?code rest e); parse_opcode_one xmm0 loc e s }"
    unfolding res_def e_def by (rule emulate_start [OF v _ len]) (simp add: encode_store_def encode_insn_def)
  have opc: "store_opcode src \<notin> set legacy_bytes" "store_opcode src AND 0xf0 \<noteq> 0x40"
    by (cases src; simp add: legacy_bytes_def)+
  have "insn_ok g64 cs_d ps rexo (store_reg_field src) am" using ok by (simp add: store_ok_def)
  from insn_prefixes [OF this _ _ _ opc len [unfolded encode_store_def], of e rest]
  obtain p where p: "parse_prefix (before ?code rest e) = Some (before (store_opcode src # ?bs) rest (e\<lparr>e_prefix := p\<rparr>))"
      "rex_for p (store_reg_field src) am" "p_seg p = seg_override ps" "no_rep_lock (e\<lparr>e_prefix := p\<rparr>)"
      "get_operand_size (e\<lparr>e_prefix := p\<rparr>) = n" "get_address_size (e\<lparr>e_prefix := p\<rparr>) = addr_size g64 cs_d ps"
    by (auto simp: e_def emu_start_def n_def encode_store_def)
  let ?e = "e\<lparr>e_prefix := p\<rparr>"
  have "length (store_opcode src # ?bs) < 2 ^ 32" using len by (simp add: encode_store_def encode_insn_def)
  then have l: "(0 :: u32) < of_nat (length (store_opcode src # ?bs))" using of_nat_length_32(1) by blast
  have env: "store_env ?e (store_reg_field src) am (store_imm src)"
    by (rule store_env_of_ok [OF ok len]) (use p in \<open>simp_all add: e_def emu_start_def\<close>)
  have "store_done ?e am s (parse_opcode_one xmm0 loc (before (store_opcode src # ?bs) rest ?e) s) (store_value v r src)"
  proof (cases src)
    case (From_Reg reg)
    then show ?thesis using emu_89_store [of ?e reg am s rest] env l by (simp add: parse_opcode_one_def store_value_def e_def emu_start_def del: of_nat_Suc)
  next
    case (From_Imm i)
    then have "length i = unat (min n 4)" using ok by (simp add: store_ok_def n_def)
    then show ?thesis using From_Imm emu_c7_store [of ?e am i s rest] env l p(5)
      by (simp add: parse_opcode_one_def store_value_def e_def emu_start_def del: of_nat_Suc)
  qed
  moreover have "res = parse_opcode_one xmm0 loc (before (store_opcode src # ?bs) rest ?e) s" using start p(1) by simp
  moreover have "e_vcpu e = v" "e_r e = r" "e_dst e = operand_zero" by (simp_all add: e_def emu_start_def)
  ultimately show ?thesis by (simp add: store_done_def p(3,5,6) cong: option.case_cong)
qed

end
