(* ===== verification/EmuFrame.thy ===== *)
theory EmuFrame
  imports EmuDecode
begin

unbundle bit_operations_syntax

text \<open>
  What the emulator does for arbitrary instruction bytes: the operands it describes are well typed, and it changes nothing but its own
  environment, the carry flag and a local variable.
\<close>

subsection \<open>What an emulation leaves alone\<close>

text \<open>A copy from guest memory changes nothing outside its destination, whatever the tables hold.\<close>

context walk_env
begin

lemma copy_from_va_frame:
  assumes "hptw_copy_from_va_loop ctx s cpl dst src len copied = Some (r, s')" "copied \<le> len"
  shows "\<forall>x. x \<notin> buffer dst len \<longrightarrow> mem s' x = mem s x"
  using assms
proof (induction "unat (len - copied)" arbitrary: s copied rule: less_induct)
  case less
  show ?case
  proof (cases "copied < len")
    case True
    then show ?thesis
    proof (rule access_step [of copied len s HPT_PROTS_R cpl "src + copied"])
      fix p a assume p: "hptw_checked_access_va ctx s HPT_PROTS_R cpl (src + copied) (len - copied) = Some (p, a)"
        "p \<noteq> 0" and le: "copied + a \<le> len" and lt: "unat (len - (copied + a)) < unat (len - copied)"
      have a: "a \<le> len - copied" using checked_access_va_total [of s HPT_PROTS_R cpl "src + copied" "len - copied"] p(1) by auto
      let ?s = "s\<lparr>mem := memcpy (mem s) (dst + copied) p a\<rparr>"
      have "hptw_copy_from_va_loop ctx ?s cpl dst src len (copied + a) = Some (r, s')"
        using less.prems(1) p True by (subst (asm) hptw_copy_from_va_loop.simps) simp
      then have "\<forall>x. x \<notin> buffer dst len \<longrightarrow> mem s' x = mem ?s x" using less.hyps [OF lt _ le] by blast
      moreover have "mem ?s x = mem s x" if "x \<notin> buffer dst len" for x
      proof -
        have "len \<le> x - dst" using that by (simp add: buffer_def not_less)
        then have "\<not> x - dst - copied < a" by (rule chunk_arith(4) [OF less.prems(2) a])
        then show ?thesis by (simp add: memcpy_def diff_diff_eq)
      qed
      ultimately show ?thesis by simp
    qed (use less.prems(1) True in \<open>subst (asm) hptw_copy_from_va_loop.simps, simp\<close>)
  next
    case False
    then show ?thesis using less.prems(1) by (subst (asm) hptw_copy_from_va_loop.simps) simp
  qed
qed

end

lemma guestmem_copy_gv2h_frame:
  fixes s :: "'x eptlock_scheme"
  assumes "guestmem_init c v = Some (pair :: 'x guestmem_hptw_ctx_pair)" "guestmem_copy_gv2h pair s cpl dst src len = Some s'"
  shows "s' = s\<lparr>mem := mem s'\<rparr>" "x \<notin> buffer dst len \<Longrightarrow> mem s' x = mem s x"
proof -
  obtain r t g where h: "guest_ctx pair = guestmem_guest_ctx r t g" "t \<noteq> HPT_TYPE_INVALID" and c: "pair_vcpu pair = c"
    using guestmem_init_SomeD [OF assms(1)] by blast
  have w: "walk_env (guest_ctx pair)"
    unfolding h(1) using guest_linear_env [OF h(2)] by (rule linear_env.axioms(1))
  have l: "\<not> vmx_eptlock_reading s c" "\<not> g_eptlock_write_pending s"
    using assms(2) c by (auto simp: guestmem_copy_gv2h_def memprot_x86vmx_eptlock_read_lock_def split: if_splits)
  obtain ret m' where op: "hptw_checked_copy_from_va (guest_ctx pair) (read_locked c s) cpl dst src len =
      Some (ret, (read_locked c s)\<lparr>mem := m'\<rparr>)"
    using walk_env.copy_from_va_total [OF w, of "read_locked c s" cpl dst src len 0] by (auto simp: hptw_checked_copy_from_va_def)
  have s': "s' = s\<lparr>mem := m'\<rparr>"
    using assms(2) locked_op [OF l, of "\<lambda>s. hptw_checked_copy_from_va (guest_ctx pair) s cpl dst src len" ret m', OF op]
    by (simp add: guestmem_copy_gv2h_def c split: if_splits)
  then show "s' = s\<lparr>mem := mem s'\<rparr>" by simp
  have "\<forall>x. x \<notin> buffer dst len \<longrightarrow> m' x = mem s x"
    using walk_env.copy_from_va_frame [OF w op [unfolded hptw_checked_copy_from_va_def]] by simp
  then show "x \<notin> buffer dst len \<Longrightarrow> mem s' x = mem s x" using s' by simp
qed

text \<open>A read by the emulator changes nothing but its buffer, unless it fails: then it keeps the lock.\<close>

lemma access_loop_read:
  assumes "access_memory_gv_loop v pair env lin buf s copied = Some y"
  shows "ma_mode env = HPT_PROT_READ_MASK \<longrightarrow> snd (snd y) = s \<and> length (fst (snd y)) = length buf"
proof (rule access_memory_gv_loop.raw_induct [OF _ assms, where P = "\<lambda>v pair env lin buf s copied y.
    ma_mode env = HPT_PROT_READ_MASK \<longrightarrow> snd (snd y) = s \<and> length (fst (snd y)) = length buf"], intro impI)
  fix loop v and pair :: "'x guestmem_hptw_ctx_pair" and env lin buf s copied y
  assume IH: "\<And>v (pair :: 'x guestmem_hptw_ctx_pair) env lin buf s copied y. loop v pair env lin buf s copied = Some y \<Longrightarrow>
      ma_mode env = HPT_PROT_READ_MASK \<longrightarrow> snd (snd y) = s \<and> length (fst (snd y)) = length buf"
    and body: "(if copied < ma_size env then do {
        (hva, sz) \<leftarrow> access_gva v pair env s (lin + copied) (ma_size env - copied);
        if hva = 0 then Some (ERR, buf, s)
        else do {
          assert_c (unat copied + unat sz \<le> length buf);
          if ma_mode env AND HPT_PROT_WRITE_MASK \<noteq> 0
          then loop v pair env lin buf (s\<lparr>mem := write_bytes (mem s) hva (take (unat sz) (drop (unat copied) buf))\<rparr>) (copied + sz)
          else loop v pair env lin (overlay buf (unat copied) (read_bytes (mem s) hva (unat sz))) s (copied + sz)
        }
      }
      else Some (OK (), buf, s)) = Some y"
    and m: "ma_mode env = HPT_PROT_READ_MASK"
  show "snd (snd y) = s \<and> length (fst (snd y)) = length buf"
  proof (cases "copied < ma_size env")
    case True
    then obtain hva sz where "access_gva v pair env s (lin + copied) (ma_size env - copied) = Some (hva, sz)"
      using body by (auto simp: bind_eq_Some_conv)
    then have "y = (ERR, buf, s) \<or> unat copied + unat sz \<le> length buf
        \<and> loop v pair env lin (overlay buf (unat copied) (read_bytes (mem s) hva (unat sz))) s (copied + sz) = Some y"
      using body True m by (cases "hva = 0") auto
    then show ?thesis using IH m by (fastforce simp: overlay_def read_bytes_def)
  qed (use body in auto)
qed

lemma access_memory_read:
  assumes "access_memory_gv v pair env s = Some (ret, buf, s')" "ma_mode env = HPT_PROT_READ_MASK"
  shows "length buf = length (ma_hvaddr env)" "ret = OK () \<Longrightarrow> s' = s"
    "s' = s\<lparr>vmx_eptlock_reading := (vmx_eptlock_reading s)(pair_vcpu pair := ret = ERR)\<rparr>"
proof -
  let ?c = "pair_vcpu pair"
  have l: "\<not> vmx_eptlock_reading s ?c" "\<not> g_eptlock_write_pending s"
    using assms(1) by (auto simp: access_memory_gv_def memprot_x86vmx_eptlock_read_lock_def split: if_splits)
  obtain lin r b s1 where x: "access_memory_gv_loop v pair env lin (ma_hvaddr env) (read_locked ?c s) 0 = Some (r, b, s1)"
      "(case r of ERR \<Rightarrow> Some (ERR, b, s1)
        | OK _ \<Rightarrow> do { s1 \<leftarrow> memprot_x86vmx_eptlock_read_unlock ?c s1; Some (OK (), b, s1) }) = Some (ret, buf, s')"
    using assms(1) l by (auto simp: access_memory_gv_def read_lock_free bind_eq_Some_conv)
  then have "access_memory_gv_loop v pair env lin (ma_hvaddr env) (read_locked ?c s) 0 = Some (ret, buf, s1)"
      "s' = (case ret of ERR \<Rightarrow> s1 | OK _ \<Rightarrow> s1\<lparr>vmx_eptlock_reading := (vmx_eptlock_reading s1)(?c := False)\<rparr>)"
    by (cases r; auto simp: bind_eq_Some_conv memprot_x86vmx_eptlock_read_unlock_def)+
  moreover from this have "s1 = read_locked ?c s" "length buf = length (ma_hvaddr env)"
    using access_loop_read assms(2) by fastforce+
  ultimately show "length buf = length (ma_hvaddr env)" "ret = OK () \<Longrightarrow> s' = s"
    "s' = s\<lparr>vmx_eptlock_reading := (vmx_eptlock_reading s)(?c := ret = ERR)\<rparr>"
    using l by (cases ret; simp add: fun_upd_idem)+
qed

text \<open>Decoding changes the decoder state only.\<close>

definition kept :: "'x emu_env \<Rightarrow> 'x emu_env \<Rightarrow> bool" where
  "kept e e' \<longleftrightarrow> e_vcpu e' = e_vcpu e \<and> e_r e' = e_r e \<and> e_ctx_pair e' = e_ctx_pair e \<and> e_src e' = e_src e \<and> e_dst e' = e_dst e"

lemma kept_refl [simp]: "kept e e"
  by (simp add: kept_def)

lemma kept_trans: "kept e e' \<Longrightarrow> kept e' e'' \<Longrightarrow> kept e e''"
  by (simp add: kept_def)

lemma kept_simps [simp]:
  "kept e (advance n e') \<longleftrightarrow> kept e e'" "kept (advance n e) e' \<longleftrightarrow> kept e e'"
  "kept e (e'\<lparr>e_prefix := p\<rparr>) \<longleftrightarrow> kept e e'" "kept (e\<lparr>e_prefix := p\<rparr>) e' \<longleftrightarrow> kept e e'"
  "kept e (e'\<lparr>e_postfix := q\<rparr>) \<longleftrightarrow> kept e e'" "kept (e\<lparr>e_postfix := q\<rparr>) e' \<longleftrightarrow> kept e e'"
  "kept e (e'\<lparr>e_seg := sg\<rparr>) \<longleftrightarrow> kept e e'"
  "kept e (e'\<lparr>e_displacement_len := n\<rparr>) \<longleftrightarrow> kept e e'" "kept e (e'\<lparr>e_immediate_len := n\<rparr>) \<longleftrightarrow> kept e e'"
  by (simp_all add: kept_def advance_def)

lemma parse_legacy_kept: "parse_legacy_prefixes e = Some e' \<Longrightarrow> kept e e'"
proof (induction e rule: parse_legacy_prefixes.induct)
  case (1 e)
  then obtain b where b: "0 < e_pinst_len e" "pinst_at e 0 = Some b" by (auto simp: parse_legacy_prefixes.simps [of e] bind_eq_Some_conv)
  show ?case
  proof (cases "legacy_prefix b (e_prefix e)")
    case None
    then show ?thesis using 1(2) b by (simp add: parse_legacy_prefixes.simps [of e])
  next
    case (Some p)
    then have "parse_legacy_prefixes (advance 1 (e\<lparr>e_prefix := p\<rparr>)) = Some e'"
      using 1(2) b by (simp add: parse_legacy_prefixes.simps [of e])
    then show ?thesis using 1(1) b Some by auto
  qed
qed

lemma parse_prefix_kept: "parse_prefix e = Some e' \<Longrightarrow> kept e e'"
  by (auto simp: parse_prefix_def bind_eq_Some_conv dest!: parse_legacy_kept split: if_splits)

lemma parse_modrm_kept: "parse_modrm e h d = Some (e', h', d') \<Longrightarrow> kept e e'"
  by (auto simp: parse_modrm_def bind_eq_Some_conv split: if_splits)

lemma parse_sib_kept: "parse_sib e d = Some (e', d') \<Longrightarrow> kept e e'"
  by (auto simp: parse_sib_def bind_eq_Some_conv split: if_splits)

lemma parse_postfix_kept:
  assumes "parse_postfix e m h d i = Some e'"
  shows "kept e e'"
proof -
  obtain e1 h1 d1 where 1: "(if m then parse_modrm e h d else Some (e, h, d)) = Some (e1, h1, d1)"
    using assms by (auto simp: parse_postfix_def bind_eq_Some_conv)
  obtain e2 d2 where 2: "(if h1 then parse_sib e1 d1 else Some (e1, d1)) = Some (e2, d2)"
    using assms 1 by (auto simp: parse_postfix_def bind_eq_Some_conv)
  have "kept e e1" "kept e1 e2" using 1 2 parse_modrm_kept parse_sib_kept by (auto split: if_splits)
  moreover have "kept e2 e'" using assms 1 2 by (auto simp: parse_postfix_def bind_eq_Some_conv split: if_splits)
  ultimately show ?thesis by (blast intro: kept_trans)
qed

lemma compute_segment_kept: "compute_segment e i = Some e' \<Longrightarrow> kept e e'"
  by (auto simp: compute_segment_def split: if_splits)

lemma get_reg_ptr_set: "get_reg_ptr i sz = Some sel \<Longrightarrow> sel \<in> set reg_sels"
  by (auto simp: get_reg_ptr_def reg_sels_def split: if_splits)

lemma eval_sib_addr_kept: "eval_sib_addr e = Some (a, e') \<Longrightarrow> kept e e'"
  by (auto simp: eval_sib_addr_def Let_def bind_eq_Some_conv dest!: compute_segment_kept split: if_splits)

lemma eval_modrm_addr_kept:
  assumes "eval_modrm_addr e = Some (place, e')"
  shows "kept e e'" "place = In_Register sel \<Longrightarrow> sel \<in> set reg_sels"
  using assms by (auto simp: eval_modrm_addr_def Let_def bind_eq_Some_conv get_reg_ptr_set
      dest!: compute_segment_kept eval_sib_addr_kept split: if_splits)

subsection \<open>Operands\<close>

definition src_typed :: "operand \<Rightarrow> bool" where
  "src_typed oper \<longleftrightarrow> operand_size oper \<in> {1, 2, 4, 8, 16} \<and> length (op_val oper) = OPERAND_VAL_LENGTH"

definition dst_typed :: "operand \<Rightarrow> u64 \<Rightarrow> bool" where
  "dst_typed oper n \<longleftrightarrow> oper = operand_zero \<or> operand_size oper = n \<and> n \<in> {2, 4, 8}
     \<and> (op_type oper = OPERAND_MEM \<or> op_type oper = OPERAND_REG \<and> (\<exists>sel \<in> set reg_sels. reg_hvaddr oper = Some sel))"

lemma eval_operand_typed:
  assumes "eval_operand_value e oper s = Some (OK (), oper', s')" "length (op_val oper) = OPERAND_VAL_LENGTH"
    and "unat (operand_size oper) \<le> OPERAND_VAL_LENGTH"
  shows "s' = s" "oper' = oper\<lparr>op_val := op_val oper'\<rparr>" "length (op_val oper') = OPERAND_VAL_LENGTH"
proof -
  have "s' = s \<and> oper' = oper\<lparr>op_val := op_val oper'\<rparr> \<and> length (op_val oper') = OPERAND_VAL_LENGTH"
  proof (cases "op_type oper")
    case OPERAND_MEM
    then obtain env where "access_memory_gv (e_vcpu e) (e_ctx_pair e) env s = Some (OK (), op_val oper', s')"
        "ma_mode env = HPT_PROT_READ_MASK" "ma_hvaddr env = op_val oper" "oper' = oper\<lparr>op_val := op_val oper'\<rparr>"
      using assms(1) by (auto simp: eval_operand_value_def bind_eq_Some_conv split: prod.splits)
    then show ?thesis using access_memory_read [of "e_vcpu e" "e_ctx_pair e" env s "OK ()" "op_val oper'" s'] assms(2) by simp
  qed (use assms in \<open>auto simp: eval_operand_value_def bind_eq_Some_conv overlay_def fetch_def split: if_splits\<close>)
  then show "s' = s" "oper' = oper\<lparr>op_val := op_val oper'\<rparr>" "length (op_val oper') = OPERAND_VAL_LENGTH" by simp_all
qed

text \<open>The result of a successful emulation, started in \<open>e\<close>.\<close>

definition emu_typed :: "u64 \<Rightarrow> 'x emu_env \<Rightarrow> 'x eptlock_scheme \<Rightarrow> 'x emu_env \<Rightarrow> 'x eptlock_scheme \<Rightarrow> bool" where
  "emu_typed loc e s st s' \<longleftrightarrow> src_typed (e_src st) \<and> dst_typed (e_dst st) (operand_size (e_src st)) \<and> e_r st = e_r e
     \<and> (e_vcpu st = e_vcpu e \<or> e_vcpu st = set_carry False (e_vcpu e))
     \<and> s' = s\<lparr>mem := mem s'\<rparr> \<and> (\<forall>a. a \<notin> buffer loc 4 \<longrightarrow> mem s' a = mem s a)"

definition fresh :: "'x emu_env \<Rightarrow> bool" where
  "fresh e \<longleftrightarrow> e_src e = operand_zero \<and> e_dst e = operand_zero"

lemma fresh_kept: "kept e e' \<Longrightarrow> fresh e \<Longrightarrow> fresh e'"
  by (simp add: kept_def fresh_def)

subsection \<open>The branches of the decoder\<close>

lemma op_val_zero [simp]: "length (op_val operand_zero) = OPERAND_VAL_LENGTH"
  by (simp add: operand_zero_def)

lemma size_cases_le: "n = 2 \<or> n = 4 \<or> n = (8 :: u64) \<Longrightarrow> unat n \<le> OPERAND_VAL_LENGTH"
  by auto

lemma emu_typed_kept: "emu_typed loc e' s st s' \<Longrightarrow> kept e e' \<Longrightarrow> emu_typed loc e s st s'"
  by (simp add: emu_typed_def kept_def)

lemma xmm_typed:
  assumes "emu_0f_11 xmm0 e = (OK (), st) \<or> emu_0f_29 xmm0 e = (OK (), st) \<or> emu_0f_7f xmm0 e = (OK (), st)"
    and "fresh e" "length xmm0 = 16"
  shows "emu_typed loc e s st s"
proof -
  have "st = store_xmm0 xmm0 e"
    using assms(1) by (auto simp: emu_0f_11_def emu_0f_29_def emu_0f_7f_def split: if_splits)
  then show ?thesis using assms(2,3)
    by (simp add: emu_typed_def fresh_def store_xmm0_def src_typed_def dst_typed_def overlay_def)
qed

lemma set_modrm_dst_typed:
  assumes "set_modrm_dst n hv e = Some e'" "n = 2 \<or> n = 4 \<or> n = 8"
  shows "e_vcpu e' = e_vcpu e" "e_r e' = e_r e" "e_src e' = e_src e" "dst_typed (e_dst e') n"
proof -
  obtain place e1 where 1: "eval_modrm_addr e = Some (place, e1)"
    using assms(1) by (auto simp: set_modrm_dst_def bind_eq_Some_conv)
  note k = eval_modrm_addr_kept [OF 1]
  show "e_vcpu e' = e_vcpu e" "e_r e' = e_r e" "e_src e' = e_src e" "dst_typed (e_dst e') n"
    using assms 1 k by (cases place; auto simp: set_modrm_dst_def bind_eq_Some_conv kept_def dst_typed_def)+
qed

lemma operand_eq_size: "oper' = oper\<lparr>op_val := x\<rparr> \<Longrightarrow> operand_size oper' = operand_size oper"
  by simp

lemma emu_0f_ba_memory_typed:
  assumes "emu_0f_ba_memory n bitno value a e s = Some (OK (), st, s')" "e_src e = operand_zero" "n = 2 \<or> n = 4 \<or> n = 8"
  shows "s' = s" "e_r st = e_r e" "e_vcpu st = set_carry (drop_bit bitno value AND 1 \<noteq> 0) (e_vcpu e)" "operand_size (e_src st) = n"
    "\<exists>x. bit_op (modrm_regop (e_postfix e)) bitno value = Some x \<and> take 8 (op_val (e_src st)) = le_bytes 8 x"
    "length (op_val (e_src st)) = OPERAND_VAL_LENGTH" "dst_typed (e_dst st) n"
proof -
  obtain gva where g: "eval_guest_memory_gvaddr (e_vcpu e) \<lparr>ma_hvaddr = le_bytes 8 value, ma_gaddr = a, ma_seg = e_seg e, ma_size = n,
      ma_mode = HPT_PROT_READ_MASK, ma_cpl = emu_cpl e\<rparr> a = Some gva"
    using assms(1) by (auto simp: emu_0f_ba_memory_def bind_eq_Some_conv)
  let ?src = "operand_zero\<lparr>op_type := OPERAND_MEM, operand_size := n, mem_seg := e_seg e, mem_offset := a, mem_gvaddr := gva\<rparr>"
  obtain ret src s1 where 3: "eval_operand_value (e\<lparr>e_src := ?src\<rparr>) ?src s = Some (ret, src, s1)"
    using assms(1,2) g by (auto simp: emu_0f_ba_memory_def bind_eq_Some_conv)
  have r: "ret = OK ()" and st: "s' = s1" "e_r st = e_r e" "e_vcpu st = set_carry (drop_bit bitno value AND 1 \<noteq> 0) (e_vcpu e)"
      "\<exists>x. bit_op (modrm_regop (e_postfix e)) bitno value = Some x \<and> e_src st = src\<lparr>op_val := overlay (op_val src) 0 (le_bytes 8 x)\<rparr>"
      "op_type (e_dst st) = OPERAND_MEM" "operand_size (e_dst st) = n"
    using assms(1,2) g 3 by (cases ret; auto simp: emu_0f_ba_memory_def bind_eq_Some_conv)+
  have t: "s1 = s" "operand_size src = n" "length (op_val src) = OPERAND_VAL_LENGTH"
    using eval_operand_typed [OF 3 [unfolded r]] operand_eq_size [of src "op_val src" ?src] size_cases_le [OF assms(3)] by simp_all
  show "s' = s" "e_r st = e_r e" "e_vcpu st = set_carry (drop_bit bitno value AND 1 \<noteq> 0) (e_vcpu e)"
    using st t by simp_all
  show "operand_size (e_src st) = n"
    "\<exists>x. bit_op (modrm_regop (e_postfix e)) bitno value = Some x \<and> take 8 (op_val (e_src st)) = le_bytes 8 x"
    "length (op_val (e_src st)) = OPERAND_VAL_LENGTH"
    using st(4) t by (auto simp: overlay_def)
  show "dst_typed (e_dst st) n" using st(5,6) assms(3) by (simp add: dst_typed_def)
qed

lemma emu_0f_ba_SomeD:
  assumes "emu_0f_ba e s = Some (OK (), st, s')" "fresh e"
  obtains e1 n bitno a where "emu_0f_ba_memory n bitno 0 a e1 s = Some (OK (), st, s')" "kept e e1" "n = 2 \<or> n = 4 \<or> n = 8"
    "e_src e1 = operand_zero"
proof -
  let ?e = "e\<lparr>e_prefix := (e_prefix e)\<lparr>p_lock := True\<rparr>\<rparr>"
  obtain e1 imm place e2 where 1: "parse_postfix ?e True False 0 1 = Some e1" "fetch 1 (immediate (e_postfix e1)) = Some imm"
      "eval_modrm_addr e1 = Some (place, e2)"
    using assms(1) by (auto simp: emu_0f_ba_def bind_eq_Some_conv)
  have k: "kept e e2" using parse_postfix_kept [OF 1(1)] eval_modrm_addr_kept(1) [OF 1(3)] kept_trans by auto
  moreover have "e_src e2 = operand_zero" using k assms(2) by (simp add: kept_def fresh_def)
  ultimately show thesis
    using that assms(1) 1 operand_size_cases [of e1] by (cases place) (auto simp: emu_0f_ba_def)
qed

lemma emu_0f_ba_typed:
  assumes "emu_0f_ba e s = Some (OK (), st, s')" "fresh e"
  shows "emu_typed loc e s st s'"
proof -
  obtain e1 n bitno a where 1: "emu_0f_ba_memory n bitno 0 a e1 s = Some (OK (), st, s')" "kept e e1" "n = 2 \<or> n = 4 \<or> n = 8"
      "e_src e1 = operand_zero"
    by (rule emu_0f_ba_SomeD [OF assms])
  show ?thesis using emu_0f_ba_memory_typed [OF 1(1,4,3)] 1(2,3)
    by (auto simp: emu_typed_def kept_def src_typed_def)
qed

lemma emu_83_typed:
  assumes "emu_83 loc e s = Some (OK (), st, s')" "fresh e"
  shows "emu_typed loc e s st s'"
proof -
  obtain pair s1 ax where 1: "guestmem_init (pair_vcpu (e_ctx_pair e)) (e_vcpu e) = Some (pair :: 'a guestmem_hptw_ctx_pair)"
      "guestmem_copy_gv2h pair (s\<lparr>mem := store_le (mem s) loc 4 0\<rparr>) HPTW_CPL0 loc (ax + 0xc) 4 = Some s1"
      "s' = s1\<lparr>mem := store_le (mem s1) loc 4 (load_le (mem s1) loc 4 XOR 1)\<rparr>"
      "operand_size (e_src st) = 4" "length (op_val (e_src st)) = OPERAND_VAL_LENGTH" "e_dst st = e_dst e" "e_r st = e_r e" "e_vcpu st = e_vcpu e"
    using assms by (auto simp: emu_83_def bind_eq_Some_conv fresh_def overlay_def split: if_splits)
  have "store_le m loc 4 x a = m a" if "a \<notin> buffer loc 4" for m x a
    using that by (simp add: store_le_apply buffer_def)
  moreover obtain ms where "s1 = s\<lparr>mem := ms\<rparr>" using guestmem_copy_gv2h_frame(1) [OF 1(1,2)] by simp
  ultimately show ?thesis using 1 guestmem_copy_gv2h_frame(2) [OF 1(1,2)] assms(2)
    by (auto simp: emu_typed_def src_typed_def dst_typed_def fresh_def)
qed


lemma emu_88_typed:
  assumes "emu_88 e = Some (OK (), st)" "fresh e"
  shows "emu_typed loc e s st s"
  using assms by (auto simp: emu_88_def bind_eq_Some_conv emu_typed_def src_typed_def dst_typed_def fresh_def overlay_def split: if_splits)

text \<open>A source operand that was evaluated, and then the destination of a MOV.\<close>

lemma mov_store_typed:
  assumes "eval_operand_value e1 src s = Some (OK (), src', s')" "length (op_val src) = OPERAND_VAL_LENGTH"
    and "operand_size src = n" "n = 2 \<or> n = 4 \<or> n = 8"
  shows "s' = s" "src_typed src'" "operand_size src' = n"
proof -
  note t = eval_operand_typed [OF assms(1,2)] operand_eq_size [of src' "op_val src'" src]
  show "s' = s" "src_typed src'" "operand_size src' = n"
    using t size_cases_le [OF assms(4)] assms(3,4) by (auto simp: src_typed_def)
qed

lemma emu_89_typed:
  assumes "emu_89 e s = Some (OK (), st, s')" "fresh e"
  shows "emu_typed loc e s st s'"
proof -
  obtain e1 reg where 1: "parse_postfix e True False 0 0 = Some e1" "eval_modrm_reg e1 = Some reg"
    using assms(1) by (auto simp: emu_89_def bind_eq_Some_conv)
  let ?n = "get_operand_size e1"
  let ?src = "(e_src e1)\<lparr>op_type := OPERAND_REG, reg_hvaddr := Some reg, operand_size := ?n\<rparr>"
  obtain ret src s1 where 2: "eval_operand_value (e1\<lparr>e_src := ?src\<rparr>) ?src s = Some (ret, src, s1)"
    using assms(1) 1 by (auto simp: emu_89_def bind_eq_Some_conv)
  have r: "ret = OK ()" and d: "s' = s1" "set_modrm_dst ?n (op_val src) (e1\<lparr>e_src := src\<rparr>) = Some st"
    using assms(1) 1 2 by (cases ret; auto simp: emu_89_def bind_eq_Some_conv)+
  have k: "kept e e1" by (rule parse_postfix_kept [OF 1(1)])
  then have "length (op_val ?src) = OPERAND_VAL_LENGTH" using assms(2) by (simp add: kept_def fresh_def)
  note t = mov_store_typed [OF 2 [unfolded r] this _ operand_size_cases [of e1]] set_modrm_dst_typed [OF d(2) operand_size_cases [of e1]]
  then show ?thesis using k d(1) by (simp add: emu_typed_def kept_def)
qed

lemma emu_c7_typed:
  assumes "emu_c7 e s = Some (OK (), st, s')" "fresh e"
  shows "emu_typed loc e s st s'"
proof -
  let ?n = "get_operand_size e"
  obtain e1 where 1: "parse_postfix e True False 0 (min ?n 4) = Some e1"
    using assms(1) by (auto simp: emu_c7_def bind_eq_Some_conv)
  let ?src = "(e_src e1)\<lparr>op_type := OPERAND_IMM, operand_size := ?n\<rparr>"
  obtain ret src s1 where 2: "eval_operand_value (e1\<lparr>e_src := ?src\<rparr>) ?src s = Some (ret, src, s1)"
    using assms(1) 1 by (auto simp: emu_c7_def bind_eq_Some_conv)
  have r: "ret = OK ()" and d: "s' = s1" "set_modrm_dst ?n [] (e1\<lparr>e_src := src\<rparr>) = Some st"
    using assms(1) 1 2 by (cases ret; auto simp: emu_c7_def bind_eq_Some_conv)+
  have k: "kept e e1" by (rule parse_postfix_kept [OF 1])
  then have "length (op_val ?src) = OPERAND_VAL_LENGTH" using assms(2) by (simp add: kept_def fresh_def)
  note t = mov_store_typed [OF 2 [unfolded r] this _ operand_size_cases [of e]] set_modrm_dst_typed [OF d(2) operand_size_cases [of e]]
  then show ?thesis using k d(1) by (simp add: emu_typed_def kept_def)
qed

lemma emu_8b_typed:
  assumes "emu_8b e s = Some (OK (), st, s')" "fresh e"
  shows "emu_typed loc e s st s'"
proof -
  obtain e1 reg where 1: "parse_postfix e True False 0 0 = Some e1" "eval_modrm_reg e1 = Some reg"
    using assms(1) by (auto simp: emu_8b_def bind_eq_Some_conv)
  let ?n = "get_operand_size e1"
  let ?e1 = "e1\<lparr>e_dst := (e_dst e1)\<lparr>op_type := OPERAND_REG, operand_size := ?n, reg_hvaddr := Some reg\<rparr>\<rparr>"
  obtain place e2 where 2: "eval_modrm_addr ?e1 = Some (place, e2)"
    using assms(1) 1 by (auto simp: emu_8b_def bind_eq_Some_conv)
  have "\<exists>x src. eval_operand_value (e2\<lparr>e_src := x\<rparr>) x s = Some (OK (), src, s') \<and> st = e2\<lparr>e_src := src\<rparr>
      \<and> operand_size x = ?n \<and> op_val x = op_val (e_src e2)"
  proof (cases place)
    case (In_Memory a)
    then obtain gva src where "eval_operand_value (e2\<lparr>e_src := (e_src e2)\<lparr>op_type := OPERAND_MEM, operand_size := ?n, mem_seg := e_seg e2,
        mem_offset := a, mem_gvaddr := gva\<rparr>\<rparr>) ((e_src e2)\<lparr>op_type := OPERAND_MEM, operand_size := ?n, mem_seg := e_seg e2,
        mem_offset := a, mem_gvaddr := gva\<rparr>) s = Some (OK (), src, s')" "st = e2\<lparr>e_src := src\<rparr>"
      using assms(1) 1 2 by (auto simp: emu_8b_def bind_eq_Some_conv)
    then show ?thesis by fastforce
  next
    case (In_Register sel)
    then obtain src where "eval_operand_value (e2\<lparr>e_src := (e_src e2)\<lparr>op_type := OPERAND_REG, operand_size := ?n, reg_hvaddr := Some sel\<rparr>\<rparr>)
        ((e_src e2)\<lparr>op_type := OPERAND_REG, operand_size := ?n, reg_hvaddr := Some sel\<rparr>) s = Some (OK (), src, s')" "st = e2\<lparr>e_src := src\<rparr>"
      using assms(1) 1 2 by (auto simp: emu_8b_def bind_eq_Some_conv)
    then show ?thesis by fastforce
  qed
  then obtain x src where 3: "eval_operand_value (e2\<lparr>e_src := x\<rparr>) x s = Some (OK (), src, s')" "st = e2\<lparr>e_src := src\<rparr>"
      "operand_size x = ?n" "op_val x = op_val (e_src e2)" by blast
  have n: "?n = 2 \<or> ?n = 4 \<or> ?n = 8" by (rule operand_size_cases)
  have k: "kept e e1" "kept ?e1 e2" using parse_postfix_kept [OF 1(1)] eval_modrm_addr_kept(1) [OF 2] by simp_all
  then have "length (op_val x) = OPERAND_VAL_LENGTH" using assms(2) 3(4) by (simp add: kept_def fresh_def)
  note t = mov_store_typed [OF 3(1) this 3(3) n]
  have "reg \<in> set reg_sels" using 1(2) get_reg_ptr_set by (simp add: eval_modrm_reg_def)
  then have "dst_typed (e_dst e2) ?n" using k n by (auto simp: kept_def dst_typed_def)
  then show ?thesis using t k 3(2) by (auto simp: emu_typed_def kept_def)
qed

lemma emu_a0_a3_typed:
  assumes "emu_a0_a3 opc e s = Some (OK (), st, s')" "fresh e"
  shows "emu_typed loc e s st s'"
proof -
  define n where "n = (if opc AND 1 \<noteq> 0 then get_operand_size e else 1)"
  obtain reg where 1: "get_reg_ptr REG_AX n = Some reg"
    using assms(1) by (auto simp: emu_a0_a3_def bind_eq_Some_conv n_def)
  have n: "n = 2 \<or> n = 4 \<or> n = 8"
    using 1 operand_size_cases [of e] by (auto simp: n_def get_reg_ptr_def split: if_splits)
  let ?src = "(e_src e)\<lparr>op_type := OPERAND_REG, operand_size := n, reg_hvaddr := Some reg\<rparr>"
  obtain ret src s1 where 2: "eval_operand_value (e\<lparr>e_src := ?src\<rparr>) ?src s = Some (ret, src, s1)"
    using assms(1) 1 by (auto simp: emu_a0_a3_def bind_eq_Some_conv n_def)
  have r: "ret = OK ()" using assms(1) 1 2 by (cases ret) (auto simp: emu_a0_a3_def n_def)
  obtain e1 where 3: "parse_postfix (e\<lparr>e_src := src\<rparr>) False False 0 (get_address_size e) = Some e1"
    using assms(1) 1 2 r by (auto simp: emu_a0_a3_def bind_eq_Some_conv n_def)
  obtain e2 where 4: "compute_segment e1 REG_AX = Some e2"
    using assms(1) 1 2 3 r by (auto simp: emu_a0_a3_def bind_eq_Some_conv n_def)
  have d: "s' = s1" "\<exists>d. st = e2\<lparr>e_dst := d\<rparr> \<and> op_type d = OPERAND_MEM \<and> operand_size d = n"
    using assms(1) 1 2 3 4 r by (auto simp: emu_a0_a3_def bind_eq_Some_conv n_def)
  have k: "kept (e\<lparr>e_src := src\<rparr>) e2" using parse_postfix_kept [OF 3] compute_segment_kept [OF 4] by (rule kept_trans)
  have "length (op_val ?src) = OPERAND_VAL_LENGTH" using assms(2) by (simp add: fresh_def)
  note t = mov_store_typed [OF 2 [unfolded r] this _ n]
  then show ?thesis using d k n by (auto simp: emu_typed_def kept_def dst_typed_def)
qed

lemma parse_opcode_one_typed:
  assumes "parse_opcode_one xmm0 loc e s = Some (OK (), st, s')" "fresh e" "length xmm0 = 16"
  shows "emu_typed loc e s st s'"
proof -
  obtain opc where opc: "pinst_at e 0 = Some opc" "0 < e_pinst_len e"
    using assms(1) by (auto simp: parse_opcode_one_def bind_eq_Some_conv)
  let ?e = "advance 1 e"
  have f: "fresh ?e" using assms(2) by (rule fresh_kept [rotated]) simp
  have "emu_typed loc ?e s st s'"
  proof (cases "opc = 0x0f")
    case True
    then have two: "parse_opcode_two_0f xmm0 ?e s = Some (OK (), st, s')" using assms(1) opc by (simp add: parse_opcode_one_def)
    obtain opc2 where opc2: "pinst_at ?e 0 = Some opc2" "0 < e_pinst_len ?e"
      using two by (auto simp: parse_opcode_two_0f_def bind_eq_Some_conv)
    have f2: "fresh (advance 1 ?e)" using f by (rule fresh_kept [rotated]) simp
    have "emu_typed loc (advance 1 ?e) s st s'"
      using two opc2 xmm_typed [OF _ f2 assms(3), of st loc s] emu_0f_ba_typed [OF _ f2, of s st s' loc]
      by (auto simp: parse_opcode_two_0f_def split: if_splits prod.splits)
    then show ?thesis by (rule emu_typed_kept) simp
  next
    case False
    then show ?thesis
      using assms(1) opc emu_83_typed [OF _ f, of loc s st s'] emu_88_typed [OF _ f, of st loc s] emu_89_typed [OF _ f, of s st s' loc]
        emu_8b_typed [OF _ f, of s st s' loc] emu_a0_a3_typed [OF _ f, of opc s st s' loc] emu_c7_typed [OF _ f, of s st s' loc]
      by (auto simp: parse_opcode_one_def bind_eq_Some_conv split: if_splits)
  qed
  then show ?thesis by (rule emu_typed_kept) simp
qed

text \<open>
  C16: the operands of every emulated instruction are well typed, and decoding has no side effect. Whatever the bytes of the instruction, when
  the emulation succeeds its source has 1, 2, 4, 8 or 16 bytes, and the destination is absent or a general register or memory operand
  of the same size, of 2, 4 or 8 bytes; the saved registers of the guest are as before, its control state too up to the carry flag, the lock is
  released, and memory changes only in the four bytes of the local variable.
\<close>

theorem emulate_operands_typed:
  assumes "x86_vmx_emulate_instruction xmm0 loc c v r e0 inst inst_len s = Some (OK (), st, s')" "length xmm0 = 16"
  shows "src_typed (e_src st) \<and> dst_typed (e_dst st) (operand_size (e_src st)) \<and> e_r st = r
    \<and> (e_vcpu st = v \<or> e_vcpu st = set_carry False v)
    \<and> s' = s\<lparr>mem := mem s'\<rparr> \<and> (\<forall>a. a \<notin> buffer loc 4 \<longrightarrow> mem s' a = mem s a)"
proof -
  obtain e1 e where 1: "parse_prefix e1 = Some e" "parse_opcode_one xmm0 loc e s = Some (OK (), st, s')" "fresh e1" "e_r e1 = r" "e_vcpu e1 = v"
    using assms(1) by (auto simp: x86_vmx_emulate_instruction_def bind_eq_Some_conv fresh_def split: if_splits)
  have k: "kept e1 e" by (rule parse_prefix_kept [OF 1(1)])
  then have "emu_typed loc e s st s'" using parse_opcode_one_typed [OF 1(2) fresh_kept [OF k 1(3)] assms(2)] by simp
  then show ?thesis using k 1(4,5) by (simp add: emu_typed_def kept_def)
qed

end
