(* ===== verification/Example.thy ===== *)
theory Example
  imports Guestmem
begin

unbundle bit_operations_syntax

text \<open>
  A concrete machine for the examples of the development: the EPT is in page frames 1 to 4, one
  frame per level, and maps guest physical memory to system physical memory identically, modulo 2 MiB; the
  long-mode page tables of the guest are in frames 5 to 8 and map every virtual address to frame 9. All
  entries grant read, write and execute.
\<close>

subsection \<open>The memory\<close>

definition table_entry :: "u64 \<Rightarrow> u64" where
  "table_entry frame = push_bit 12 frame OR 7"

definition chain_entry :: "u64 \<Rightarrow> u64" where
  "chain_entry a = (let k = drop_bit 12 a in
     if k = 4 then table_entry (take_bit 9 (drop_bit 3 a))
     else if 1 \<le> k \<and> k \<le> 8 then table_entry (k + 1) else 0)"

definition chainmap :: memory where
  "chainmap a = ucast (drop_bit (8 * unat (take_bit 3 a)) (chain_entry a))"

text \<open>Level \<open>l\<close> of the tree with its root in frame \<open>b\<close> is in frame \<open>b + 4 - l\<close>; its entry for \<open>va\<close>.\<close>

definition chain_frame :: "u64 \<Rightarrow> nat \<Rightarrow> u64" where
  "chain_frame b l = b + 4 - of_nat l"

definition chain_target :: "u64 \<Rightarrow> nat \<Rightarrow> hpt_va \<Rightarrow> u64" where
  "chain_target b l va = (if b = 1 \<and> l = 1 then take_bit 9 (drop_bit 12 va) else chain_frame b l + 1)"

lemma load_le_bytes:
  assumes "\<And>k. k < 8 \<Longrightarrow> m (a + of_nat k) = ucast (drop_bit (8 * k) v)"
  shows "load_le m a 8 = v"
proof (rule bit_word_eqI)
  fix n :: nat
  assume "n < LENGTH(64)"
  then have "n div 8 < 8" "8 * (n div 8) + n mod 8 = n" by auto
  then show "bit (load_le m a 8) n = bit v n"
    using assms [of "n div 8"] \<open>n < LENGTH(64)\<close> by (simp add: bit_load_le bit_simps)
qed

lemma slot_parts:
  assumes "x < 16" "i < 512" "k < 8"
  shows "drop_bit 12 (push_bit 12 x + of_nat (8 * i) + of_nat k :: u64) = x"
    "take_bit 9 (drop_bit 3 (push_bit 12 x + of_nat (8 * i) + of_nat k :: u64)) = of_nat i"
    "unat (take_bit 3 (push_bit 12 x + of_nat (8 * i) + of_nat k :: u64)) = k"
proof -
  let ?a = "push_bit 12 x + of_nat (8 * i) + of_nat k :: u64"
  have x: "unat x < 16" using assms(1) by (simp add: word_less_nat_alt)
  have px: "unat (push_bit 12 x) = 4096 * unat x"
    using x by (simp add: unsigned_push_bit_eq push_bit_nat_def take_bit_nat_eq_self mult.commute)
  have o: "unat (of_nat (8 * i) :: u64) = 8 * i" "unat (of_nat k :: u64) = k"
    using assms by (intro unat_of_nat_64; simp)+
  have "unat (push_bit 12 x + of_nat (8 * i) :: u64) = 4096 * unat x + 8 * i"
    using px o assms x by (subst unat_add_lem [THEN iffD1]) simp_all
  then have u: "unat ?a = 4096 * unat x + 8 * i + k"
    using o assms x by (subst unat_add_lem [THEN iffD1]) simp_all
  have small: "4096 * unat x + 8 * i + k < 2 ^ 64" using x assms by simp
  have d12: "(4096 * unat x + 8 * i + k) div 4096 = unat x" using assms by simp
  have d3: "(4096 * unat x + 8 * i + k) div 8 = 512 * unat x + i" using assms by simp
  show "drop_bit 12 ?a = x"
    using u small d12 by (simp add: word_unat_eq_iff unsigned_drop_bit_eq drop_bit_nat_def take_bit_nat_eq_self)
  have "unat (take_bit 9 (drop_bit 3 ?a)) = i"
    unfolding unat_take_bit_mod using u small d3 assms
    by (simp add: unsigned_drop_bit_eq drop_bit_nat_def take_bit_nat_eq_self)
  then show "take_bit 9 (drop_bit 3 ?a) = of_nat i" using assms by (simp add: word_unat_eq_iff unat_of_nat_64)
  have "4096 * unat x + 8 * i + k = k + (512 * unat x + i) * 8" by simp
  then have "(4096 * unat x + 8 * i + k) mod 8 = k" using assms(3) by (simp only: mod_mult_self1) simp
  then show "unat (take_bit 3 ?a) = k" using u by (simp add: unat_take_bit_mod)
qed


definition chainmapped :: "'x mach_scheme \<Rightarrow> bool" where
  "chainmapped s \<longleftrightarrow> (\<forall>a. 1 \<le> drop_bit 12 a \<longrightarrow> drop_bit 12 a \<le> 8 \<longrightarrow> mem s a = chainmap a)"

definition chain_ok :: "u64 \<Rightarrow> hpt_type \<Rightarrow> nat \<Rightarrow> bool" where
  "chain_ok b t l \<longleftrightarrow> (b = 1 \<or> b = 5) \<and> (t = HPT_TYPE_EPT \<or> t = HPT_TYPE_LONG) \<and> (l = 1 \<or> l = 2 \<or> l = 3 \<or> l = 4)"

definition chain_pmo :: "u64 \<Rightarrow> hpt_type \<Rightarrow> nat \<Rightarrow> hpt_pmo" where
  "chain_pmo b t l = \<lparr>pmo_pm = push_bit 12 (chain_frame b l), pmo_t = t, pmo_lvl = l\<rparr>"

definition chain_pmeo :: "u64 \<Rightarrow> hpt_type \<Rightarrow> nat \<Rightarrow> hpt_va \<Rightarrow> hpt_pmeo" where
  "chain_pmeo b t l va = \<lparr>pmeo_pme = table_entry (chain_target b l va), pmeo_t = t, pmeo_lvl = l\<rparr>"

lemma chain_load:
  assumes "chainmapped s" "1 \<le> x" "x \<le> 8" "i < 512"
  shows "load_le (mem s) (push_bit 12 x + of_nat (8 * i)) 8 =
    (if x = 4 then table_entry (of_nat i) else table_entry (x + 1))"
proof (rule load_le_bytes)
  fix k :: nat
  assume k: "k < 8"
  have "x < 16" using assms(3) by (rule le_less_trans) simp
  note p = slot_parts [OF this assms(4) k]
  have "mem s (push_bit 12 x + of_nat (8 * i) + of_nat k) = chainmap (push_bit 12 x + of_nat (8 * i) + of_nat k)"
    using assms(1-3) p(1) unfolding chainmapped_def by metis
  then show "mem s (push_bit 12 x + of_nat (8 * i) + of_nat k) =
      ucast (drop_bit (8 * k) (if x = 4 then table_entry (of_nat i) else table_entry (x + 1)))"
    unfolding chainmap_def chain_entry_def Let_def p using assms(2,3) by simp
qed

lemma chain_lvl_ok: "chain_ok b t l \<Longrightarrow> lvl_ok t l"
  by (auto simp: chain_ok_def lvl_ok_def)

lemma chain_frame_range:
  assumes "chain_ok b t l"
  shows "1 \<le> chain_frame b l" "chain_frame b l \<le> 8" "chain_frame b l = 4 \<longleftrightarrow> b = 1 \<and> l = 1"
  using assms by (auto simp: chain_ok_def chain_frame_def)

lemma chain_get_pmeo:
  assumes "chainmapped s" "chain_ok b t l"
  shows "hpt_pm_get_pmeo_by_va (mem s) (chain_pmo b t l) va = Some (chain_pmeo b t l va)"
proof -
  have t: "pm_width t l = 9" "pme_size t = 8" using assms(2) by (auto simp: chain_ok_def pm_width_def pme_size_def)
  let ?i = "ucast (take_bit 9 (drop_bit (pm_shift t l) va)) :: u32"
  have i: "hpt_get_pm_idx t l va = Some ?i" using hpt_get_pm_idx_eq [OF chain_lvl_ok [OF assms(2)], of va] t by simp
  have lt: "unat ?i < 512" using hpt_get_pm_idx_less [OF i] t by simp
  have "of_nat (unat ?i) = take_bit 9 (drop_bit 12 va)" if "l = 1"
    using that by (simp add: pm_shift_def) (rule bit_word_eqI, auto simp: bit_simps)
  then show ?thesis
    using chain_load [OF assms(1) chain_frame_range(1,2) [OF assms(2)] lt] chain_frame_range(3) [OF assms(2)] t
    by (auto simp: hpt_pm_get_pmeo_by_va_def hpt_pm_get_pme_by_va_eq [OF i] chain_pmo_def chain_pmeo_def chain_target_def)
qed

lemma table_entry_bits:
  assumes "take_bit 40 x = x"
  shows "bit (table_entry x) 0" "bit (table_entry x) 1" "bit (table_entry x) 2" "\<not> bit (table_entry x) 7"
    "\<not> bit (table_entry x) 63" "table_entry x AND MASKRANGE64 51 12 = push_bit 12 x"
proof -
  have seven: "(7 :: int) = mask 3" by (simp add: mask_eq_exp_minus_1)
  have b7: "bit (7 :: int) n \<longleftrightarrow> n < 3" for n
    unfolding seven by (simp only: bit_mask_iff) simp
  have hi: "\<not> bit x n" if "40 \<le> n" for n
    using assms that by (metis bit_take_bit_iff not_le)
  show "bit (table_entry x) 0" "bit (table_entry x) 1" "bit (table_entry x) 2" "\<not> bit (table_entry x) 7"
    "\<not> bit (table_entry x) 63"
    using hi [of 51] b7 by (simp_all add: table_entry_def bit_simps)
  show "table_entry x AND MASKRANGE64 51 12 = push_bit 12 x"
  proof (rule bit_word_eqI)
    fix n assume "n < LENGTH(64)"
    then show "bit (table_entry x AND MASKRANGE64 51 12) n = bit (push_bit 12 x) n"
      using hi [of "n - 12"] b7 [of n] by (cases "40 \<le> n - 12") (auto simp: table_entry_def bit_simps bit_field)
  qed
qed

lemma chain_target_small: "chain_ok b t l \<Longrightarrow> take_bit 40 (chain_target b l va) = chain_target b l va"
  by (auto simp: chain_ok_def chain_target_def chain_frame_def)

lemma chain_pmeo_fields:
  assumes "chain_ok b t l"
  shows "hpt_pmeo_getprot (chain_pmeo b t l va) = Some HPT_PROTS_RWX" "hpt_pmeo_getuser (chain_pmeo b t l va) = Some True"
    "hpt_pmeo_is_present (chain_pmeo b t l va) = Some True" "hpt_pmeo_is_page (chain_pmeo b t l va) = Some (l = 1)"
    "hpt_pmeo_get_address (chain_pmeo b t l va) = Some (push_bit 12 (chain_target b l va))"
proof -
  note bits = table_entry_bits [OF chain_target_small [OF assms, of va]]
  show prot: "hpt_pmeo_getprot (chain_pmeo b t l va) = Some HPT_PROTS_RWX"
    using assms bits by (auto simp: chain_ok_def chain_pmeo_def hpt_pmeo_getprot_def hpt_pme_getprot_eq prot_of_def)
  show "hpt_pmeo_getuser (chain_pmeo b t l va) = Some True"
    using assms bits by (auto simp: chain_ok_def chain_pmeo_def hpt_pmeo_getuser_def hpt_pme_getuser_def bit_field)
  show "hpt_pmeo_is_present (chain_pmeo b t l va) = Some True"
    using assms prot by (auto simp: chain_ok_def chain_pmeo_def hpt_pmeo_is_present_def hpt_pme_is_present_def hpt_pmeo_getprot_def)
  show page: "hpt_pmeo_is_page (chain_pmeo b t l va) = Some (l = 1)"
    using assms bits by (auto simp: chain_ok_def chain_pmeo_def hpt_pmeo_is_page_def hpt_pme_is_page_eq)
  have "hpt_pme_is_page t l (table_entry (chain_target b l va)) = Some (l = 1)"
    using page by (simp add: hpt_pmeo_is_page_def chain_pmeo_def)
  from hpt_pme_get_address_eq [OF this]
  show "hpt_pmeo_get_address (chain_pmeo b t l va) = Some (push_bit 12 (chain_target b l va))"
    using assms bits(6) by (auto simp: chain_ok_def chain_pmeo_def hpt_pmeo_get_address_def addr_mask_def)
qed


subsection \<open>Walks\<close>

definition chain_ctx :: "'x mach_scheme hptw_ctx \<Rightarrow> 'x mach_scheme \<Rightarrow> u64 \<Rightarrow> bool" where
  "chain_ctx ctx s b \<longleftrightarrow> chainmapped s \<and> root_pa ctx = push_bit 12 b \<and> chain_ok b (ctx_t ctx) 1
     \<and> (\<forall>l prot cpl. chain_ok b (ctx_t ctx) l \<longrightarrow> prot AND HPT_PROTS_RWX = prot \<longrightarrow>
          pa2ptr ctx s (push_bit 12 (chain_frame b l)) 0x1000 prot cpl = Some (push_bit 12 (chain_frame b l), 0x1000))"

lemma chain_ok_lvl: "chain_ok b t k \<Longrightarrow> l = 1 \<or> l = 2 \<or> l = 3 \<or> l = 4 \<Longrightarrow> chain_ok b t l"
  by (simp add: chain_ok_def)

lemma chain_frame_4: "chain_frame b 4 = b"
  by (simp add: chain_frame_def)

lemma chain_target_upper: "chain_ok b t l \<Longrightarrow> l \<noteq> 1 \<Longrightarrow> chain_target b l va = chain_frame b (l - 1)"
  by (auto simp: chain_target_def chain_frame_def chain_ok_def)

lemma chain_frame_nz: "chain_ok b t l \<Longrightarrow> push_bit 12 (chain_frame b l) \<noteq> 0"
  by (auto simp: chain_ok_def chain_frame_def)

lemma chain_pm_size:
  assumes "chain_ok b t l"
  shows "hpt_pm_size t l = Some 0x1000"
  using hpt_pm_size_eq [OF chain_lvl_ok [OF assms]] assms by (auto simp: chain_ok_def pm_width_def pme_size_def)

lemma chain_root:
  assumes "chain_ctx ctx s b"
  shows "hptw_get_root ctx s = Some (OK (chain_pmo b (ctx_t ctx) 4))"
proof -
  have ok: "chain_ok b (ctx_t ctx) 4" using assms unfolding chain_ctx_def by (blast intro: chain_ok_lvl)
  then have m: "hpt_type_max_lvl (ctx_t ctx) = Some 4" by (auto simp: chain_ok_def)
  have p: "pa2ptr ctx s (push_bit 12 (chain_frame b 4)) 0x1000 HPT_PROTS_RW HPTW_CPL0 = Some (push_bit 12 (chain_frame b 4), 0x1000)"
    using assms ok unfolding chain_ctx_def by simp
  show ?thesis using assms m p chain_pm_size [OF ok] chain_frame_nz [OF ok]
    by (simp add: hptw_get_root_def chain_ctx_def chain_pmo_def chain_frame_4)
qed

lemma chain_next_lvl:
  assumes "chain_ctx ctx s b" "chain_ok b (ctx_t ctx) l"
  shows "hptw_next_lvl ctx s (chain_pmo b (ctx_t ctx) l) va =
    (if l = 1 then Some (False, chain_pmo b (ctx_t ctx) 1) else Some (True, chain_pmo b (ctx_t ctx) (l - 1)))"
proof -
  have cm: "chainmapped s" using assms(1) by (simp add: chain_ctx_def)
  note g = chain_get_pmeo [OF cm assms(2), of va] chain_pmeo_fields [OF assms(2), of va]
  show ?thesis
  proof (cases "l = 1")
    case True
    then show ?thesis using g chain_frame_nz [OF assms(2)] by (simp add: hptw_next_lvl_def chain_pmo_def)
  next
    case False
    have ok: "chain_ok b (ctx_t ctx) (l - 1)" using False assms(2) by (auto simp: chain_ok_def)
    have "pa2ptr ctx s (push_bit 12 (chain_frame b (l - 1))) 0x1000 HPT_PROTS_R HPTW_CPL0 =
        Some (push_bit 12 (chain_frame b (l - 1)), 0x1000)"
      using assms(1) ok unfolding chain_ctx_def by simp
    then show ?thesis
      using g False chain_target_upper [OF assms(2) False] chain_pm_size [OF ok] chain_frame_nz [OF ok] chain_frame_nz [OF assms(2)]
      by (simp add: hptw_next_lvl_def chain_pmo_def)
  qed
qed

lemma chain_checked:
  assumes c: "chain_ctx ctx s b" and acc: "access AND HPT_PROTS_RWX = access"
  shows "hptw_checked_get_pmeo ctx s access cpl va = Some (OK (chain_pmeo b (ctx_t ctx) 1 va))"
proof -
  have cm: "chainmapped s" and ok1: "chain_ok b (ctx_t ctx) 1" using c by (simp_all add: chain_ctx_def)
  have step: "hptw_checked_get_pmeo_loop ctx s access cpl va (chain_pmo b (ctx_t ctx) l) =
      (if l = 1 then Some (OK (chain_pmeo b (ctx_t ctx) 1 va, chain_pmo b (ctx_t ctx) 1))
       else hptw_checked_get_pmeo_loop ctx s access cpl va (chain_pmo b (ctx_t ctx) (l - 1)))"
    if l: "chain_ok b (ctx_t ctx) l" for l
    using chain_get_pmeo [OF cm l] chain_pmeo_fields [OF l] chain_next_lvl [OF c l] acc
    by (subst hptw_checked_get_pmeo_loop.simps) simp
  have l: "chain_ok b (ctx_t ctx) 4" "chain_ok b (ctx_t ctx) 3" "chain_ok b (ctx_t ctx) 2"
    using ok1 by (auto simp: chain_ok_def)
  have "hptw_checked_get_pmeo_loop ctx s access cpl va (chain_pmo b (ctx_t ctx) 4) =
      Some (OK (chain_pmeo b (ctx_t ctx) 1 va, chain_pmo b (ctx_t ctx) 1))"
    using step [OF l(1)] step [OF l(2)] step [OF l(3)] step [OF ok1] by simp
  then show ?thesis
    using chain_root [OF c] chain_pmeo_fields [OF ok1, of va] ok1
    by (auto simp: hptw_checked_get_pmeo_def chain_pmo_def chain_ok_def)
qed

lemma chain_descends:
  assumes "descends ctx s va pmo ps q" "chain_ctx ctx s b" "pmo = chain_pmo b (ctx_t ctx) l" "chain_ok b (ctx_t ctx) l"
  shows "\<exists>l'. q = chain_pmo b (ctx_t ctx) l' \<and> chain_ok b (ctx_t ctx) l'"
  using assms
proof (induction arbitrary: l rule: descends.induct)
  case (here pmo)
  then show ?case by blast
next
  case (down pmo pmo1 ps q)
  have "pmo1 = chain_pmo b (ctx_t ctx) (l - 1)" "l \<noteq> 1"
    using down.hyps(1) chain_next_lvl [OF down.prems(1,3)] down.prems by (auto split: if_splits)
  then show ?case using down.IH [OF down.prems(1), of "l - 1"] down.prems(3) by (auto simp: chain_ok_def)
qed

lemma chain_tables_apart:
  assumes "chain_ctx ctx s b" "\<And>a. a \<in> X \<Longrightarrow> 0x9000 \<le> a"
  shows "tables_apart ctx s X"
  unfolding tables_apart_def
proof (intro allI impI)
  fix va root ps q assume "hptw_get_root ctx s = Some (OK root)" and d: "descends ctx s va root ps q"
  then have "root = chain_pmo b (ctx_t ctx) 4" using chain_root [OF assms(1)] by simp
  moreover have "chain_ok b (ctx_t ctx) 4" using assms(1) unfolding chain_ctx_def by (blast intro: chain_ok_lvl)
  ultimately obtain l where q: "q = chain_pmo b (ctx_t ctx) l" "chain_ok b (ctx_t ctx) l"
    using chain_descends [OF d assms(1)] by blast
  have "\<not> 0x9000 \<le> a" if "a \<in> pm_region q" for a
  proof
    assume "0x9000 \<le> a"
    moreover have "a - push_bit 12 (chain_frame b l) < 0x1000"
      using that q by (auto simp: pm_region_def chain_pmo_def chain_ok_def pme_size_def pm_width_def)
    moreover have "push_bit 12 (chain_frame b l) \<le> 0x8000"
      using q(2) by (auto simp: chain_ok_def chain_frame_def)
    ultimately show False by uint_arith
  qed
  then show "pm_region q \<inter> X = {}" using assms(2) by blast
qed

lemma chain_leaf:
  assumes "chain_ok b t 1"
  shows "leaf_aligned (chain_pmeo b t 1 va)"
  using chain_pmeo_fields(5) [OF assms, of va] by (simp add: leaf_aligned_def pm_shift_def chain_pmeo_def)
    (rule bit_word_eqI, auto simp: bit_simps)

lemma chain_leaves_aligned:
  assumes "chain_ctx ctx s b"
  shows "leaves_aligned ctx s"
  unfolding leaves_aligned_def
proof (intro allI impI)
  fix access cpl va e assume e: "hptw_checked_get_pmeo ctx s access cpl va = Some (OK e)"
  have cm: "chainmapped s" and ok1: "chain_ok b (ctx_t ctx) 1" using assms by (simp_all add: chain_ctx_def)
  have l: "chain_ok b (ctx_t ctx) 4" using ok1 by (auto simp: chain_ok_def)
  have "access AND HPT_PROTS_RWX = access"
  proof (rule ccontr)
    assume "access AND HPT_PROTS_RWX \<noteq> access"
    then have "hptw_checked_get_pmeo_loop ctx s access cpl va (chain_pmo b (ctx_t ctx) 4) = Some ERR"
      using chain_get_pmeo [OF cm l] chain_pmeo_fields [OF l]
      by (subst hptw_checked_get_pmeo_loop.simps) simp
    then show False using e chain_root [OF assms] by (simp add: hptw_checked_get_pmeo_def)
  qed
  then show "leaf_aligned e" using chain_checked [OF assms] e chain_leaf [OF ok1] by auto
qed


lemma chain_access:
  assumes c: "chain_ctx ctx s b" and acc: "access AND HPT_PROTS_RWX = access"
  shows "hptw_checked_access_va ctx s access cpl va sz =
    pa2ptr ctx s (push_bit 12 (chain_target b 1 va) + take_bit 12 va) (min sz (0x1000 - take_bit 12 va)) access cpl"
proof -
  let ?e = "chain_pmeo b (ctx_t ctx) 1 va" and ?a = "push_bit 12 (chain_target b 1 va)"
  have ok: "chain_ok b (ctx_t ctx) 1" using c by (simp add: chain_ctx_def)
  have e: "pmeo_t ?e = ctx_t ctx" "pmeo_lvl ?e = 1" "pm_shift (ctx_t ctx) 1 = 12"
    by (simp_all add: chain_pmeo_def pm_shift_def)
  have pg: "hpt_pmeo_is_page ?e = Some True" using chain_pmeo_fields(4) [OF ok, of va] by simp
  have pa: "hpt_pmeo_va_to_pa ?e va = Some (?a + take_bit 12 va)"
    using hpt_pmeo_va_to_pa_eq [OF pg chain_pmeo_fields(5) [OF ok]] e by simp
  have "take_bit 12 ?a = 0" by (rule bit_word_eqI) (auto simp: bit_simps)
  then have "take_bit 12 (?a + take_bit 12 va) = take_bit 12 va" by (rule take_bit_add_aligned)
  then have "hpt_remaining_on_page ?e (?a + take_bit 12 va) = Some (0x1000 - take_bit 12 va)"
    using hpt_remaining_on_page_eq [of ?e "?a + take_bit 12 va"] chain_lvl_ok [OF ok] e by simp
  then show ?thesis using chain_checked [OF c acc] pa by (simp add: hptw_checked_access_va_def)
qed

text \<open>The EPT in frames 1 to 4 maps the first 2 MiB, and every further 2 MiB, to the first 2 MiB.\<close>

lemma chain_host_ctx: "chainmapped s \<Longrightarrow> chain_ctx (guestmem_host_ctx 0x1000) s 1"
  by (simp add: chain_ctx_def chain_ok_def guestmem_host_ctx_def guestmem_host_ctx_pa2ptr_def spa2hva_def hva2spa_def)

lemma page_join: "push_bit 12 (take_bit 9 (drop_bit 12 va)) + take_bit 12 va = take_bit 21 va" for va :: u64
proof -
  have "push_bit 12 (take_bit 9 (drop_bit 12 va)) AND take_bit 12 va = 0"
    by (rule bit_word_eqI) (auto simp: bit_simps)
  then have "push_bit 12 (take_bit 9 (drop_bit 12 va)) + take_bit 12 va =
      push_bit 12 (take_bit 9 (drop_bit 12 va)) OR take_bit 12 va"
    by (rule disjunctive_add_eq_or)
  also have "\<dots> = take_bit 21 va" by (rule bit_word_eqI) (auto simp: bit_simps)
  finally show ?thesis .
qed

lemma chain_host_access:
  assumes "chainmapped s" "access AND HPT_PROTS_RWX = access"
  shows "hptw_checked_access_va (guestmem_host_ctx 0x1000) s access cpl va sz =
    Some (take_bit 21 va, min sz (0x1000 - take_bit 12 va))"
  using chain_access [OF chain_host_ctx [OF assms(1)] assms(2)]
  by (simp add: guestmem_host_ctx_def guestmem_host_ctx_pa2ptr_def spa2hva_def hva2spa_def chain_target_def page_join)

lemma chain_guest_ctx:
  assumes "chainmapped s"
  shows "chain_ctx (guestmem_guest_ctx 0x1000 HPT_TYPE_LONG 0x5000) s 5"
  unfolding chain_ctx_def
proof (intro conjI allI impI)
  fix l prot cpl assume "chain_ok 5 (ctx_t (guestmem_guest_ctx 0x1000 HPT_TYPE_LONG 0x5000)) l" "prot AND HPT_PROTS_RWX = prot"
  then show "pa2ptr (guestmem_guest_ctx 0x1000 HPT_TYPE_LONG 0x5000) s (push_bit 12 (chain_frame 5 l)) 0x1000 prot cpl =
      Some (push_bit 12 (chain_frame 5 l), 0x1000)"
    using chain_host_access [OF assms]
    by (auto simp: chain_ok_def chain_frame_def guestmem_guest_ctx_def guestmem_guest_ctx_pa2ptr_def)
qed (use assms in \<open>simp_all add: chain_ok_def guestmem_guest_ctx_def\<close>)

lemma chain_guest_access:
  assumes "chainmapped s" "access AND HPT_PROTS_RWX = access"
  shows "hptw_checked_access_va (guestmem_guest_ctx 0x1000 HPT_TYPE_LONG 0x5000) s access cpl va sz =
    Some (0x9000 + take_bit 12 va, min sz (0x1000 - take_bit 12 va))"
proof -
  have a: "take_bit 12 (0x9000 + take_bit 12 va) = take_bit 12 va"
    using take_bit_add_aligned [of 12 "0x9000" va] by simp
  have b: "take_bit 21 (0x9000 + take_bit 12 va) = 0x9000 + take_bit 12 va"
  proof -
    have "unat (take_bit 12 va) < 4096" using unat_take_bit_less [of 12 va] by simp
    moreover from this have "unat (0x9000 + take_bit 12 va) = 0x9000 + unat (take_bit 12 va)"
      by (subst unat_add_lem [THEN iffD1]) simp_all
    ultimately show ?thesis by (simp add: word_unat_eq_iff unat_take_bit_mod)
  qed
  show ?thesis
    using chain_access [OF chain_guest_ctx [OF assms(1)] assms(2)] chain_host_access [OF assms, of cpl "0x9000 + take_bit 12 va"] a b
    by (simp add: guestmem_guest_ctx_def guestmem_guest_ctx_pa2ptr_def chain_target_def chain_frame_def)
qed

subsection \<open>A CPU in long mode on these tables\<close>

definition example_vcpu :: vcpu where
  "example_vcpu = \<lparr>cpu_vendor = CPU_VENDOR_INTEL, vmx_nested_operation_mode = 0,
   vmcs = \<lparr>
     guest_CR0 = 0x80000001, guest_CR3 = 0x5000, guest_CR4 = 0x20, guest_RSP = 0,
     guest_RIP = 0, guest_RFLAGS = 0, guest_GDTR_base = 0, guest_GDTR_limit = 0,
     guest_ES_base = 0, guest_CS_base = 0, guest_SS_base = 0, guest_DS_base = 0,
     guest_FS_base = 0, guest_GS_base = 0, guest_ES_limit = 0, guest_CS_limit = 0,
     guest_SS_limit = 0, guest_DS_limit = 0, guest_FS_limit = 0, guest_GS_limit = 0,
     guest_ES_access_rights = 0, guest_CS_access_rights = 0, guest_SS_access_rights = 0, guest_DS_access_rights = 0,
     guest_FS_access_rights = 0, guest_GS_access_rights = 0, guest_PDPTE0 = 0, guest_PDPTE1 = 0,
     guest_PDPTE2 = 0, guest_PDPTE3 = 0, control_VM_entry_controls = 0x200, control_exception_bitmap = 0,
     control_VMX_cpu_based = 0, control_VMX_seccpu_based = 0, control_vpid = 0, control_EPT_pointer = 0x101e,
     guest_CS_selector = 0, info_vmexit_instruction_length = 0\<rparr>,
   vmcb = \<lparr>
     vmcb_gdtr_base = 0, vmcb_gdtr_limit = 0, vmcb_rflags = 0, vmcb_rip = 0,
     vmcb_rsp = 0, vmcb_cr0 = 0, vmcb_cr3 = 0, vmcb_cr4 = 0,
     vmcb_exception_intercepts_bitmask = 0\<rparr>,
   hw_vmcs = (\<lambda>_. None)\<rparr>"

definition example_pair :: "unit guestmem_hptw_ctx_pair" where
  "example_pair = \<lparr>guest_ctx = guestmem_guest_ctx 0x1000 HPT_TYPE_LONG 0x5000,
     host_ctx = guestmem_host_ctx 0x1000, pair_vcpu = 0\<rparr>"

definition example_state :: eptlock where
  "example_state = \<lparr>mem = chainmap, g_eptlock_write_lock = 1, g_eptlock_write_pending = False,
     vmx_eptlock_reading = (\<lambda>_. False)\<rparr>"

lemma example_init: "guestmem_init 0 example_vcpu = Some example_pair"
proof -
  have "hpt_emhf_get_guest_hpt_type example_vcpu = Some HPT_TYPE_LONG"
    by (simp add: hpt_emhf_get_guest_hpt_type_def example_vcpu_def VCPU_gcr4_def VCPU_glm_def)
  moreover have "hpt_cr3_get_address HPT_TYPE_LONG 0x5000 = Some 0x5000"
    by (simp add: hpt_cr3_get_address_def BR64_COPY_BITS_HL_def BR64_SET_HL_def BR64_GET_HL_def
        MASKRANGE64_def ZERO_LO64_def ZERO_HI64_def)
  moreover have "hpt_eptp_get_address HPT_TYPE_EPT 0x101e = Some 0x1000"
    by (simp add: hpt_eptp_get_address_def BR64_COPY_BITS_HL_def BR64_SET_HL_def BR64_GET_HL_def
        MASKRANGE64_def ZERO_LO64_def ZERO_HI64_def)
  ultimately show ?thesis by (simp add: guestmem_init_def example_vcpu_def example_pair_def)
qed

lemma example_chainmapped: "chainmapped example_state"
  by (simp add: chainmapped_def example_state_def)

lemma example_access:
  assumes "access AND HPT_PROTS_RWX = access"
  shows "hptw_checked_access_va (host_ctx example_pair) example_state access cpl va sz =
      Some (take_bit 21 va, min sz (0x1000 - take_bit 12 va))"
    and "hptw_checked_access_va (guest_ctx example_pair) example_state access cpl va sz =
      Some (0x9000 + take_bit 12 va, min sz (0x1000 - take_bit 12 va))"
  using chain_host_access [OF example_chainmapped assms] chain_guest_access [OF example_chainmapped assms]
  by (simp_all add: example_pair_def)

lemma example_xlate:
  assumes "access AND HPT_PROTS_RWX = access"
  shows "xlate (host_ctx example_pair) example_state access cpl va = take_bit 21 va"
    and "xlate (guest_ctx example_pair) example_state access cpl va = 0x9000 + take_bit 12 va"
  using example_access [OF assms] by (simp_all add: xlate_def)

lemma example_ctx:
  "host_ctx example_pair = guestmem_host_ctx 0x1000" "guest_ctx example_pair = guestmem_guest_ctx 0x1000 HPT_TYPE_LONG 0x5000"
  by (simp_all add: example_pair_def)

lemma example_granted:
  "byte_granted (host_ctx example_pair) s access cpl va \<longleftrightarrow> xlate (host_ctx example_pair) s access cpl va \<noteq> 0"
  "byte_granted (guest_ctx example_pair) s access cpl va \<longleftrightarrow> xlate (guest_ctx example_pair) s access cpl va \<noteq> 0"
  unfolding example_ctx by (rule host.byte_granted_iff) (rule linear_env.byte_granted_iff [OF guest_linear_env], simp)

lemma example_aligned:
  "leaves_aligned (host_ctx example_pair) example_state" "leaves_aligned (guest_ctx example_pair) example_state"
  unfolding example_ctx
  by (rule chain_leaves_aligned [OF chain_host_ctx [OF example_chainmapped]])
    (rule chain_leaves_aligned [OF chain_guest_ctx [OF example_chainmapped]])

lemma example_apart:
  assumes "\<And>a. a \<in> X \<Longrightarrow> 0x9000 \<le> a"
  shows "tables_apart (host_ctx example_pair) example_state X" "tables_apart (guest_ctx example_pair) example_state X"
  unfolding example_ctx
  by (rule chain_tables_apart [OF chain_host_ctx [OF example_chainmapped] assms], assumption)
    (rule chain_tables_apart [OF chain_guest_ctx [OF example_chainmapped] assms], assumption)

lemma word_lt_4: "(d :: u64) < 4 \<longleftrightarrow> d = 0 \<or> d = 1 \<or> d = 2 \<or> d = 3"
proof
  assume "d < 4"
  then have "unat d = 0 \<or> unat d = 1 \<or> unat d = 2 \<or> unat d = 3" by (simp add: word_less_nat_alt) linarith
  then show "d = 0 \<or> d = 1 \<or> d = 2 \<or> d = 3" by (simp add: word_unat_eq_iff)
qed auto

lemma example_free: "\<not> vmx_eptlock_reading example_state c" "\<not> g_eptlock_write_pending example_state"
  by (simp_all add: example_state_def)

lemma example_buffer: "a \<in> buffer p 4 \<longleftrightarrow> a = p \<or> a = p + 1 \<or> a = p + 2 \<or> a = p + 3"
  unfolding buffer_def mem_Collect_eq word_lt_4 by (auto simp: diff_eq_eq add.commute)

lemma aligned_add:
  assumes "take_bit 12 (a :: u64) = 0"
  shows "a + take_bit 12 i = a OR take_bit 12 i"
proof -
  have "a AND take_bit 12 i = take_bit 12 a AND i" by (rule bit_word_eqI) (auto simp: bit_simps)
  then show ?thesis using assms by (simp add: disjunctive_add_eq_or)
qed

lemma example_byte:
  fixes a i :: u64
  assumes "i < PAGE_SIZE_4K" "take_bit 12 a = 0"
  shows "hptw_checked_access_va (host_ctx example_pair) example_state HPT_PROTS_R cpl (a + i) 1 = Some (take_bit 21 a + i, 1)"
proof -
  have i: "take_bit 12 i = i"
    using assms(1) by (simp add: word_unat_eq_iff unat_take_bit_mod word_less_nat_alt)
  have a: "take_bit 12 (take_bit 21 a) = 0" using assms(2) by (simp add: take_bit_take_bit)
  have "take_bit 21 (a OR take_bit 12 i) = take_bit 21 a OR take_bit 12 i" "take_bit 12 (a OR take_bit 12 i) = take_bit 12 i"
    using assms(2) by (simp_all add: take_bit_or take_bit_take_bit)
  then have t: "take_bit 21 (a + i) = take_bit 21 a + i" "take_bit 12 (a + i) = i"
    using aligned_add [OF assms(2), of i] aligned_add [OF a, of i] i by simp_all
  have "min 1 (0x1000 - i) = 1" using assms(1) by (simp add: min_def) uint_arith
  then show ?thesis using example_access(1) [of HPT_PROTS_R cpl "a + i" 1] t by simp
qed

lemma example_targets:
  assumes "\<And>i. i < 4 \<Longrightarrow> xlate ctx s HPT_PROTS_W cpl (va + i) = p + i"
  shows "write_targets ctx s cpl va 4 = buffer p 4"
proof -
  have "write_targets ctx s cpl va 4 = {p + i | i. i < 4}"
    unfolding write_targets_def using assms by (intro Collect_cong) metis
  also have "\<dots> = buffer p 4" unfolding buffer_def by (auto intro: exI [of _ "_ - p"])
  finally show ?thesis .
qed

subsection \<open>The tables of one tree are separate\<close>

lemma chain_descends_above:
  assumes "descends ctx s va pmo ps q" "chain_ctx ctx s b" "pmo = chain_pmo b (ctx_t ctx) l" "chain_ok b (ctx_t ctx) l"
  shows "\<exists>l'. q = chain_pmo b (ctx_t ctx) l' \<and> chain_ok b (ctx_t ctx) l' \<and> l' \<le> l
    \<and> (\<forall>p \<in> set ps. \<exists>k. p = chain_pmo b (ctx_t ctx) k \<and> chain_ok b (ctx_t ctx) k \<and> l' < k)"
  using assms
proof (induction arbitrary: l rule: descends.induct)
  case (here pmo)
  then show ?case by auto
next
  case (down pmo pmo1 ps q)
  have p: "pmo1 = chain_pmo b (ctx_t ctx) (l - 1)" "l \<noteq> 1"
    using down.hyps(1) chain_next_lvl [OF down.prems(1,3)] down.prems(2) by (auto split: if_splits)
  then have ok: "chain_ok b (ctx_t ctx) (l - 1)" "l - 1 < l" using down.prems(3) by (auto simp: chain_ok_def)
  obtain l' where l': "q = chain_pmo b (ctx_t ctx) l'" "chain_ok b (ctx_t ctx) l'" "l' \<le> l - 1"
    "\<forall>p \<in> set ps. \<exists>k. p = chain_pmo b (ctx_t ctx) k \<and> chain_ok b (ctx_t ctx) k \<and> l' < k"
    using down.IH [OF down.prems(1) p(1) ok(1)] by blast
  then have "l' < l" using ok(2) by linarith
  then have "\<exists>k. pmo = chain_pmo b (ctx_t ctx) k \<and> chain_ok b (ctx_t ctx) k \<and> l' < k" using down.prems(2,3) by blast
  then show ?case using l' \<open>l' < l\<close> by (intro exI [of _ l'] conjI) (simp_all only: set_simps ball_simps less_imp_le)
qed

lemma frame_of:
  fixes x a :: u64
  assumes "x < 16" "a - push_bit 12 x < 0x1000"
  shows "drop_bit 12 a = x"
proof -
  let ?d = "a - push_bit 12 x"
  have x: "unat x < 16" using assms(1) by (simp add: word_less_nat_alt)
  have px: "unat (push_bit 12 x) = 4096 * unat x"
    using x by (simp add: unsigned_push_bit_eq push_bit_nat_def take_bit_nat_eq_self mult.commute)
  have d: "unat ?d < 4096" using assms(2) by (simp add: word_less_nat_alt)
  have "unat (push_bit 12 x + ?d) = 4096 * unat x + unat ?d"
    using px d x by (subst unat_add_lem [THEN iffD1]) simp_all
  then have "unat a = 4096 * unat x + unat ?d" by simp
  then have "unat a div 4096 = unat x" using d by simp
  moreover have "take_bit 64 (unat a) = unat a" using unsigned_less [where 'a = nat, of a] by (intro take_bit_nat_eq_self) simp
  ultimately show ?thesis by (simp add: word_unat_eq_iff unsigned_drop_bit_eq drop_bit_nat_def)
qed

lemma chain_regions_disjoint:
  assumes "chain_ok b t k" "chain_ok b t l" "l < k"
  shows "pm_region (chain_pmo b t k) \<inter> pm_region (chain_pmo b t l) = {}"
proof -
  have "drop_bit 12 a = chain_frame b j" if "chain_ok b t j" "a \<in> pm_region (chain_pmo b t j)" for a j
    using that chain_frame_range(2) [OF that(1)]
    by (intro frame_of) (auto simp: pm_region_def chain_pmo_def chain_ok_def pme_size_def pm_width_def intro: le_less_trans)
  moreover have "chain_frame b k \<noteq> chain_frame b l" using assms by (auto simp: chain_ok_def chain_frame_def)
  ultimately show ?thesis using assms(1,2) unfolding disjoint_iff by metis
qed

lemma chain_separate:
  assumes "chain_ctx ctx s b" "hptw_get_root ctx s = Some (OK root)" "descends ctx s va root ps p" "q \<in> set ps"
  shows "pm_region q \<inter> pm_region p = {}"
proof -
  have r: "root = chain_pmo b (ctx_t ctx) 4" using chain_root [OF assms(1)] assms(2) by simp
  have ok: "chain_ok b (ctx_t ctx) 4" using assms(1) unfolding chain_ctx_def by (blast intro: chain_ok_lvl)
  from chain_descends_above [OF assms(3,1) r ok] assms(4) obtain l k where "p = chain_pmo b (ctx_t ctx) l" "chain_ok b (ctx_t ctx) l"
    "q = chain_pmo b (ctx_t ctx) k" "chain_ok b (ctx_t ctx) k" "l < k" by blast
  then show ?thesis using chain_regions_disjoint by simp
qed

lemma chain_lvl: "chain_ok b t l \<Longrightarrow> l \<noteq> 1 \<Longrightarrow> 1 < l"
  by (auto simp: chain_ok_def)

lemma example_store:
  "\<exists>m'. hpt_pmo_set_pme_by_va m (chain_pmo 1 HPT_TYPE_EPT 1) e va = Some m'"
proof -
  have "lvl_ok HPT_TYPE_EPT 1" by (simp add: lvl_ok_def)
  from hpt_get_pm_idx_eq [OF this, of va] show ?thesis
    by (simp add: hpt_pmo_set_pme_by_va_def chain_pmo_def hpt_pm_set_pme_by_va_eq)
qed

lemma chain_get_pmo:
  assumes c: "chain_ctx ctx s b"
  shows "hptw_get_pmo ctx s 1 va = Some (chain_pmo b (ctx_t ctx) 1)"
proof -
  have ok1: "chain_ok b (ctx_t ctx) 1" using c by (simp add: chain_ctx_def)
  have step: "hptw_get_pmo_loop ctx s (chain_pmo b (ctx_t ctx) l) 1 va =
      (if l = 1 then Some (chain_pmo b (ctx_t ctx) 1) else hptw_get_pmo_loop ctx s (chain_pmo b (ctx_t ctx) (l - 1)) 1 va)"
    if l: "chain_ok b (ctx_t ctx) l" for l
    using chain_next_lvl [OF c l, of va] chain_lvl [OF l]
    by (subst hptw_get_pmo_loop.simps) (cases "l = 1", simp_all add: chain_pmo_def)
  have l: "chain_ok b (ctx_t ctx) 4" "chain_ok b (ctx_t ctx) 3" "chain_ok b (ctx_t ctx) 2"
    using ok1 by (auto simp: chain_ok_def)
  then show ?thesis
    using step [OF l(1)] step [OF l(2)] step [OF l(3)] step [OF ok1] chain_root [OF c] by (simp add: hptw_get_pmo_def)
qed

subsection \<open>Two more CPUs\<close>

definition example_protected_vcpu :: vcpu where
  "example_protected_vcpu = example_vcpu\<lparr>vmcs := (vmcs example_vcpu)
     \<lparr>guest_DS_base := 0x10000, guest_DS_limit := 0xffff, guest_DS_access_rights := 0xf3\<rparr>\<rparr>"

definition example_nested_vcpu :: vcpu where
  "example_nested_vcpu = example_vcpu\<lparr>vmx_nested_operation_mode := NESTED_VMX_MODE_NONROOT,
     hw_vmcs := [PIN_BASED \<mapsto> 0x7f, EXIT_CONTROLS \<mapsto> 0x436fff, CPU_BASED \<mapsto> 0x2500000, SECCPU_BASED \<mapsto> 0x2022]\<rparr>"

end
