(* ===== verification/Ept02Flush.thy ===== *)
theory Ept02Flush
  imports Vcpu
begin

unbundle bit_operations_syntax

text \<open>
  Deferred flushing of the shadow EPTs (the last part of \<^verbatim>\<open>nested-x86vmx-ept12.c\<close>). A flush request arrives in an NMI handler, at any
  point of the code of the CPU; while the code works on the shadow EPTs it blocks the flush, and the request is remembered in
  \<open>vmx_nested_ept02_flush_visited\<close> until the unblocking. The operations are functions first, as they run when no NMI arrives; then
  the interleaving of the statements with NMIs is a step relation.

  What a flush does to the shadow EPTs is given by two arguments: \<open>drop_ept02\<close> stands for \<open>LRU_SET_INVALIDATE_ALL\<close> on the cache of the CPU
  followed by \<open>xmhf_nested_arch_x86vmx_clear_all_vmcs12_ept02\<close>, and \<open>rewalk\<close> for \<open>xmhf_nested_arch_x86vmx_rewalk_ept01\<close>
  on the current VMCS12.
\<close>

abbreviation (input) MEMP_FLUSHTLB_EPTP :: u32 where "MEMP_FLUSHTLB_EPTP \<equiv> 1"
abbreviation (input) MEMP_FLUSHTLB_ENTRY :: u32 where "MEMP_FLUSHTLB_ENTRY \<equiv> 2"
abbreviation (input) MEMP_FLUSHTLB_MT_ENTRY :: u32 where "MEMP_FLUSHTLB_MT_ENTRY \<equiv> 4"

record vcpu_nested = vcpu +
  vmx_nested_ept02_flush_disable :: bool
  vmx_nested_ept02_flush_visited :: u32

subsection \<open>The operations\<close>

definition xmhf_nested_arch_x86vmx_flush_ept02_effect ::
  "('x vcpu_nested_scheme \<Rightarrow> 'x vcpu_nested_scheme exec) \<Rightarrow> ('x vcpu_nested_scheme \<Rightarrow> 'x vcpu_nested_scheme exec)
    \<Rightarrow> 'x vcpu_nested_scheme \<Rightarrow> u32 \<Rightarrow> 'x vcpu_nested_scheme exec" where
  "xmhf_nested_arch_x86vmx_flush_ept02_effect drop_ept02 rewalk v flags = do {
     v \<leftarrow> (if flags AND MEMP_FLUSHTLB_ENTRY \<noteq> 0 then drop_ept02 v else Some v);
     (if vmx_nested_operation_mode v = NESTED_VMX_MODE_NONROOT
         \<and> flags AND (MEMP_FLUSHTLB_EPTP OR MEMP_FLUSHTLB_ENTRY) \<noteq> 0 then rewalk v else Some v)
   }"

definition xmhf_nested_arch_x86vmx_flush_ept02 ::
  "('x vcpu_nested_scheme \<Rightarrow> u32 \<Rightarrow> 'x vcpu_nested_scheme exec) \<Rightarrow> 'x vcpu_nested_scheme \<Rightarrow> u32
    \<Rightarrow> 'x vcpu_nested_scheme exec" where
  "xmhf_nested_arch_x86vmx_flush_ept02 effect v flags =
     (if vmx_nested_ept02_flush_disable v
      then Some (v\<lparr>vmx_nested_ept02_flush_visited := vmx_nested_ept02_flush_visited v OR flags\<rparr>)
      else effect v flags)"

definition xmhf_nested_arch_x86vmx_block_ept02_flush :: "'x vcpu_nested_scheme \<Rightarrow> 'x vcpu_nested_scheme exec" where
  "xmhf_nested_arch_x86vmx_block_ept02_flush v = do {
     assert_c (\<not> vmx_nested_ept02_flush_disable v);
     Some (v\<lparr>vmx_nested_ept02_flush_disable := True\<rparr>)
   }"

partial_function (option) unblock_loop ::
  "('x vcpu_nested_scheme \<Rightarrow> u32 \<Rightarrow> 'x vcpu_nested_scheme exec) \<Rightarrow> 'x vcpu_nested_scheme \<Rightarrow> 'x vcpu_nested_scheme exec" where
  "unblock_loop effect v =
     (if vmx_nested_ept02_flush_visited v \<noteq> 0 then do {
        flags \<leftarrow> Some (vmx_nested_ept02_flush_visited v);
        v \<leftarrow> Some (v\<lparr>vmx_nested_ept02_flush_visited := 0\<rparr>);
        v \<leftarrow> Some (v\<lparr>vmx_nested_ept02_flush_disable := True\<rparr>);
        v \<leftarrow> effect v flags;
        unblock_loop effect (v\<lparr>vmx_nested_ept02_flush_disable := False\<rparr>)
      }
      else Some v)"

definition xmhf_nested_arch_x86vmx_unblock_ept02_flush ::
  "('x vcpu_nested_scheme \<Rightarrow> u32 \<Rightarrow> 'x vcpu_nested_scheme exec) \<Rightarrow> 'x vcpu_nested_scheme \<Rightarrow> 'x vcpu_nested_scheme exec" where
  "xmhf_nested_arch_x86vmx_unblock_ept02_flush effect v = do {
     assert_c (vmx_nested_ept02_flush_disable v);
     unblock_loop effect (v\<lparr>vmx_nested_ept02_flush_disable := False\<rparr>)
   }"

text \<open>
  When no further NMI arrives and a flush itself comes back without a new request, \<open>unblock\<close> returns, with the flush enabled and no
  request left; it flushes once, with all flags that were requested, or not at all.
\<close>

lemma unblock_ept02_flush_result:
  assumes "vmx_nested_ept02_flush_disable v"
    and "\<And>v f. \<exists>v'. effect v f = Some v' \<and> vmx_nested_ept02_flush_visited v' = vmx_nested_ept02_flush_visited v"
  shows "\<exists>v'. xmhf_nested_arch_x86vmx_unblock_ept02_flush effect v = Some v'
    \<and> \<not> vmx_nested_ept02_flush_disable v' \<and> vmx_nested_ept02_flush_visited v' = 0
    \<and> (if vmx_nested_ept02_flush_visited v = 0 then v' = v\<lparr>vmx_nested_ept02_flush_disable := False\<rparr>
       else \<exists>v1. effect (v\<lparr>vmx_nested_ept02_flush_visited := 0\<rparr>) (vmx_nested_ept02_flush_visited v) = Some v1
          \<and> v' = v1\<lparr>vmx_nested_ept02_flush_disable := False\<rparr>)"
proof (cases "vmx_nested_ept02_flush_visited v = 0")
  case True
  then show ?thesis using assms(1)
    unfolding xmhf_nested_arch_x86vmx_unblock_ept02_flush_def by (subst unblock_loop.simps) simp
next
  case False
  let ?v0 = "v\<lparr>vmx_nested_ept02_flush_visited := 0\<rparr>"
  have same: "?v0\<lparr>vmx_nested_ept02_flush_disable := True\<rparr> = ?v0"
    using assms(1) by (intro vcpu_nested.equality) simp_all
  obtain v1 where v1: "effect ?v0 (vmx_nested_ept02_flush_visited v) = Some v1" "vmx_nested_ept02_flush_visited v1 = 0"
    using assms(2) [of ?v0 "vmx_nested_ept02_flush_visited v"] by auto
  then have "unblock_loop effect (v1\<lparr>vmx_nested_ept02_flush_disable := False\<rparr>) = Some (v1\<lparr>vmx_nested_ept02_flush_disable := False\<rparr>)"
    by (subst unblock_loop.simps) simp
  then have "xmhf_nested_arch_x86vmx_unblock_ept02_flush effect v = Some (v1\<lparr>vmx_nested_ept02_flush_disable := False\<rparr>)"
    using assms(1) False v1 unfolding xmhf_nested_arch_x86vmx_unblock_ept02_flush_def
    by (subst unblock_loop.simps) (simp add: same)
  then show ?thesis using v1 False by simp
qed

subsection \<open>Interleaving with NMIs\<close>

text \<open>
  One CPU. \<open>Running\<close> is any code outside the section that \<open>block\<close> and \<open>unblock\<close> enclose, \<open>Blocked\<close> the section itself; the others
  are the points between the statements of \<open>unblock\<close>, among them \<open>U_flush\<close>, where the flush that \<open>unblock\<close> calls is at work. In a
  configuration, the shared variables come with two records of what happened: \<open>pending\<close> are the flags of the requests that no flush has
  covered since, \<open>flushes\<close> the flags of the flushes started by now, latest first, each with whether it broke into the section or into
  another flush.
\<close>

datatype flush_pc = Running | Blocked | U_test | U_read | U_clear u32 | U_disable u32 | U_effect u32 | U_flush | U_enable | Halt

record flush_conf =
  pc :: flush_pc
  flush_disable :: bool
  flush_visited :: u32
  pending :: u32
  flushes :: "(u32 \<times> bool) list"

definition flush_now :: "u32 \<Rightarrow> flush_conf \<Rightarrow> flush_conf" where
  "flush_now flags s = s\<lparr>pending := pending s AND NOT flags, flushes := (flags, pc s = Blocked \<or> pc s = U_flush) # flushes s\<rparr>"

text \<open>
  An NMI runs \<open>flush_ept02\<close> between any two statements of the CPU. It is one step, since NMIs are blocked until its handler returns.
\<close>

inductive nmi_step :: "flush_conf \<Rightarrow> flush_conf \<Rightarrow> bool" where
  nmi_deferred: "flush_disable s \<Longrightarrow>
    nmi_step s (s\<lparr>flush_visited := flush_visited s OR flags, pending := pending s OR flags\<rparr>)"
| nmi_direct: "\<not> flush_disable s \<Longrightarrow> nmi_step s (flush_now flags s)"

text \<open>
  The statements of \<open>block\<close> and \<open>unblock\<close>. A flush covers the requests that came before its start, which is \<open>start_effect\<close>; a
  request that arrives while it works is for the next one.
\<close>

inductive cpu_step :: "flush_conf \<Rightarrow> flush_conf \<Rightarrow> bool" where
  block_ok: "pc s = Running \<Longrightarrow> \<not> flush_disable s \<Longrightarrow> cpu_step s (s\<lparr>flush_disable := True, pc := Blocked\<rparr>)"
| block_halt: "pc s = Running \<Longrightarrow> flush_disable s \<Longrightarrow> cpu_step s (s\<lparr>pc := Halt\<rparr>)"
| unblock_ok: "pc s = Blocked \<Longrightarrow> flush_disable s \<Longrightarrow> cpu_step s (s\<lparr>flush_disable := False, pc := U_test\<rparr>)"
| unblock_halt: "pc s = Blocked \<Longrightarrow> \<not> flush_disable s \<Longrightarrow> cpu_step s (s\<lparr>pc := Halt\<rparr>)"
| test_done: "pc s = U_test \<Longrightarrow> flush_visited s = 0 \<Longrightarrow> cpu_step s (s\<lparr>pc := Running\<rparr>)"
| test_more: "pc s = U_test \<Longrightarrow> flush_visited s \<noteq> 0 \<Longrightarrow> cpu_step s (s\<lparr>pc := U_read\<rparr>)"
| read_flags: "pc s = U_read \<Longrightarrow> cpu_step s (s\<lparr>pc := U_clear (flush_visited s)\<rparr>)"
| clear_visited: "pc s = U_clear f \<Longrightarrow> cpu_step s (s\<lparr>flush_visited := 0, pc := U_disable f\<rparr>)"
| set_disable: "pc s = U_disable f \<Longrightarrow> cpu_step s (s\<lparr>flush_disable := True, pc := U_effect f\<rparr>)"
| start_effect: "pc s = U_effect f \<Longrightarrow> cpu_step s ((flush_now f s)\<lparr>pc := U_flush\<rparr>)"
| end_effect: "pc s = U_flush \<Longrightarrow> cpu_step s (s\<lparr>pc := U_enable\<rparr>)"
| reset_disable: "pc s = U_enable \<Longrightarrow> cpu_step s (s\<lparr>flush_disable := False, pc := U_test\<rparr>)"

inductive flush_reach :: "flush_conf \<Rightarrow> bool" where
  boot: "flush_reach \<lparr>pc = Running, flush_disable = False, flush_visited = 0, pending = 0, flushes = []\<rparr>"
| nmi: "flush_reach s \<Longrightarrow> nmi_step s s' \<Longrightarrow> flush_reach s'"
| cpu: "flush_reach s \<Longrightarrow> cpu_step s s' \<Longrightarrow> flush_reach s'"

subsection \<open>No request is lost\<close>

fun inflight :: "flush_pc \<Rightarrow> u32" where
  "inflight (U_clear f) = f"
| "inflight (U_disable f) = f"
| "inflight (U_effect f) = f"
| "inflight _ = 0"

definition flush_inv :: "flush_conf \<Rightarrow> bool" where
  "flush_inv s \<longleftrightarrow> pc s \<noteq> Halt
     \<and> (flush_disable s \<longleftrightarrow> (case pc s of Blocked \<Rightarrow> True | U_effect f \<Rightarrow> True | U_flush \<Rightarrow> True | U_enable \<Rightarrow> True | _ \<Rightarrow> False))
     \<and> (\<forall>n. bit (pending s) n \<longrightarrow> bit (flush_visited s) n \<or> bit (inflight (pc s)) n)
     \<and> (case pc s of Running \<Rightarrow> flush_visited s = 0 | U_clear f \<Rightarrow> flush_visited s = f | _ \<Rightarrow> True)
     \<and> (\<forall>(f, interrupted) \<in> set (flushes s). \<not> interrupted)"

lemma flush_inv_nmi: "flush_inv s \<Longrightarrow> nmi_step s s' \<Longrightarrow> flush_inv s'"
  by (erule nmi_step.cases) (auto simp: flush_inv_def flush_now_def bit_simps split: flush_pc.splits)

lemma flush_inv_cpu: "flush_inv s \<Longrightarrow> cpu_step s s' \<Longrightarrow> flush_inv s'"
  by (erule cpu_step.cases) (auto simp: flush_inv_def flush_now_def bit_simps split: flush_pc.splits)

lemma flush_reach_inv: "flush_reach s \<Longrightarrow> flush_inv s"
  by (induction rule: flush_reach.induct) (auto intro: flush_inv_nmi flush_inv_cpu, simp add: flush_inv_def)

subsection \<open>Unblocking ends\<close>

fun in_unblock :: "flush_pc \<Rightarrow> bool" where
  "in_unblock Running = False"
| "in_unblock Blocked = False"
| "in_unblock Halt = False"
| "in_unblock _ = True"

text \<open>A part of one call of \<open>unblock\<close>, with \<open>k\<close> NMIs and \<open>m\<close> steps of its own.\<close>

inductive unblock_run :: "flush_conf \<Rightarrow> nat \<Rightarrow> nat \<Rightarrow> flush_conf \<Rightarrow> bool" for s where
  start: "unblock_run s 0 0 s"
| nmi: "unblock_run s k m t \<Longrightarrow> nmi_step t u \<Longrightarrow> unblock_run s (Suc k) m u"
| cpu: "unblock_run s k m t \<Longrightarrow> in_unblock (pc t) \<Longrightarrow> cpu_step t u \<Longrightarrow> unblock_run s k (Suc m) u"

text \<open>The number of steps that are left if no further NMI arrives.\<close>

fun steps_left :: "flush_pc \<Rightarrow> u32 \<Rightarrow> nat" where
  "steps_left U_test v = (if v = 0 then 1 else 8)"
| "steps_left U_read v = 7"
| "steps_left (U_clear f) v = 6"
| "steps_left (U_disable f) v = (if v = 0 then 5 else 12)"
| "steps_left (U_effect f) v = (if v = 0 then 4 else 11)"
| "steps_left U_flush v = (if v = 0 then 3 else 10)"
| "steps_left U_enable v = (if v = 0 then 2 else 9)"
| "steps_left _ v = 0"

lemma steps_left_nmi: "nmi_step s s' \<Longrightarrow> steps_left (pc s') (flush_visited s') \<le> steps_left (pc s) (flush_visited s) + 7"
  by (erule nmi_step.cases; cases "pc s") (auto simp: flush_now_def)

lemma steps_left_cpu:
  "cpu_step s s' \<Longrightarrow> in_unblock (pc s) \<Longrightarrow> Suc (steps_left (pc s') (flush_visited s')) = steps_left (pc s) (flush_visited s)"
  by (erule cpu_step.cases) (auto simp: flush_now_def)

lemma unblock_run_bound:
  "unblock_run s k m t \<Longrightarrow> m + steps_left (pc t) (flush_visited t) \<le> steps_left (pc s) (flush_visited s) + 7 * k"
  by (induction rule: unblock_run.induct) (auto dest: steps_left_nmi steps_left_cpu)

lemma unblock_progress: "in_unblock (pc t) \<Longrightarrow> \<exists>u. cpu_step t u"
  by (cases "pc t"; cases "flush_visited t = 0") (auto intro: cpu_step.intros)

subsection \<open>Properties\<close>

text \<open>
  C39: no flush request is lost. Wherever NMIs arrive, the assertions of \<open>block\<close> and \<open>unblock\<close> hold; no flush starts inside a blocked section or while the
  flush of \<open>unblock\<close> is at work; and outside of the section and of \<open>unblock\<close> flushes are enabled, and every request has been carried out by a
  flush that started after it.
\<close>

theorem ept02_flush_not_lost:
  assumes "flush_reach s"
  shows "pc s \<noteq> Halt \<and> (\<forall>(f, interrupted) \<in> set (flushes s). \<not> interrupted)
    \<and> (pc s = Running \<longrightarrow> pending s = 0 \<and> flush_visited s = 0 \<and> \<not> flush_disable s)"
  using flush_reach_inv [OF assms] by (auto simp: flush_inv_def intro: bit_eqI)

lemma example_unblock:
  defines "c \<equiv> \<lambda>p d v q fs. \<lparr>pc = p, flush_disable = d, flush_visited = v, pending = q, flushes = fs\<rparr>"
  shows "flush_reach (c U_test False 2 2 [])" "unblock_run (c U_test False 2 2 []) 0 8 (c Running False 0 0 [(2, False)])"
    "flush_reach (c Running False 0 0 [(2, False)])"
proof -
  have s: "cpu_step (c U_test False 2 2 []) (c U_read False 2 2 [])" "cpu_step (c U_read False 2 2 []) (c (U_clear 2) False 2 2 [])"
    "cpu_step (c (U_clear 2) False 2 2 []) (c (U_disable 2) False 0 2 [])"
    "cpu_step (c (U_disable 2) False 0 2 []) (c (U_effect 2) True 0 2 [])"
    "cpu_step (c (U_effect 2) True 0 2 []) (c U_flush True 0 0 [(2, False)])"
    "cpu_step (c U_flush True 0 0 [(2, False)]) (c U_enable True 0 0 [(2, False)])"
    "cpu_step (c U_enable True 0 0 [(2, False)]) (c U_test False 0 0 [(2, False)])"
    "cpu_step (c U_test False 0 0 [(2, False)]) (c Running False 0 0 [(2, False)])"
    by (simp_all add: c_def cpu_step.simps flush_now_def)
  have b: "flush_reach (c Running False 0 0 [])" "cpu_step (c Running False 0 0 []) (c Blocked True 0 0 [])"
    "cpu_step (c Blocked True 2 2 []) (c U_test False 2 2 [])"
    by (simp_all add: c_def cpu_step.simps flush_reach.boot)
  have "nmi_step (c Blocked True 0 0 []) (c Blocked True 2 2 [])"
    using nmi_step.nmi_deferred [of "c Blocked True 0 0 []" 2] by (simp add: c_def)
  then show r: "flush_reach (c U_test False 2 2 [])" by (rule flush_reach.cpu [OF flush_reach.nmi [OF flush_reach.cpu [OF b(1,2)]] b(3)])
  have "flush_reach (c U_enable True 0 0 [(2, False)])"
    by (rule flush_reach.cpu [OF flush_reach.cpu [OF flush_reach.cpu [OF flush_reach.cpu [OF flush_reach.cpu [OF flush_reach.cpu
      [OF r s(1)] s(2)] s(3)] s(4)] s(5)] s(6)])
  then show "flush_reach (c Running False 0 0 [(2, False)])"
    by (rule flush_reach.cpu [OF flush_reach.cpu [OF _ s(7)] s(8)])
  have "unblock_run (c U_test False 2 2 []) 0 (Suc (Suc (Suc (Suc (Suc (Suc (Suc (Suc 0)))))))) (c Running False 0 0 [(2, False)])"
    by (rule unblock_run.cpu [OF unblock_run.cpu [OF unblock_run.cpu [OF unblock_run.cpu [OF unblock_run.cpu [OF unblock_run.cpu
      [OF unblock_run.cpu [OF unblock_run.cpu [OF unblock_run.start _ s(1)] _ s(2)] _ s(3)] _ s(4)] _ s(5)] _ s(6)] _ s(7)] _ s(8)])
      (simp_all add: c_def)
  then show "unblock_run (c U_test False 2 2 []) 0 8 (c Running False 0 0 [(2, False)])" by (simp add: eval_nat_numeral)
qed

theorem ept02_flush_not_lost_witness:
  "let s = \<lparr>pc = Running, flush_disable = False, flush_visited = 0, pending = 0, flushes = [(MEMP_FLUSHTLB_ENTRY, False)]\<rparr>
   in flush_reach s \<and> pc s \<noteq> Halt \<and> (\<forall>(f, interrupted) \<in> set (flushes s). \<not> interrupted) \<and> pending s = 0"
  using ept02_flush_not_lost [OF example_unblock(3)] example_unblock(3) by (simp add: Let_def)

text \<open>
  C40: unblocking ends, with NMIs arriving. From its test of the remembered requests on, one call of \<open>unblock\<close> during which \<open>k\<close> NMIs arrive
  makes at most \<open>7 * k + 8\<close> steps; and as long as it has not returned it can make one more step. So it returns unless
  NMIs arrive without end. The flush that it calls counts as two steps, its start and its end.
\<close>

theorem unblock_ept02_flush_bounded:
  assumes "pc s = U_test" "unblock_run s k m t"
  shows "m \<le> 7 * k + 8 \<and> (in_unblock (pc t) \<longrightarrow> (\<exists>u. cpu_step t u))"
  using unblock_run_bound [OF assms(2)] assms(1) unblock_progress [of t] by (auto split: if_splits)

theorem unblock_ept02_flush_bounded_witness:
  "let s = \<lparr>pc = U_test, flush_disable = False, flush_visited = 2, pending = 2, flushes = []\<rparr>
   in flush_reach s \<and> (\<exists>t. pc t = Running \<and> unblock_run s 0 8 t) \<and> (\<forall>m t. unblock_run s 0 m t \<longrightarrow> m \<le> 8)"
proof -
  let ?s = "\<lparr>pc = U_test, flush_disable = False, flush_visited = 2, pending = 2, flushes = []\<rparr>"
  have "m \<le> 8" if "unblock_run ?s 0 m t" for m t using unblock_ept02_flush_bounded [OF _ that] by simp
  moreover have "\<exists>t. pc t = Running \<and> unblock_run ?s 0 8 t" using example_unblock(2) by (metis flush_conf.select_convs(1))
  ultimately show ?thesis using example_unblock(1) unfolding Let_def by blast
qed

end
