(* ===== verification/Memprot.thy ===== *)
theory Memprot
  imports Guestmem Ept02Flush
begin

unbundle bit_operations_syntax

text \<open>
  Memory protection with EPT on Intel, \<^verbatim>\<open>memp-x86vmx.c\<close>: the memory type of a page from the MTRRs, the set-up of the
  identity-mapped EPT, its update when the guest writes an MTRR, and the protection of single pages. The EPT is in the
  byte-addressed memory, at the addresses that the VCPU structure holds; \<open>MAX_PHYS_ADDR\<close> (a build option) and
  \<open>rpb\<close> (the boot parameters) are arguments. The processor is an argument as well: \<open>cpuid\<close> and
  \<open>rdmsr64\<close> as functions, \<open>invept\<close> as the success of the \<^verbatim>\<open>INVEPT\<close> instruction. The hypapp callback
  \<open>xmhf_app_handlemtrr\<close> and the effect of a flush on the shadow EPTs (theory \<open>Ept02Flush\<close>) are function arguments.
\<close>

abbreviation (input) NUM_FIXED_MTRRS :: nat where "NUM_FIXED_MTRRS \<equiv> 11"
abbreviation (input) MAX_VARIABLE_MTRR_PAIRS :: u32 where "MAX_VARIABLE_MTRR_PAIRS \<equiv> 10"
abbreviation (input) MTRR_TYPE_UC :: u32 where "MTRR_TYPE_UC \<equiv> 0"
abbreviation (input) MTRR_TYPE_WC :: u32 where "MTRR_TYPE_WC \<equiv> 1"
abbreviation (input) MTRR_TYPE_WT :: u32 where "MTRR_TYPE_WT \<equiv> 4"
abbreviation (input) MTRR_TYPE_WP :: u32 where "MTRR_TYPE_WP \<equiv> 5"
abbreviation (input) MTRR_TYPE_WB :: u32 where "MTRR_TYPE_WB \<equiv> 6"
abbreviation (input) MTRR_TYPE_RESV :: u32 where "MTRR_TYPE_RESV \<equiv> 7"
abbreviation (input) IA32_MTRRCAP :: u32 where "IA32_MTRRCAP \<equiv> 0xfe"
abbreviation (input) IA32_MTRR_DEF_TYPE :: u32 where "IA32_MTRR_DEF_TYPE \<equiv> 0x2ff"
abbreviation (input) IA32_MTRR_PHYSBASE0 :: u32 where "IA32_MTRR_PHYSBASE0 \<equiv> 0x200"
abbreviation (input) IA32_MTRR_PHYSMASK0 :: u32 where "IA32_MTRR_PHYSMASK0 \<equiv> 0x201"
abbreviation (input) MEMP_PROT_NOTPRESENT :: u32 where "MEMP_PROT_NOTPRESENT \<equiv> 1"
abbreviation (input) MEMP_PROT_PRESENT :: u32 where "MEMP_PROT_PRESENT \<equiv> 2"
abbreviation (input) MEMP_PROT_READONLY :: u32 where "MEMP_PROT_READONLY \<equiv> 4"
abbreviation (input) MEMP_PROT_READWRITE :: u32 where "MEMP_PROT_READWRITE \<equiv> 8"
abbreviation (input) MEMP_PROT_EXECUTE :: u32 where "MEMP_PROT_EXECUTE \<equiv> 16"
abbreviation (input) MEMP_PROT_NOEXECUTE :: u32 where "MEMP_PROT_NOEXECUTE \<equiv> 32"
abbreviation (input) PA_PAGE_SIZE_4K :: u64 where "PA_PAGE_SIZE_4K \<equiv> 0x1000"
abbreviation (input) PA_PAGE_SIZE_2M :: u64 where "PA_PAGE_SIZE_2M \<equiv> 0x200000"
abbreviation (input) APP_SUCCESS :: u32 where "APP_SUCCESS \<equiv> 1"

subsection \<open>Data\<close>

record fixed_mtrr_prop_t =
  prop_msr :: u32
  prop_start :: u32
  prop_step :: u32
  prop_end :: u32

definition fixed_mtrr_prop :: "fixed_mtrr_prop_t list" where
  "fixed_mtrr_prop = [
     \<lparr>prop_msr = 0x250, prop_start = 0x00000000, prop_step = 0x00010000, prop_end = 0x00080000\<rparr>,
     \<lparr>prop_msr = 0x258, prop_start = 0x00080000, prop_step = 0x00004000, prop_end = 0x000A0000\<rparr>,
     \<lparr>prop_msr = 0x259, prop_start = 0x000A0000, prop_step = 0x00004000, prop_end = 0x000C0000\<rparr>,
     \<lparr>prop_msr = 0x268, prop_start = 0x000C0000, prop_step = 0x00001000, prop_end = 0x000C8000\<rparr>,
     \<lparr>prop_msr = 0x269, prop_start = 0x000C8000, prop_step = 0x00001000, prop_end = 0x000D0000\<rparr>,
     \<lparr>prop_msr = 0x26a, prop_start = 0x000D0000, prop_step = 0x00001000, prop_end = 0x000D8000\<rparr>,
     \<lparr>prop_msr = 0x26b, prop_start = 0x000D8000, prop_step = 0x00001000, prop_end = 0x000E0000\<rparr>,
     \<lparr>prop_msr = 0x26c, prop_start = 0x000E0000, prop_step = 0x00001000, prop_end = 0x000E8000\<rparr>,
     \<lparr>prop_msr = 0x26d, prop_start = 0x000E8000, prop_step = 0x00001000, prop_end = 0x000F0000\<rparr>,
     \<lparr>prop_msr = 0x26e, prop_start = 0x000F0000, prop_step = 0x00001000, prop_end = 0x000F8000\<rparr>,
     \<lparr>prop_msr = 0x26f, prop_start = 0x000F8000, prop_step = 0x00001000, prop_end = 0x00100000\<rparr>]"

record guestvarmtrrmsrpair =
  mtrr_base :: u64
  mtrr_mask :: u64

record guestmtrrmsrs =
  def_type :: u64
  fix_mtrrs :: "u64 list"
  var_count :: u32
  var_mtrrs :: "guestvarmtrrmsrpair list"

record vcpu_ept = vcpu_nested +
  vmx_vaddr_ept_pml4_table :: u64
  vmx_vaddr_ept_pdp_table :: u64
  vmx_vaddr_ept_pd_tables :: u64
  vmx_vaddr_ept_p_tables :: u64
  vmx_ept_defaulttype :: u32
  vmx_ept_mtrr_enable :: u32
  vmx_ept_fixmtrr_enable :: u32
  vmx_ept_paddrmask :: u64
  vmx_guestmtrrmsrs :: guestmtrrmsrs

record rpb =
  XtVmmRuntimePhysBase :: u64
  XtVmmRuntimeSize :: u64

record processor =
  cpuid :: "u32 \<Rightarrow> u32 \<times> u32 \<times> u32 \<times> u32"
  rdmsr64 :: "u32 \<Rightarrow> u64"

text \<open>An element of an array, and an assignment to it; outside the array the behaviour is undefined.\<close>

definition arr_nth :: "'a list \<Rightarrow> u32 \<Rightarrow> 'a exec" where
  "arr_nth xs i = (if unat i < length xs then Some (xs ! unat i) else None)"

definition arr_upd :: "'a list \<Rightarrow> u32 \<Rightarrow> 'a \<Rightarrow> 'a list exec" where
  "arr_upd xs i x = (if unat i < length xs then Some (xs[unat i := x]) else None)"

text \<open>A right shift of a 64-bit value, undefined in C when the amount is not below 64.\<close>

definition shr_u64 :: "u64 \<Rightarrow> u32 \<Rightarrow> u64 exec" where
  "shr_u64 x n = (if n < 64 then Some (drop_bit (unat n) x) else None)"

text \<open>Entry \<open>i\<close> of a table of 64-bit entries.\<close>

definition pt_get :: "memory \<Rightarrow> u64 \<Rightarrow> u64 \<Rightarrow> u64" where
  "pt_get m base i = load_le m (base + 8 * i) 8"

definition pt_set :: "memory \<Rightarrow> u64 \<Rightarrow> u64 \<Rightarrow> u64 \<Rightarrow> memory" where
  "pt_set m base i x = store_le m (base + 8 * i) 8 x"

subsection \<open>Checks of MTRR values\<close>

definition vmx_mtrr_checktype :: "u32 \<Rightarrow> bool" where
  "vmx_mtrr_checktype type \<longleftrightarrow> type = 0 \<or> type = 1 \<or> type = 4 \<or> type = 5 \<or> type = 6"

definition vmx_mtrr_checkdeftype :: "u64 \<Rightarrow> (u32 \<times> u32 \<times> u32) option" where
  "vmx_mtrr_checkdeftype msrval =
     (if msrval AND NOT 0xCFF \<noteq> 0 then None
      else let e = (if msrval AND 0x800 \<noteq> 0 then 1 else 0);
               fe = (if msrval AND 0x400 \<noteq> 0 then 1 else 0);
               type = ucast (msrval AND 0xFF)
           in if e \<noteq> 0 \<and> \<not> vmx_mtrr_checktype type then None else Some (e, fe, type))"

fun checkfixed_loop :: "u64 \<Rightarrow> nat \<Rightarrow> nat \<Rightarrow> bool" where
  "checkfixed_loop msrval i 0 = True"
| "checkfixed_loop msrval i (Suc n) =
     (if \<not> vmx_mtrr_checktype (ucast (ucast (drop_bit (i * 8) msrval) :: u8)) then False
      else checkfixed_loop msrval (Suc i) n)"

definition vmx_mtrr_checkfixed :: "u64 \<Rightarrow> bool" where
  "vmx_mtrr_checkfixed msrval = checkfixed_loop msrval 0 8"

definition vmx_mtrr_checkvariable :: "u64 \<Rightarrow> u64 \<Rightarrow> u64 \<Rightarrow> bool" where
  "vmx_mtrr_checkvariable paddrmask baseval maskval =
     (if baseval AND NOT (paddrmask OR 0xFF) \<noteq> 0 then False
      else if maskval AND NOT (paddrmask OR 0x800) \<noteq> 0 then False
      else let v = ucast (maskval AND 0x800) :: u32; type = ucast (baseval AND 0xFF)
           in \<not> (v \<noteq> 0 \<and> \<not> vmx_mtrr_checktype type))"

subsection \<open>Gathering the memory types\<close>

fun read_fixed :: "processor \<Rightarrow> fixed_mtrr_prop_t list \<Rightarrow> u64 list exec" where
  "read_fixed p [] = Some []"
| "read_fixed p (f # fs) = do {
     val \<leftarrow> Some (rdmsr64 p (prop_msr f));
     assert_c (vmx_mtrr_checkfixed val);
     vals \<leftarrow> read_fixed p fs;
     Some (val # vals)
   }"

fun read_variable :: "processor \<Rightarrow> u64 \<Rightarrow> nat \<Rightarrow> nat \<Rightarrow> guestvarmtrrmsrpair list \<Rightarrow> guestvarmtrrmsrpair list exec" where
  "read_variable p paddrmask i 0 ms = Some ms"
| "read_variable p paddrmask i (Suc n) ms = do {
     baseval \<leftarrow> Some (rdmsr64 p (IA32_MTRR_PHYSBASE0 + 2 * of_nat i));
     maskval \<leftarrow> Some (rdmsr64 p (IA32_MTRR_PHYSMASK0 + 2 * of_nat i));
     assert_c (vmx_mtrr_checkvariable paddrmask baseval maskval);
     ms \<leftarrow> arr_upd ms (of_nat i) \<lparr>mtrr_base = baseval, mtrr_mask = maskval\<rparr>;
     read_variable p paddrmask (Suc i) n ms
   }"

definition vmx_gathermemorytypes :: "processor \<Rightarrow> 'x vcpu_ept_scheme \<Rightarrow> 'x vcpu_ept_scheme exec" where
  "vmx_gathermemorytypes p v = do {
     (eax, ebx, ecx, edx) \<leftarrow> Some (cpuid p 1);
     assert_c (edx AND push_bit 12 1 \<noteq> 0);
     eax \<leftarrow> Some (ucast (rdmsr64 p IA32_MTRRCAP) :: u32);
     num_vmtrrs \<leftarrow> Some (ucast (ucast eax :: u8) :: u32);
     v \<leftarrow> Some (v\<lparr>vmx_guestmtrrmsrs := (vmx_guestmtrrmsrs v)\<lparr>var_count := num_vmtrrs\<rparr>\<rparr>);
     assert_c (drop_bit 8 (eax AND push_bit 8 1) \<noteq> 0);
     assert_c (num_vmtrrs \<le> MAX_VARIABLE_MTRR_PAIRS);
     (eax, ebx, ecx, edx) \<leftarrow> Some (cpuid p 0x80000000);
     assert_c (eax \<ge> 0x80000008);
     (eax, ebx, ecx, edx) \<leftarrow> Some (cpuid p 0x80000008);
     eax \<leftarrow> Some (eax AND 0xFF);
     assert_c (eax \<ge> 32 \<and> eax < 64);
     v \<leftarrow> Some (v\<lparr>vmx_ept_paddrmask := push_bit (unat eax) 1 - 0x1000\<rparr>);
     msrval \<leftarrow> Some (rdmsr64 p IA32_MTRR_DEF_TYPE);
     v \<leftarrow> Some (v\<lparr>vmx_guestmtrrmsrs := (vmx_guestmtrrmsrs v)\<lparr>def_type := msrval\<rparr>\<rparr>);
     (e, fe, type) \<leftarrow> vmx_mtrr_checkdeftype msrval;
     v \<leftarrow> Some (v\<lparr>vmx_ept_mtrr_enable := e, vmx_ept_fixmtrr_enable := fe, vmx_ept_defaulttype := type\<rparr>);
     fixed \<leftarrow> read_fixed p fixed_mtrr_prop;
     v \<leftarrow> Some (v\<lparr>vmx_guestmtrrmsrs := (vmx_guestmtrrmsrs v)\<lparr>fix_mtrrs := fixed\<rparr>\<rparr>);
     variable \<leftarrow> read_variable p (vmx_ept_paddrmask v) 0 (unat num_vmtrrs) (var_mtrrs (vmx_guestmtrrmsrs v));
     Some (v\<lparr>vmx_guestmtrrmsrs := (vmx_guestmtrrmsrs v)\<lparr>var_mtrrs := variable\<rparr>\<rparr>)
   }"

subsection \<open>The memory type of a page\<close>

fun fixed_loop :: "u64 \<Rightarrow> fixed_mtrr_prop_t list \<Rightarrow> u64 list \<Rightarrow> u32 exec" where
  "fixed_loop pagebaseaddr (prop # props) (msrval # msrvals) =
     (if pagebaseaddr < ucast (prop_end prop) then
        let index = ucast ((ucast (prop_start prop) - pagebaseaddr) div ucast (prop_step prop)) :: u32
        in do { x \<leftarrow> shr_u64 msrval (index * 8); Some (ucast (ucast x :: u8)) }
      else fixed_loop pagebaseaddr props msrvals)"
| "fixed_loop pagebaseaddr props msrvals = None"

definition combine_types :: "u32 \<Rightarrow> u32 \<Rightarrow> u32 exec" where
  "combine_types prev_type cur_type =
     (if prev_type = MTRR_TYPE_RESV \<or> prev_type = cur_type then Some cur_type
      else if prev_type = MTRR_TYPE_UC \<or> cur_type = MTRR_TYPE_UC then Some MTRR_TYPE_UC
      else if prev_type = MTRR_TYPE_WB \<and> cur_type = MTRR_TYPE_WT then Some MTRR_TYPE_WT
      else if prev_type = MTRR_TYPE_WT \<and> cur_type = MTRR_TYPE_WB then Some MTRR_TYPE_WT
      else None)"

fun variable_loop :: "u64 \<Rightarrow> u32 \<Rightarrow> nat \<Rightarrow> guestvarmtrrmsrpair list \<Rightarrow> u32 exec" where
  "variable_loop pagebaseaddr prev_type 0 ms = Some prev_type"
| "variable_loop pagebaseaddr prev_type (Suc n) [] = None"
| "variable_loop pagebaseaddr prev_type (Suc n) (m # ms) =
     (let base = mtrr_base m; mask = mtrr_mask m; cur_type = ucast (base AND 0xFF)
      in if mask AND push_bit 11 1 = 0 then variable_loop pagebaseaddr prev_type n ms
         else let base = base AND NOT 0xFFF; mask = mask AND NOT 0xFFF
              in if pagebaseaddr AND mask \<noteq> base AND mask then variable_loop pagebaseaddr prev_type n ms
                 else do {
                   prev_type \<leftarrow> combine_types prev_type cur_type;
                   variable_loop pagebaseaddr prev_type n ms
                 })"

definition vmx_getmemorytypeforphysicalpage :: "'x vcpu_ept_scheme \<Rightarrow> u64 \<Rightarrow> u32 exec" where
  "vmx_getmemorytypeforphysicalpage v pagebaseaddr =
     (if vmx_ept_mtrr_enable v = 0 then Some MTRR_TYPE_UC
      else if pagebaseaddr < 0x100000 \<and> vmx_ept_fixmtrr_enable v \<noteq> 0 then
        fixed_loop pagebaseaddr fixed_mtrr_prop (fix_mtrrs (vmx_guestmtrrmsrs v))
      else do {
        prev_type \<leftarrow> variable_loop pagebaseaddr MTRR_TYPE_RESV
          (unat (var_count (vmx_guestmtrrmsrs v))) (var_mtrrs (vmx_guestmtrrmsrs v));
        Some (if prev_type = MTRR_TYPE_RESV then vmx_ept_defaulttype v else prev_type)
      })"

subsection \<open>The EPT\<close>

definition setupEPT_page :: "rpb \<Rightarrow> 'x vcpu_ept_scheme \<Rightarrow> u64 \<Rightarrow> memory \<Rightarrow> memory exec" where
  "setupEPT_page rpb v paddr m = do {
     pdp_table \<leftarrow> Some (hva2spa (vmx_vaddr_ept_pdp_table v));
     pd_table \<leftarrow> Some (hva2spa (vmx_vaddr_ept_pd_tables v));
     p_table \<leftarrow> Some (hva2spa (vmx_vaddr_ept_p_tables v));
     m \<leftarrow> Some (if take_bit 39 paddr = 0 then
         let i = drop_bit 39 paddr in pt_set m (vmx_vaddr_ept_pml4_table v) i ((pdp_table + push_bit 12 i) OR 7) else m);
     m \<leftarrow> Some (if take_bit 30 paddr = 0 then
         let i = drop_bit 30 paddr in pt_set m (vmx_vaddr_ept_pdp_table v) i ((pd_table + push_bit 12 i) OR 7) else m);
     m \<leftarrow> Some (if take_bit 21 paddr = 0 then
         let i = drop_bit 21 paddr in pt_set m (vmx_vaddr_ept_pd_tables v) i ((p_table + push_bit 12 i) OR 7) else m);
     memorytype \<leftarrow> vmx_getmemorytypeforphysicalpage v paddr;
     assert_c (vmx_mtrr_checktype memorytype);
     lower \<leftarrow> Some (if paddr \<ge> XtVmmRuntimePhysBase rpb - PA_PAGE_SIZE_2M
         \<and> paddr < XtVmmRuntimePhysBase rpb + XtVmmRuntimeSize rpb then 0 else 7);
     Some (pt_set m (vmx_vaddr_ept_p_tables v) (drop_bit 12 paddr) (paddr OR push_bit 3 (ucast memorytype) OR lower))
   }"

partial_function (option) setupEPT_loop ::
  "u64 \<Rightarrow> rpb \<Rightarrow> 'x vcpu_ept_scheme \<Rightarrow> u64 \<Rightarrow> memory \<Rightarrow> memory exec" where
  "setupEPT_loop MAX_PHYS_ADDR rpb v paddr m =
     (if paddr < MAX_PHYS_ADDR then do {
        m \<leftarrow> setupEPT_page rpb v paddr m;
        setupEPT_loop MAX_PHYS_ADDR rpb v (paddr + PA_PAGE_SIZE_4K) m
      }
      else Some m)"

definition vmx_setupEPT :: "u64 \<Rightarrow> rpb \<Rightarrow> 'x vcpu_ept_scheme \<Rightarrow> memory \<Rightarrow> memory exec" where
  "vmx_setupEPT MAX_PHYS_ADDR rpb v m = setupEPT_loop MAX_PHYS_ADDR rpb v 0 m"

partial_function (option) updateEPT_loop :: "'x vcpu_ept_scheme \<Rightarrow> u64 \<Rightarrow> u64 \<Rightarrow> memory \<Rightarrow> memory exec" where
  "updateEPT_loop v paddr end_addr m =
     (if paddr < end_addr then do {
        i \<leftarrow> Some (paddr div PA_PAGE_SIZE_4K);
        memorytype \<leftarrow> vmx_getmemorytypeforphysicalpage v paddr;
        assert_c (vmx_mtrr_checktype memorytype);
        m \<leftarrow> Some (pt_set m (vmx_vaddr_ept_p_tables v) i
               ((pt_get m (vmx_vaddr_ept_p_tables v) i AND NOT 0x38) OR push_bit 3 (ucast memorytype)));
        updateEPT_loop v (paddr + PA_PAGE_SIZE_4K) end_addr m
      }
      else Some m)"

definition vmx_updateEPT_memtype :: "'x vcpu_ept_scheme \<Rightarrow> u64 \<Rightarrow> u64 \<Rightarrow> memory \<Rightarrow> memory exec" where
  "vmx_updateEPT_memtype v start_addr end_addr m = do {
     assert_c (take_bit 12 start_addr = 0);
     assert_c (take_bit 12 end_addr = 0);
     updateEPT_loop v start_addr end_addr m
   }"

subsection \<open>Initialization\<close>

definition xmhf_memprot_arch_x86vmx_initialize ::
  "u64 \<Rightarrow> rpb \<Rightarrow> processor \<Rightarrow> 'x vcpu_ept_scheme \<Rightarrow> memory \<Rightarrow> ('x vcpu_ept_scheme \<times> memory) exec" where
  "xmhf_memprot_arch_x86vmx_initialize MAX_PHYS_ADDR rpb p v m = do {
     assert_c (cpu_vendor v = CPU_VENDOR_INTEL);
     v \<leftarrow> vmx_gathermemorytypes p v;
     m \<leftarrow> vmx_setupEPT MAX_PHYS_ADDR rpb v m;
     v \<leftarrow> Some (v\<lparr>vmcs := (vmcs v)\<lparr>control_VMX_seccpu_based := control_VMX_seccpu_based (vmcs v) OR push_bit 1 1\<rparr>\<rparr>);
     v \<leftarrow> Some (v\<lparr>vmcs := (vmcs v)\<lparr>control_VMX_seccpu_based := control_VMX_seccpu_based (vmcs v) OR push_bit 5 1\<rparr>\<rparr>);
     v \<leftarrow> Some (v\<lparr>vmcs := (vmcs v)\<lparr>control_vpid := 1\<rparr>\<rparr>);
     v \<leftarrow> Some (v\<lparr>vmcs := (vmcs v)\<lparr>control_EPT_pointer := hva2spa (vmx_vaddr_ept_pml4_table v) OR 0x1E\<rparr>\<rparr>);
     v \<leftarrow> Some (v\<lparr>vmcs := (vmcs v)\<lparr>control_VMX_cpu_based := control_VMX_cpu_based (vmcs v) AND NOT (push_bit 15 1)\<rparr>\<rparr>);
     v \<leftarrow> Some (v\<lparr>vmcs := (vmcs v)\<lparr>control_VMX_cpu_based := control_VMX_cpu_based (vmcs v) AND NOT (push_bit 16 1)\<rparr>\<rparr>);
     Some (v, m)
   }"

subsection \<open>Guest accesses to the MTRRs\<close>

fun fixed_index :: "u32 \<Rightarrow> nat \<Rightarrow> fixed_mtrr_prop_t list \<Rightarrow> nat option" where
  "fixed_index msr i [] = None"
| "fixed_index msr i (f # fs) = (if prop_msr f = msr then Some i else fixed_index msr (Suc i) fs)"

definition is_variable_msr :: "guestmtrrmsrs \<Rightarrow> u32 \<Rightarrow> bool" where
  "is_variable_msr g msr \<longleftrightarrow> IA32_MTRR_PHYSBASE0 \<le> msr \<and> msr \<le> IA32_MTRR_PHYSMASK0 + 2 * var_count g"

definition xmhf_memprot_arch_x86vmx_mtrr_read :: "'x vcpu_ept_scheme \<Rightarrow> u32 \<Rightarrow> u64 exec" where
  "xmhf_memprot_arch_x86vmx_mtrr_read v msr = (let g = vmx_guestmtrrmsrs v in
     if msr = IA32_MTRR_DEF_TYPE then Some (def_type g)
     else if is_variable_msr g msr then
       (if (msr - IA32_MTRR_PHYSBASE0) mod 2 = 0
        then map_option mtrr_base (arr_nth (var_mtrrs g) ((msr - IA32_MTRR_PHYSBASE0) div 2))
        else map_option mtrr_mask (arr_nth (var_mtrrs g) ((msr - IA32_MTRR_PHYSMASK0) div 2)))
     else do {
       i \<leftarrow> fixed_index msr 0 fixed_mtrr_prop;
       arr_nth (fix_mtrrs g) (of_nat i)
     })"

definition xmhf_memprot_arch_x86vmx_flushmappings_localtlb ::
  "bool \<Rightarrow> ('x vcpu_nested_scheme \<Rightarrow> u32 \<Rightarrow> 'x vcpu_nested_scheme exec) \<Rightarrow> 'x vcpu_nested_scheme \<Rightarrow> u32
    \<Rightarrow> 'x vcpu_nested_scheme exec" where
  "xmhf_memprot_arch_x86vmx_flushmappings_localtlb invept effect v flags = do {
     (if flags AND (MEMP_FLUSHTLB_ENTRY OR MEMP_FLUSHTLB_MT_ENTRY) \<noteq> 0 then assert_c invept else Some ());
     xmhf_nested_arch_x86vmx_flush_ept02 effect v flags
   }"

text \<open>The three kinds of MTRR: the new shadow state and whether the EPT needs no update; \<open>ERR\<close> is the return value 1,
  \<open>OK None\<close> an early return of 0 because the value does not change.\<close>

definition mtrr_write_default :: "'x vcpu_ept_scheme \<Rightarrow> u64 \<Rightarrow> ('x vcpu_ept_scheme \<times> bool) option ret" where
  "mtrr_write_default v val =
     (if val = def_type (vmx_guestmtrrmsrs v) then OK None
      else case vmx_mtrr_checkdeftype val of
        None \<Rightarrow> ERR
      | Some (e, fe, type) \<Rightarrow> OK (Some (v\<lparr>vmx_ept_mtrr_enable := e, vmx_ept_fixmtrr_enable := fe, vmx_ept_defaulttype := type,
          vmx_guestmtrrmsrs := (vmx_guestmtrrmsrs v)\<lparr>def_type := val\<rparr>\<rparr>, False)))"

definition mtrr_write_variable :: "'x vcpu_ept_scheme \<Rightarrow> u32 \<Rightarrow> u64 \<Rightarrow> ('x vcpu_ept_scheme \<times> bool) option ret exec" where
  "mtrr_write_variable v msr val = (let g = vmx_guestmtrrmsrs v in do {
     (index, baseval, maskval, same) \<leftarrow>
       (if (msr - IA32_MTRR_PHYSBASE0) mod 2 = 0 then do {
          index \<leftarrow> Some ((msr - IA32_MTRR_PHYSBASE0) div 2);
          cur \<leftarrow> arr_nth (var_mtrrs g) index;
          Some (index, val, mtrr_mask cur, val = mtrr_base cur)
        }
        else do {
          index \<leftarrow> Some ((msr - IA32_MTRR_PHYSMASK0) div 2);
          cur \<leftarrow> arr_nth (var_mtrrs g) index;
          Some (index, mtrr_base cur, val, val = mtrr_mask cur)
        });
     if same then Some (OK None)
     else if \<not> vmx_mtrr_checkvariable (vmx_ept_paddrmask v) baseval maskval then Some ERR
     else do {
       ms \<leftarrow> arr_upd (var_mtrrs g) index \<lparr>mtrr_base = baseval, mtrr_mask = maskval\<rparr>;
       Some (OK (Some (v\<lparr>vmx_guestmtrrmsrs := g\<lparr>var_mtrrs := ms\<rparr>\<rparr>, vmx_ept_mtrr_enable v = 0)))
     }
   })"

definition mtrr_write_fixed :: "'x vcpu_ept_scheme \<Rightarrow> u32 \<Rightarrow> u64 \<Rightarrow> ('x vcpu_ept_scheme \<times> bool) option ret exec" where
  "mtrr_write_fixed v msr val = (let g = vmx_guestmtrrmsrs v in
     if \<not> vmx_mtrr_checkfixed val then Some ERR
     else do {
       i \<leftarrow> fixed_index msr 0 fixed_mtrr_prop;
       cur \<leftarrow> arr_nth (fix_mtrrs g) (of_nat i);
       if val = cur then Some (OK None)
       else do {
         fs \<leftarrow> arr_upd (fix_mtrrs g) (of_nat i) val;
         Some (OK (Some (v\<lparr>vmx_guestmtrrmsrs := g\<lparr>fix_mtrrs := fs\<rparr>\<rparr>,
           vmx_ept_mtrr_enable v = 0 \<or> vmx_ept_fixmtrr_enable v = 0)))
       }
     })"

definition xmhf_memprot_arch_x86vmx_mtrr_write ::
  "u64 \<Rightarrow> ('x vcpu_ept_scheme \<Rightarrow> u32 \<Rightarrow> u64 \<Rightarrow> u32) \<Rightarrow> bool \<Rightarrow> ('x vcpu_ept_scheme \<Rightarrow> u32 \<Rightarrow> 'x vcpu_ept_scheme exec)
    \<Rightarrow> 'x vcpu_ept_scheme \<Rightarrow> u32 \<Rightarrow> u64 \<Rightarrow> memory \<Rightarrow> (unit ret \<times> 'x vcpu_ept_scheme \<times> memory) exec" where
  "xmhf_memprot_arch_x86vmx_mtrr_write MAX_PHYS_ADDR xmhf_app_handlemtrr invept effect v msr val m = do {
     oldval \<leftarrow> xmhf_memprot_arch_x86vmx_mtrr_read v msr;
     assert_c (xmhf_app_handlemtrr v msr val = APP_SUCCESS);
     r \<leftarrow> (if msr = IA32_MTRR_DEF_TYPE then Some (mtrr_write_default v val)
           else if is_variable_msr (vmx_guestmtrrmsrs v) msr then mtrr_write_variable v msr val
           else mtrr_write_fixed v msr val);
     case r of
       ERR \<Rightarrow> Some (ERR, v, m)
     | OK None \<Rightarrow> Some (OK (), v, m)
     | OK (Some (v, skip_ept_update)) \<Rightarrow>
         if \<not> skip_ept_update then do {
           m \<leftarrow> vmx_updateEPT_memtype v 0 MAX_PHYS_ADDR m;
           v \<leftarrow> xmhf_memprot_arch_x86vmx_flushmappings_localtlb invept effect v MEMP_FLUSHTLB_MT_ENTRY;
           Some (OK (), v, m)
         }
         else Some (OK (), v, m)
   }"

subsection \<open>Protection of a page\<close>

definition xmhf_memprot_arch_x86vmx_setprot :: "'x vcpu_ept_scheme \<Rightarrow> u64 \<Rightarrow> u32 \<Rightarrow> memory \<Rightarrow> memory" where
  "xmhf_memprot_arch_x86vmx_setprot v gpa prottype m =
     (let pfn = ucast ((ucast (ucast gpa :: u32) :: u64) div PAGE_SIZE_4K) :: u32;
          pt = vmx_vaddr_ept_p_tables v;
          m = pt_set m pt (ucast pfn) (pt_get m pt (ucast pfn) AND NOT 7);
          flags = (if prottype AND MEMP_PROT_PRESENT \<noteq> 0 then
                     let flags = 1;
                         flags = (if prottype AND MEMP_PROT_READWRITE \<noteq> 0 then flags OR 2 else flags)
                     in (if prottype AND MEMP_PROT_EXECUTE \<noteq> 0 then flags OR 4 else flags)
                   else 0) :: u32
      in pt_set m pt (ucast pfn) (pt_get m pt (ucast pfn) OR ucast flags))"

definition xmhf_memprot_arch_x86vmx_getprot :: "'x vcpu_ept_scheme \<Rightarrow> u64 \<Rightarrow> memory \<Rightarrow> u32" where
  "xmhf_memprot_arch_x86vmx_getprot v gpa m =
     (let pfn = ucast ((ucast (ucast gpa :: u32) :: u64) div PAGE_SIZE_4K) :: u32;
          entry = pt_get m (vmx_vaddr_ept_p_tables v) (ucast pfn)
      in if entry AND 1 = 0 then MEMP_PROT_NOTPRESENT
         else let prottype = MEMP_PROT_PRESENT;
                  prottype = (if entry AND 2 \<noteq> 0 then prottype OR MEMP_PROT_READWRITE else prottype OR MEMP_PROT_READONLY)
              in (if entry AND 4 \<noteq> 0 then prottype OR MEMP_PROT_EXECUTE else prottype OR MEMP_PROT_NOEXECUTE))"

definition xmhf_memprot_arch_x86vmx_get_EPTP :: "'x vcpu_scheme \<Rightarrow> u64 exec" where
  "xmhf_memprot_arch_x86vmx_get_EPTP v = do {
     assert_c (cpu_vendor v = CPU_VENDOR_INTEL);
     Some (control_EPT_pointer (vmcs v))
   }"

definition xmhf_memprot_arch_x86vmx_set_EPTP :: "'x vcpu_scheme \<Rightarrow> u64 \<Rightarrow> 'x vcpu_scheme exec" where
  "xmhf_memprot_arch_x86vmx_set_EPTP v eptp = do {
     assert_c (cpu_vendor v = CPU_VENDOR_INTEL);
     Some (v\<lparr>vmcs := (vmcs v)\<lparr>control_EPT_pointer := eptp\<rparr>\<rparr>)
   }"

definition xmhf_is_mhv_memory :: "rpb \<Rightarrow> u64 \<Rightarrow> bool" where
  "xmhf_is_mhv_memory rpb spa =
     (let base = XtVmmRuntimePhysBase rpb; sz = XtVmmRuntimeSize rpb
      in spa \<ge> base \<and> spa < base + sz)"

subsection \<open>Validity of the shadow MTRRs\<close>

definition mtrr_ok :: "'x vcpu_ept_scheme \<Rightarrow> bool" where
  "mtrr_ok v \<longleftrightarrow> (let g = vmx_guestmtrrmsrs v in
     length (fix_mtrrs g) = NUM_FIXED_MTRRS \<and> (\<forall>f \<in> set (fix_mtrrs g). vmx_mtrr_checkfixed f)
     \<and> var_count g \<le> MAX_VARIABLE_MTRR_PAIRS \<and> length (var_mtrrs g) = unat MAX_VARIABLE_MTRR_PAIRS
     \<and> (\<forall>i < unat (var_count g). vmx_mtrr_checkvariable (vmx_ept_paddrmask v) (mtrr_base (var_mtrrs g ! i)) (mtrr_mask (var_mtrrs g ! i)))
     \<and> vmx_mtrr_checkdeftype (def_type g) = Some (vmx_ept_mtrr_enable v, vmx_ept_fixmtrr_enable v, vmx_ept_defaulttype v))"

lemma read_fixed_ok:
  "read_fixed p fs = Some xs \<Longrightarrow> length xs = length fs \<and> (\<forall>x \<in> set xs. vmx_mtrr_checkfixed x)"
  by (induction p fs arbitrary: xs rule: read_fixed.induct) (auto simp: bind_eq_Some_conv)

lemma read_variable_ok:
  "read_variable p pm i n ms = Some ms' \<Longrightarrow> i + n < 2 ^ 32 \<Longrightarrow>
   length ms' = length ms \<and> (\<forall>j. (i \<le> j \<and> j < i + n \<longrightarrow> vmx_mtrr_checkvariable pm (mtrr_base (ms' ! j)) (mtrr_mask (ms' ! j)))
     \<and> (j < i \<longrightarrow> ms' ! j = ms ! j))"
proof (induction p pm i n ms rule: read_variable.induct)
  case (2 p pm i n ms)
  let ?b = "rdmsr64 p (IA32_MTRR_PHYSBASE0 + 2 * of_nat i)" and ?m = "rdmsr64 p (IA32_MTRR_PHYSMASK0 + 2 * of_nat i)"
  have u: "unat (of_nat i :: u32) = i" using "2.prems"(2) by (simp add: unat_of_nat)
  obtain ms1 where c: "vmx_mtrr_checkvariable pm ?b ?m" and ms1: "arr_upd ms (of_nat i) \<lparr>mtrr_base = ?b, mtrr_mask = ?m\<rparr> = Some ms1"
    and r: "read_variable p pm (Suc i) n ms1 = Some ms'"
    using "2.prems"(1) by (auto simp: bind_eq_Some_conv)
  have m: "ms1 = ms[i := \<lparr>mtrr_base = ?b, mtrr_mask = ?m\<rparr>]" "i < length ms"
    using ms1 u by (auto simp: arr_upd_def split: if_splits)
  have IH: "length ms' = length ms1 \<and> (\<forall>j. (Suc i \<le> j \<and> j < Suc i + n \<longrightarrow>
      vmx_mtrr_checkvariable pm (mtrr_base (ms' ! j)) (mtrr_mask (ms' ! j))) \<and> (j < Suc i \<longrightarrow> ms' ! j = ms1 ! j))"
    using "2.IH" [OF refl refl _ ms1 r] c "2.prems"(2) by simp
  show ?case
  proof (intro conjI allI impI)
    show "length ms' = length ms" using IH m by simp
    show "ms' ! j = ms ! j" if "j < i" for j using IH m that by simp
    show "vmx_mtrr_checkvariable pm (mtrr_base (ms' ! j)) (mtrr_mask (ms' ! j))" if "i \<le> j \<and> j < i + Suc n" for j
      using IH m c that by (cases "j = i") auto
  qed
qed auto

lemma checkdeftype_type: "vmx_mtrr_checkdeftype x = Some (e, fe, t) \<Longrightarrow> e \<noteq> 0 \<Longrightarrow> vmx_mtrr_checktype t"
  by (auto simp: vmx_mtrr_checkdeftype_def Let_def split: if_splits)

lemma gather_ok:
  assumes "vmx_gathermemorytypes p v = Some v'" "length (var_mtrrs (vmx_guestmtrrmsrs v)) = unat MAX_VARIABLE_MTRR_PAIRS"
  shows "mtrr_ok v'"
proof -
  obtain n pm e fe t fixed ms where v': "vmx_ept_paddrmask v' = pm" "vmx_ept_mtrr_enable v' = e" "vmx_ept_fixmtrr_enable v' = fe"
      "vmx_ept_defaulttype v' = t" "def_type (vmx_guestmtrrmsrs v') = rdmsr64 p IA32_MTRR_DEF_TYPE" "fix_mtrrs (vmx_guestmtrrmsrs v') = fixed"
      "var_count (vmx_guestmtrrmsrs v') = n" "var_mtrrs (vmx_guestmtrrmsrs v') = ms"
    and n: "n \<le> MAX_VARIABLE_MTRR_PAIRS" and d: "vmx_mtrr_checkdeftype (rdmsr64 p IA32_MTRR_DEF_TYPE) = Some (e, fe, t)"
    and f: "read_fixed p fixed_mtrr_prop = Some fixed"
    and r: "read_variable p pm 0 (unat n) (var_mtrrs (vmx_guestmtrrmsrs v)) = Some ms"
    using assms(1) by (auto simp: vmx_gathermemorytypes_def bind_eq_Some_conv split: prod.splits)
  have "unat n \<le> 10" using n by (simp add: word_le_nat_alt)
  then show ?thesis
    using read_fixed_ok [OF f] read_variable_ok [OF r] d n assms(2)
    unfolding mtrr_ok_def Let_def v' by (simp add: fixed_mtrr_prop_def)
qed

subsection \<open>Reading back a written MTRR\<close>

lemma variable_msr_index:
  assumes "mtrr_ok v" "is_variable_msr (vmx_guestmtrrmsrs v) msr"
  shows "unat ((msr - IA32_MTRR_PHYSBASE0) div 2) \<le> unat (var_count (vmx_guestmtrrmsrs v))"
    "(msr - IA32_MTRR_PHYSBASE0) mod 2 \<noteq> 0 \<Longrightarrow> (msr - IA32_MTRR_PHYSMASK0) div 2 = (msr - IA32_MTRR_PHYSBASE0) div 2"
    "msr \<noteq> IA32_MTRR_DEF_TYPE"
proof -
  define n where "n = var_count (vmx_guestmtrrmsrs v)"
  have n: "unat n \<le> 10" using assms(1) by (simp add: mtrr_ok_def Let_def word_le_nat_alt n_def)
  have "unat (2 * n) = 2 * unat n" using n by (subst unat_mult_lem [THEN iffD1]) simp_all
  then have "unat (0x201 + 2 * n) = 0x201 + 2 * unat n" using n by (subst unat_add_lem [THEN iffD1]) simp_all
  then have msr: "0x200 \<le> unat msr" "unat msr \<le> 0x201 + 2 * unat n"
    using assms(2) by (simp_all add: is_variable_msr_def word_le_nat_alt n_def)
  define q where "q = msr - IA32_MTRR_PHYSBASE0"
  have q: "unat q = unat msr - 0x200" using msr(1) by (simp add: q_def unat_sub word_le_nat_alt)
  show "unat ((msr - IA32_MTRR_PHYSBASE0) div 2) \<le> unat (var_count (vmx_guestmtrrmsrs v))"
    using q msr unfolding n_def [symmetric] q_def [symmetric] by (simp add: unat_div)
  show "msr \<noteq> IA32_MTRR_DEF_TYPE" using msr n by auto
  assume "(msr - IA32_MTRR_PHYSBASE0) mod 2 \<noteq> 0"
  then have "unat q mod 2 = 1" unfolding q_def [symmetric] by (simp add: word_unat_eq_iff unat_mod)
  moreover from this have "unat (q - 1) = unat q - 1" by (intro unat_minus_one) auto
  ultimately have "(q - 1) div 2 = q div 2" by (simp add: word_unat_eq_iff unat_div) presburger
  moreover have "msr - IA32_MTRR_PHYSMASK0 = q - 1" by (simp add: q_def)
  ultimately show "(msr - IA32_MTRR_PHYSMASK0) div 2 = (msr - IA32_MTRR_PHYSBASE0) div 2" unfolding q_def [symmetric] by simp
qed

lemma variable_msr_inj:
  fixes msr msr' :: u32
  assumes "(msr - IA32_MTRR_PHYSBASE0) div 2 = (msr' - IA32_MTRR_PHYSBASE0) div 2"
    "(msr - IA32_MTRR_PHYSBASE0) mod 2 = (msr' - IA32_MTRR_PHYSBASE0) mod 2"
  shows "msr = msr'"
proof -
  let ?q = "msr - IA32_MTRR_PHYSBASE0" and ?q' = "msr' - IA32_MTRR_PHYSBASE0"
  have "?q = ?q div 2 * 2 + ?q mod 2" by (rule div_mult_mod_eq [symmetric])
  also have "\<dots> = ?q' div 2 * 2 + ?q' mod 2" by (simp only: assms)
  also have "\<dots> = ?q'" by (rule div_mult_mod_eq)
  finally show ?thesis by simp
qed

lemma fixed_index_Some:
  "fixed_index msr i fs = Some r \<Longrightarrow> i \<le> r \<and> r < i + length fs \<and> prop_msr (fs ! (r - i)) = msr"
  by (induction msr i fs rule: fixed_index.induct) (auto simp: nth_Cons' Suc_diff_le split: if_splits)

lemma arr_nth_upd:
  "arr_upd xs i x = Some ys \<Longrightarrow> arr_nth ys j = (if j = i then Some x else arr_nth xs j) \<and> length ys = length xs"
  by (auto simp: arr_upd_def arr_nth_def word_unat_eq_iff split: if_splits)

text \<open>What a successful write leaves in the shadow registers.\<close>

definition mtrr_written :: "'x vcpu_ept_scheme \<Rightarrow> u32 \<Rightarrow> u64 \<Rightarrow> 'x vcpu_ept_scheme \<Rightarrow> bool" where
  "mtrr_written v msr val v' \<longleftrightarrow> mtrr_ok v' \<and>
     (\<forall>msr'. xmhf_memprot_arch_x86vmx_mtrr_read v' msr' = (if msr' = msr then Some val else xmhf_memprot_arch_x86vmx_mtrr_read v msr'))"

lemma write_default_ok:
  assumes "mtrr_ok v" "mtrr_write_default v val = OK (Some (v', skip))"
  shows "mtrr_written v IA32_MTRR_DEF_TYPE val v'"
proof -
  obtain e fe t where c: "vmx_mtrr_checkdeftype val = Some (e, fe, t)"
    and v': "v' = v\<lparr>vmx_ept_mtrr_enable := e, vmx_ept_fixmtrr_enable := fe, vmx_ept_defaulttype := t,
       vmx_guestmtrrmsrs := (vmx_guestmtrrmsrs v)\<lparr>def_type := val\<rparr>\<rparr>"
    using assms(2) by (auto simp: mtrr_write_default_def split: if_splits option.splits)
  have "is_variable_msr (vmx_guestmtrrmsrs v') msr = is_variable_msr (vmx_guestmtrrmsrs v) msr" for msr
    by (simp add: is_variable_msr_def v')
  then show ?thesis using assms(1) c
    by (auto simp: mtrr_written_def v' mtrr_ok_def Let_def xmhf_memprot_arch_x86vmx_mtrr_read_def)
qed

lemma write_variable_ok:
  assumes ok: "mtrr_ok v" and var: "is_variable_msr (vmx_guestmtrrmsrs v) msr"
    and w: "mtrr_write_variable v msr val = Some (OK (Some (v', skip)))"
  shows "mtrr_written v msr val v'"
proof -
  let ?g = "vmx_guestmtrrmsrs v"
  define q where "q = (msr - IA32_MTRR_PHYSBASE0) div 2"
  note idx = variable_msr_index [OF ok var]
  obtain cur b m ms where cur: "arr_nth (var_mtrrs ?g) q = Some cur"
    and bm: "(b, m) = (if (msr - IA32_MTRR_PHYSBASE0) mod 2 = 0 then (val, mtrr_mask cur) else (mtrr_base cur, val))"
    and c: "vmx_mtrr_checkvariable (vmx_ept_paddrmask v) b m"
    and ms: "arr_upd (var_mtrrs ?g) q \<lparr>mtrr_base = b, mtrr_mask = m\<rparr> = Some ms"
    and v': "v' = v\<lparr>vmx_guestmtrrmsrs := ?g\<lparr>var_mtrrs := ms\<rparr>\<rparr>"
    using w idx(2) unfolding mtrr_write_variable_def Let_def q_def
    by (auto simp: bind_eq_Some_conv split: if_splits)
  note upd = arr_nth_upd [OF ms]
  have v_count: "is_variable_msr (vmx_guestmtrrmsrs v') msr' = is_variable_msr ?g msr'" for msr'
    by (simp add: is_variable_msr_def v')
  have ok': "mtrr_ok v'"
  proof -
    have "vmx_mtrr_checkvariable (vmx_ept_paddrmask v) (mtrr_base (ms ! i)) (mtrr_mask (ms ! i))"
      if "i < unat (var_count ?g)" for i
      using ok c ms that by (cases "i = unat q") (auto simp: mtrr_ok_def Let_def arr_upd_def split: if_splits)
    then show ?thesis using ok upd unfolding v' by (simp add: mtrr_ok_def Let_def)
  qed
  have "xmhf_memprot_arch_x86vmx_mtrr_read v' msr' = (if msr' = msr then Some val else xmhf_memprot_arch_x86vmx_mtrr_read v msr')" for msr'
  proof (cases "is_variable_msr ?g msr'")
    case False
    then show ?thesis using v_count var by (auto simp: xmhf_memprot_arch_x86vmx_mtrr_read_def Let_def v')
  next
    case True
    note idx' = variable_msr_index [OF ok True]
    let ?q = "(msr' - IA32_MTRR_PHYSBASE0) div 2"
    have r: "xmhf_memprot_arch_x86vmx_mtrr_read x msr' = map_option (if (msr' - IA32_MTRR_PHYSBASE0) mod 2 = 0 then mtrr_base else mtrr_mask)
        (arr_nth (var_mtrrs (vmx_guestmtrrmsrs x)) ?q)" if "is_variable_msr (vmx_guestmtrrmsrs x) msr'" for x :: "'a vcpu_ept_scheme"
      using that idx'(2,3) by (auto simp: xmhf_memprot_arch_x86vmx_mtrr_read_def Let_def)
    show ?thesis
    proof (cases "?q = q")
      case False
      then show ?thesis using r [of v'] r [of v] True v_count upd by (auto simp: v' q_def)
    next
      case q: True
      show ?thesis
      proof (cases "msr' = msr")
        case True
        then show ?thesis using r [of v'] \<open>is_variable_msr ?g msr'\<close> v_count upd q bm by (auto simp: v' split: if_splits)
      next
        case False
        then have "(msr' - IA32_MTRR_PHYSBASE0) mod 2 \<noteq> (msr - IA32_MTRR_PHYSBASE0) mod 2"
          using variable_msr_inj q by (metis q_def)
        then show ?thesis using r [of v'] r [of v] True v_count upd cur q bm False
          by (auto simp: v' split: if_splits)
      qed
    qed
  qed
  then show ?thesis using ok' by (simp add: mtrr_written_def)
qed


lemma fixed_index_other:
  "fixed_index msr i fixed_mtrr_prop = Some r \<Longrightarrow> fixed_index msr' i fixed_mtrr_prop = Some r \<Longrightarrow> msr' = msr"
  using fixed_index_Some [of msr i fixed_mtrr_prop r] fixed_index_Some [of msr' i fixed_mtrr_prop r] by simp

lemma fixed_index_less: "fixed_index msr 0 fixed_mtrr_prop = Some r \<Longrightarrow> r < NUM_FIXED_MTRRS"
  using fixed_index_Some [of msr 0 fixed_mtrr_prop r] by (simp add: fixed_mtrr_prop_def)

lemma write_fixed_ok:
  assumes ok: "mtrr_ok v" and msr: "\<not> is_variable_msr (vmx_guestmtrrmsrs v) msr" "msr \<noteq> IA32_MTRR_DEF_TYPE"
    and w: "mtrr_write_fixed v msr val = Some (OK (Some (v', skip)))"
  shows "mtrr_written v msr val v'"
proof -
  let ?g = "vmx_guestmtrrmsrs v"
  obtain i fs where c: "vmx_mtrr_checkfixed val" and i: "fixed_index msr 0 fixed_mtrr_prop = Some i"
    and fs: "arr_upd (fix_mtrrs ?g) (of_nat i) val = Some fs" and v': "v' = v\<lparr>vmx_guestmtrrmsrs := ?g\<lparr>fix_mtrrs := fs\<rparr>\<rparr>"
    using w by (auto simp: mtrr_write_fixed_def Let_def bind_eq_Some_conv split: if_splits)
  note upd = arr_nth_upd [OF fs]
  have "set fs \<subseteq> insert val (set (fix_mtrrs ?g))"
    using fs by (auto simp: arr_upd_def dest: set_update_subset_insert [THEN subsetD] split: if_splits)
  then have "mtrr_ok v'" using ok c upd unfolding v' by (auto simp: mtrr_ok_def Let_def)
  moreover have "xmhf_memprot_arch_x86vmx_mtrr_read v' msr' = (if msr' = msr then Some val else xmhf_memprot_arch_x86vmx_mtrr_read v msr')" for msr'
  proof -
    have "(of_nat j :: u32) = of_nat i \<longleftrightarrow> msr' = msr" if "fixed_index msr' 0 fixed_mtrr_prop = Some j" for j
    proof -
      have "unat (of_nat j :: u32) = j" "unat (of_nat i :: u32) = i"
        using fixed_index_less [OF that] fixed_index_less [OF i] by (simp_all add: unat_of_nat)
      then have "(of_nat j :: u32) = of_nat i \<longleftrightarrow> j = i" by (simp add: word_unat_eq_iff)
      moreover have "j = i \<longleftrightarrow> msr' = msr"
      proof
        assume "j = i"
        with that show "msr' = msr" by (intro fixed_index_other [OF i]) simp
      qed (use that i in simp)
      ultimately show ?thesis by simp
    qed
    moreover have "is_variable_msr (?g\<lparr>fix_mtrrs := fs\<rparr>) msr' = is_variable_msr ?g msr'" by (simp add: is_variable_msr_def)
    ultimately show ?thesis using msr i upd
      by (cases "fixed_index msr' 0 fixed_mtrr_prop") (auto simp: v' xmhf_memprot_arch_x86vmx_mtrr_read_def Let_def)
  qed
  ultimately show ?thesis by (simp add: mtrr_written_def)
qed

lemma write_same:
  assumes "mtrr_ok v"
  shows "mtrr_write_default v val = OK None \<Longrightarrow> xmhf_memprot_arch_x86vmx_mtrr_read v IA32_MTRR_DEF_TYPE = Some val"
    and "is_variable_msr (vmx_guestmtrrmsrs v) msr \<Longrightarrow> mtrr_write_variable v msr val = Some (OK None) \<Longrightarrow>
      xmhf_memprot_arch_x86vmx_mtrr_read v msr = Some val"
    and "\<not> is_variable_msr (vmx_guestmtrrmsrs v) msr \<Longrightarrow> msr \<noteq> IA32_MTRR_DEF_TYPE \<Longrightarrow> mtrr_write_fixed v msr val = Some (OK None) \<Longrightarrow>
      xmhf_memprot_arch_x86vmx_mtrr_read v msr = Some val"
proof -
  show "mtrr_write_default v val = OK None \<Longrightarrow> xmhf_memprot_arch_x86vmx_mtrr_read v IA32_MTRR_DEF_TYPE = Some val"
    by (auto simp: mtrr_write_default_def xmhf_memprot_arch_x86vmx_mtrr_read_def split: if_splits option.splits)
  show "xmhf_memprot_arch_x86vmx_mtrr_read v msr = Some val"
    if "is_variable_msr (vmx_guestmtrrmsrs v) msr" "mtrr_write_variable v msr val = Some (OK None)"
    using that variable_msr_index(3) [OF assms that(1)]
    by (auto simp: mtrr_write_variable_def xmhf_memprot_arch_x86vmx_mtrr_read_def Let_def bind_eq_Some_conv split: if_splits)
  show "xmhf_memprot_arch_x86vmx_mtrr_read v msr = Some val"
    if "\<not> is_variable_msr (vmx_guestmtrrmsrs v) msr" "msr \<noteq> IA32_MTRR_DEF_TYPE" "mtrr_write_fixed v msr val = Some (OK None)"
    using that by (auto simp: mtrr_write_fixed_def xmhf_memprot_arch_x86vmx_mtrr_read_def Let_def bind_eq_Some_conv split: if_splits)
qed

lemma effect_mt_entry: "xmhf_nested_arch_x86vmx_flush_ept02_effect d r v MEMP_FLUSHTLB_MT_ENTRY = Some v"
  by (simp add: xmhf_nested_arch_x86vmx_flush_ept02_effect_def)

lemma flush_mt_entry:
  assumes "xmhf_memprot_arch_x86vmx_flushmappings_localtlb invept (xmhf_nested_arch_x86vmx_flush_ept02_effect d r) v MEMP_FLUSHTLB_MT_ENTRY = Some v'"
  shows "v' = v \<or> v' = v\<lparr>vmx_nested_ept02_flush_visited := vmx_nested_ept02_flush_visited v OR MEMP_FLUSHTLB_MT_ENTRY\<rparr>"
  using assms by (auto simp: xmhf_memprot_arch_x86vmx_flushmappings_localtlb_def xmhf_nested_arch_x86vmx_flush_ept02_def
      effect_mt_entry bind_eq_Some_conv split: if_splits)

lemma mtrr_written_flush:
  "mtrr_written v msr val (v'\<lparr>vmx_nested_ept02_flush_visited := x\<rparr>) = mtrr_written v msr val v'"
  by (simp add: mtrr_written_def mtrr_ok_def xmhf_memprot_arch_x86vmx_mtrr_read_def)

lemma mtrr_written_refl:
  "mtrr_ok v \<Longrightarrow> xmhf_memprot_arch_x86vmx_mtrr_read v msr = Some val \<Longrightarrow> mtrr_written v msr val v"
  by (simp add: mtrr_written_def)

definition mtrr_write_shadow :: "'x vcpu_ept_scheme \<Rightarrow> u32 \<Rightarrow> u64 \<Rightarrow> ('x vcpu_ept_scheme \<times> bool) option ret exec" where
  "mtrr_write_shadow v msr val =
     (if msr = IA32_MTRR_DEF_TYPE then Some (mtrr_write_default v val)
      else if is_variable_msr (vmx_guestmtrrmsrs v) msr then mtrr_write_variable v msr val
      else mtrr_write_fixed v msr val)"

lemma write_shadow_ok:
  assumes ok: "mtrr_ok v" and w: "mtrr_write_shadow v msr val = Some (OK (Some (v', skip)))"
  shows "mtrr_written v msr val v'"
  using w write_default_ok [OF ok, of val v' skip] write_variable_ok [OF ok, of msr val v' skip] write_fixed_ok [OF ok, of msr val v' skip]
  by (auto simp: mtrr_write_shadow_def split: if_splits)

text \<open>A write of the shadow registers changes nothing else, and when the EPT is not updated, no memory type changes.\<close>

lemma write_shadow_frame:
  assumes "mtrr_write_shadow v msr val = Some (OK (Some (v', skip)))"
  shows "vmcs v' = vmcs v" "vmx_vaddr_ept_pml4_table v' = vmx_vaddr_ept_pml4_table v" "vmx_vaddr_ept_pdp_table v' = vmx_vaddr_ept_pdp_table v"
    "vmx_vaddr_ept_pd_tables v' = vmx_vaddr_ept_pd_tables v" "vmx_vaddr_ept_p_tables v' = vmx_vaddr_ept_p_tables v"
  using assms
  by (auto simp: mtrr_write_shadow_def mtrr_write_default_def mtrr_write_variable_def mtrr_write_fixed_def Let_def
      bind_eq_Some_conv split: if_splits option.splits)

lemma write_shadow_skip:
  assumes "mtrr_write_shadow v msr val = Some (OK (Some (v', True)))"
  shows "vmx_getmemorytypeforphysicalpage v' = vmx_getmemorytypeforphysicalpage v"
  using assms
  by (auto simp: fun_eq_iff vmx_getmemorytypeforphysicalpage_def mtrr_write_shadow_def mtrr_write_default_def mtrr_write_variable_def
      mtrr_write_fixed_def Let_def bind_eq_Some_conv cong: if_cong split: if_splits option.splits)

lemma write_shadow_same:
  "mtrr_ok v \<Longrightarrow> mtrr_write_shadow v msr val = Some (OK None) \<Longrightarrow> xmhf_memprot_arch_x86vmx_mtrr_read v msr = Some val"
  using write_same by (auto simp: mtrr_write_shadow_def split: if_splits)

text \<open>The paths of a write: refused, nothing to do, or written, with the EPT updated unless that is not needed.\<close>

lemma mtrr_write_cases:
  assumes ok: "mtrr_ok v"
    and w: "xmhf_memprot_arch_x86vmx_mtrr_write mx app invept (xmhf_nested_arch_x86vmx_flush_ept02_effect d r) v msr val m = Some (ret, v', m')"
  obtains (refused) "ret = ERR" "v' = v" "m' = m"
  | (same) "ret = OK ()" "v' = v" "m' = m" "xmhf_memprot_arch_x86vmx_mtrr_read v msr = Some val"
  | (skipped) "ret = OK ()" "mtrr_written v msr val v'" "m' = m" "mtrr_write_shadow v msr val = Some (OK (Some (v', True)))"
  | (updated) v1 where "ret = OK ()" "mtrr_written v msr val v1" "mtrr_write_shadow v msr val = Some (OK (Some (v1, False)))"
      "vmx_updateEPT_memtype v1 0 mx m = Some m'"
      "v' = v1 \<or> v' = v1\<lparr>vmx_nested_ept02_flush_visited := vmx_nested_ept02_flush_visited v1 OR MEMP_FLUSHTLB_MT_ENTRY\<rparr>"
proof -
  obtain res where res: "mtrr_write_shadow v msr val = Some res"
    and rest: "(case res of ERR \<Rightarrow> Some (ERR, v, m) | OK None \<Rightarrow> Some (OK (), v, m)
       | OK (Some (v1, skip)) \<Rightarrow> if \<not> skip then do {
           m \<leftarrow> vmx_updateEPT_memtype v1 0 mx m;
           v2 \<leftarrow> xmhf_memprot_arch_x86vmx_flushmappings_localtlb invept (xmhf_nested_arch_x86vmx_flush_ept02_effect d r) v1 MEMP_FLUSHTLB_MT_ENTRY;
           Some (OK (), v2, m) } else Some (OK (), v1, m)) = Some (ret, v', m')"
    using w unfolding xmhf_memprot_arch_x86vmx_mtrr_write_def mtrr_write_shadow_def [symmetric] by (auto simp: bind_eq_Some_conv)
  show ?thesis
  proof (cases res)
    case ERR
    then show ?thesis using rest refused by simp
  next
    case (OK o1)
    show ?thesis
    proof (cases o1)
      case None
      then show ?thesis using rest res OK same write_shadow_same [OF ok, of msr val] by simp
    next
      case (Some p)
      obtain v1 skip where p: "p = (v1, skip)" by (cases p)
      have sh: "mtrr_write_shadow v msr val = Some (OK (Some (v1, skip)))" using res OK Some p by simp
      show ?thesis
      proof (cases skip)
        case True
        then show ?thesis using rest OK Some p skipped write_shadow_ok [OF ok sh] sh by simp
      next
        case False
        then obtain v2 where u: "vmx_updateEPT_memtype v1 0 mx m = Some m'" "ret = OK ()" "v' = v2"
          "xmhf_memprot_arch_x86vmx_flushmappings_localtlb invept (xmhf_nested_arch_x86vmx_flush_ept02_effect d r) v1 MEMP_FLUSHTLB_MT_ENTRY = Some v2"
          using rest OK Some p by (auto simp: bind_eq_Some_conv)
        have "mtrr_write_shadow v msr val = Some (OK (Some (v1, False)))" using sh False by simp
        from updated [OF u(2) write_shadow_ok [OF ok sh] this u(1)] show ?thesis using flush_mt_entry [OF u(4)] u(3) by simp
      qed
    qed
  qed
qed

subsection \<open>Precedence of the variable MTRRs\<close>

text \<open>The types of the variable MTRRs that cover an address.\<close>

definition covers :: "u64 \<Rightarrow> guestvarmtrrmsrpair \<Rightarrow> bool" where
  "covers addr r \<longleftrightarrow> bit (mtrr_mask r) 11 \<and> (\<forall>n \<ge> 12. bit (mtrr_mask r) n \<longrightarrow> bit addr n = bit (mtrr_base r) n)"

definition covering_types :: "u64 \<Rightarrow> guestvarmtrrmsrpair list \<Rightarrow> u32 list" where
  "covering_types addr rs = map (\<lambda>r. ucast (mtrr_base r AND 0xFF)) (filter (covers addr) rs)"

text \<open>The rule of the comment before \<open>_vmx_getmemorytypeforphysicalpage\<close>.\<close>

definition mtrr_precedence :: "u32 \<Rightarrow> u32 list \<Rightarrow> u32 exec" where
  "mtrr_precedence def ts =
     (if ts = [] then Some def
      else if \<forall>t \<in> set ts. t = hd ts then Some (hd ts)
      else if MTRR_TYPE_UC \<in> set ts then Some MTRR_TYPE_UC
      else if set ts \<subseteq> {MTRR_TYPE_WB, MTRR_TYPE_WT} then Some MTRR_TYPE_WT
      else None)"

fun combine_all :: "u32 \<Rightarrow> u32 list \<Rightarrow> u32 exec" where
  "combine_all prev [] = Some prev"
| "combine_all prev (t # ts) = do { prev \<leftarrow> combine_types prev t; combine_all prev ts }"

lemma combine_all_valid:
  "combine_all prev ts = Some q \<Longrightarrow> vmx_mtrr_checktype prev \<Longrightarrow> \<forall>t \<in> set ts. vmx_mtrr_checktype t \<Longrightarrow> vmx_mtrr_checktype q"
proof (induction ts arbitrary: prev)
  case (Cons t ts)
  obtain p where p: "combine_types prev t = Some p" "combine_all p ts = Some q" using Cons.prems(1) by (auto simp: bind_eq_Some_conv)
  have "vmx_mtrr_checktype p" using p(1) Cons.prems(2,3) by (auto simp: combine_types_def vmx_mtrr_checktype_def split: if_splits)
  with Cons.IH [OF p(2)] Cons.prems(3) show ?case by simp
qed simp

lemma page_mask: "bit (NOT 0xFFF :: u64) n \<longleftrightarrow> n < 64 \<and> 12 \<le> n"
proof -
  have "(NOT 0xFFF :: u64) = NOT (mask 12)" by (simp add: mask_eq_exp_minus_1)
  then show ?thesis by (simp only: bit_simps) auto
qed

lemma covers_iff [code]:
  "covers addr r \<longleftrightarrow> mtrr_mask r AND push_bit 11 1 \<noteq> 0
     \<and> addr AND (mtrr_mask r AND NOT 0xFFF) = (mtrr_base r AND NOT 0xFFF) AND (mtrr_mask r AND NOT 0xFFF)"
proof -
  have "mtrr_mask r AND push_bit 11 1 \<noteq> 0 \<longleftrightarrow> bit (mtrr_mask r) 11"
    using and_exp_eq_0_iff_not_bit [of "mtrr_mask r" 11] by (simp add: push_bit_eq_mult)
  moreover have "addr AND (mtrr_mask r AND NOT 0xFFF) = (mtrr_base r AND NOT 0xFFF) AND (mtrr_mask r AND NOT 0xFFF)
      \<longleftrightarrow> (\<forall>n \<ge> 12. bit (mtrr_mask r) n \<longrightarrow> bit addr n = bit (mtrr_base r) n)"
    unfolding bit_eq_iff bit_and_iff page_mask using bit_imp_le_length [of "mtrr_mask r"] by auto
  ultimately show ?thesis by (simp add: covers_def)
qed

lemma variable_loop_combine:
  "n \<le> length rs \<Longrightarrow> variable_loop addr prev n rs = combine_all prev (covering_types addr (take n rs))"
proof (induction addr prev n rs rule: variable_loop.induct)
  case (3 addr prev n r rs)
  show ?case
  proof (cases "covers addr r")
    case True
    then have "variable_loop addr prev (Suc n) (r # rs) =
        combine_types prev (ucast (mtrr_base r AND 0xFF)) \<bind> (\<lambda>t. variable_loop addr t n rs)"
      by (simp only: variable_loop.simps Let_def covers_iff simp_thms if_False)
    also have "\<dots> = combine_types prev (ucast (mtrr_base r AND 0xFF)) \<bind> (\<lambda>t. combine_all t (covering_types addr (take n rs)))"
      using 3 True by (cases "combine_types prev (ucast (mtrr_base r AND 0xFF))") (simp_all add: covers_iff)
    finally show ?thesis using True by (simp add: covering_types_def)
  next
    case False
    then show ?thesis using 3 by (auto simp: Let_def covers_iff covering_types_def)
  qed
qed (simp_all add: covering_types_def)

lemma precedence_iff:
  assumes "ts \<noteq> []"
  shows "mtrr_precedence d ts = Some t \<longleftrightarrow>
      set ts = {t} \<or> MTRR_TYPE_UC \<in> set ts \<and> t = MTRR_TYPE_UC \<or> set ts = {MTRR_TYPE_WB, MTRR_TYPE_WT} \<and> t = MTRR_TYPE_WT"
proof -
  have hd: "hd ts \<in> set ts" using assms by simp
  have one: "(\<forall>u \<in> set ts. u = hd ts) \<longleftrightarrow> set ts = {hd ts}" using hd by blast
  have two: "set ts \<noteq> {hd ts} \<Longrightarrow> set ts \<subseteq> {a, b} \<longleftrightarrow> set ts = {a, b}" if "a \<noteq> b" for a b using hd that by blast
  have hd_eq: "set ts = {u} \<Longrightarrow> hd ts = u" for u using hd by simp
  show ?thesis
  proof (cases "set ts = {hd ts}")
    case True
    have "mtrr_precedence d ts = Some (hd ts)" unfolding mtrr_precedence_def if_not_P [OF assms] by (rule if_P) (use one True in blast)
    moreover have "set ts = {t} \<longleftrightarrow> t = hd ts" by (subst True) auto
    moreover have "u \<in> set ts \<longleftrightarrow> u = hd ts" for u by (subst True) simp
    moreover have "set ts \<noteq> {MTRR_TYPE_WB, MTRR_TYPE_WT}" by (subst True) auto
    ultimately show ?thesis by auto
  next
    case False
    then have "set ts \<noteq> {t}" using hd_eq by blast
    moreover have "mtrr_precedence d ts = (if MTRR_TYPE_UC \<in> set ts then Some MTRR_TYPE_UC
        else if set ts = {MTRR_TYPE_WB, MTRR_TYPE_WT} then Some MTRR_TYPE_WT else None)"
      unfolding mtrr_precedence_def if_not_P [OF assms] one if_not_P [OF False] using two [OF _ False] by simp
    moreover have "MTRR_TYPE_UC \<in> set ts \<Longrightarrow> set ts \<noteq> {MTRR_TYPE_WB, MTRR_TYPE_WT}" by auto
    ultimately show ?thesis by (simp split: if_splits)
  qed
qed

lemma precedence_step:
  assumes p: "mtrr_precedence d ps = Some prev" "ps \<noteq> []" and v: "\<forall>t \<in> set ps. vmx_mtrr_checktype t" "vmx_mtrr_checktype t"
  shows "combine_types prev t = Some q \<Longrightarrow> mtrr_precedence d (ps @ [t]) = Some q"
    and "combine_types prev t = None \<Longrightarrow> mtrr_precedence d (ps @ t # ts) = None \<or> MTRR_TYPE_UC \<in> set (ps @ t # ts)"
proof -
  have cs: "set ps = {prev} \<or> MTRR_TYPE_UC \<in> set ps \<and> prev = MTRR_TYPE_UC
      \<or> set ps = {MTRR_TYPE_WB, MTRR_TYPE_WT} \<and> prev = MTRR_TYPE_WT" using p by (simp add: precedence_iff)
  have prev: "prev \<noteq> MTRR_TYPE_RESV" using cs v(1) by (auto simp: vmx_mtrr_checktype_def)
  show "mtrr_precedence d (ps @ [t]) = Some q" if c: "combine_types prev t = Some q"
    using cs
  proof (elim disjE conjE)
    assume "set ps = {prev}"
    then show ?thesis using c prev by (auto simp: precedence_iff combine_types_def split: if_splits)
  next
    assume "MTRR_TYPE_UC \<in> set ps" "prev = MTRR_TYPE_UC"
    then show ?thesis using c by (auto simp: precedence_iff combine_types_def split: if_splits)
  next
    assume "set ps = {MTRR_TYPE_WB, MTRR_TYPE_WT}" "prev = MTRR_TYPE_WT"
    then show ?thesis using c by (auto simp: precedence_iff combine_types_def split: if_splits)
  qed
  show "mtrr_precedence d (ps @ t # ts) = None \<or> MTRR_TYPE_UC \<in> set (ps @ t # ts)" if c: "combine_types prev t = None"
  proof (rule ccontr)
    assume n: "\<not> ?thesis"
    then obtain q where "mtrr_precedence d (ps @ t # ts) = Some q" by auto
    then have "set (ps @ t # ts) = {q} \<or> set (ps @ t # ts) = {MTRR_TYPE_WB, MTRR_TYPE_WT}" using n by (auto simp: precedence_iff)
    moreover have "prev \<in> set ps" using cs by auto
    moreover have "prev \<noteq> t" "\<not> (prev \<in> {MTRR_TYPE_WB, MTRR_TYPE_WT} \<and> t \<in> {MTRR_TYPE_WB, MTRR_TYPE_WT})"
      using c by (simp_all add: combine_types_def split: if_splits) auto
    moreover have "t \<in> set (ps @ t # ts)" "prev \<in> set ps \<Longrightarrow> prev \<in> set (ps @ t # ts)" by simp_all
    ultimately show False by (metis singletonD)
  qed
qed

lemma combine_all_precedence:
  "mtrr_precedence d ps = Some prev \<Longrightarrow> ps \<noteq> [] \<Longrightarrow> \<forall>t \<in> set (ps @ ts). vmx_mtrr_checktype t \<Longrightarrow>
   (case combine_all prev ts of Some q \<Rightarrow> mtrr_precedence d (ps @ ts) = Some q
    | None \<Rightarrow> mtrr_precedence d (ps @ ts) = None \<or> MTRR_TYPE_UC \<in> set (ps @ ts))"
proof (induction ts arbitrary: ps prev)
  case (Cons t ts)
  note v = Cons.prems(3)
  show ?case
  proof (cases "combine_types prev t")
    case None
    then show ?thesis using precedence_step(2) [OF Cons.prems(1,2), of t ts] v by simp
  next
    case (Some q)
    then have "mtrr_precedence d (ps @ [t]) = Some q" using precedence_step(1) [OF Cons.prems(1,2)] v by simp
    from Cons.IH [OF this] show ?thesis using Some v by (cases "combine_all q ts") auto
  qed
qed simp

lemma combine_all_start:
  assumes "\<forall>t \<in> set ts. vmx_mtrr_checktype t"
  shows "case combine_all MTRR_TYPE_RESV ts of
      Some q \<Rightarrow> mtrr_precedence d ts = Some (if q = MTRR_TYPE_RESV then d else q)
    | None \<Rightarrow> mtrr_precedence d ts = None \<or> MTRR_TYPE_UC \<in> set ts"
proof (cases ts)
  case (Cons t us)
  have "mtrr_precedence d [t] = Some t" "vmx_mtrr_checktype t" using Cons assms by (auto simp: mtrr_precedence_def)
  with combine_all_precedence [of d "[t]" t us] show ?thesis
    using assms Cons combine_all_valid [of t us] by (auto simp: combine_types_def vmx_mtrr_checktype_def split: option.splits)
qed (simp add: mtrr_precedence_def)

lemma valid_bit: "bit (x :: u64) 11 \<Longrightarrow> (ucast (x AND 0x800) :: u32) \<noteq> 0"
proof -
  assume "bit x 11"
  then have "bit (ucast (x AND push_bit 11 1) :: u32) 11" by (simp add: bit_simps)
  moreover have "(0x800 :: u64) = push_bit 11 1" by simp
  ultimately show ?thesis by (metis bit_0_eq bot_apply bot_bool_def)
qed

lemma covering_types_valid:
  assumes "mtrr_ok v"
  shows "\<forall>t \<in> set (covering_types addr (take (unat (var_count (vmx_guestmtrrmsrs v))) (var_mtrrs (vmx_guestmtrrmsrs v)))).
    vmx_mtrr_checktype t"
proof
  let ?g = "vmx_guestmtrrmsrs v"
  fix t assume "t \<in> set (covering_types addr (take (unat (var_count ?g)) (var_mtrrs ?g)))"
  then obtain i where i: "i < unat (var_count ?g)" "covers addr (var_mtrrs ?g ! i)" and t: "t = ucast (mtrr_base (var_mtrrs ?g ! i) AND 0xFF)"
    by (auto simp: covering_types_def in_set_conv_nth)
  have "vmx_mtrr_checkvariable (vmx_ept_paddrmask v) (mtrr_base (var_mtrrs ?g ! i)) (mtrr_mask (var_mtrrs ?g ! i))"
    using assms i(1) by (simp add: mtrr_ok_def Let_def)
  moreover have "bit (mtrr_mask (var_mtrrs ?g ! i)) 11" using i(2) by (simp add: covers_def)
  then have "(ucast (mtrr_mask (var_mtrrs ?g ! i) AND 0x800) :: u32) \<noteq> 0" by (rule valid_bit)
  ultimately show "vmx_mtrr_checktype t" unfolding t by (simp add: vmx_mtrr_checkvariable_def Let_def split: if_splits)
qed

lemma combine_all_append: "combine_all p (xs @ ys) = Option.bind (combine_all p xs) (\<lambda>q. combine_all q ys)"
  by (induction xs arbitrary: p) (auto split: option.splits)

lemma combine_all_uc: "combine_all MTRR_TYPE_UC ts = Some MTRR_TYPE_UC"
  by (induction ts) (auto simp: combine_types_def)

text \<open>The loop goes through the registers in order: a conflict before the first uncacheable range halts, and after it nothing can.\<close>

lemma combine_all_exact:
  assumes "\<forall>t \<in> set ts. vmx_mtrr_checktype t"
  shows "map_option (\<lambda>q. if q = MTRR_TYPE_RESV then d else q) (combine_all MTRR_TYPE_RESV ts) =
    (case mtrr_precedence d (takeWhile (\<lambda>t. t \<noteq> MTRR_TYPE_UC) ts) of None \<Rightarrow> None | Some _ \<Rightarrow> mtrr_precedence d ts)"
proof (cases "MTRR_TYPE_UC \<in> set ts")
  case False
  then have all: "takeWhile (\<lambda>t. t \<noteq> MTRR_TYPE_UC) ts = ts" by (subst takeWhile_eq_all_conv) auto
  show ?thesis unfolding all using combine_all_start [OF assms, of d] False by (cases "combine_all MTRR_TYPE_RESV ts") simp_all
next
  case True
  let ?pre = "takeWhile (\<lambda>t. t \<noteq> MTRR_TYPE_UC) ts" and ?post = "dropWhile (\<lambda>t. t \<noteq> MTRR_TYPE_UC) ts"
  obtain rest where post: "?post = MTRR_TYPE_UC # rest"
    using True by (cases ?post) (auto simp: dropWhile_eq_Nil_conv dropWhile_eq_Cons_conv)
  have ts: "ts = ?pre @ MTRR_TYPE_UC # rest" using takeWhile_dropWhile_id [of _ ts] post by metis
  have pre: "\<forall>t \<in> set ?pre. vmx_mtrr_checktype t" "MTRR_TYPE_UC \<notin> set ?pre" using assms by (auto dest: set_takeWhileD)
  have uc: "mtrr_precedence d ts = Some MTRR_TYPE_UC" using True by (subst precedence_iff) auto
  have "combine_types q MTRR_TYPE_UC = Some MTRR_TYPE_UC" for q by (simp add: combine_types_def)
  then have "combine_all MTRR_TYPE_RESV ts = (case combine_all MTRR_TYPE_RESV ?pre of None \<Rightarrow> None | Some _ \<Rightarrow> Some MTRR_TYPE_UC)"
    by (subst ts, simp only: combine_all_append) (simp add: combine_all_uc split: option.splits)
  then show ?thesis using combine_all_start [OF pre(1), of d] pre(2) uc by (cases "combine_all MTRR_TYPE_RESV ?pre") simp_all
qed

lemma getmemorytype_exact:
  fixes v :: "'x vcpu_ept_scheme"
  defines "ts addr \<equiv> covering_types addr (take (unat (var_count (vmx_guestmtrrmsrs v))) (var_mtrrs (vmx_guestmtrrmsrs v)))"
  assumes ok: "mtrr_ok v" and en: "vmx_ept_mtrr_enable v \<noteq> 0" and var: "0x100000 \<le> addr \<or> vmx_ept_fixmtrr_enable v = 0"
  shows "vmx_getmemorytypeforphysicalpage v addr =
    (case mtrr_precedence (vmx_ept_defaulttype v) (takeWhile (\<lambda>t. t \<noteq> MTRR_TYPE_UC) (ts addr)) of
       None \<Rightarrow> None | Some _ \<Rightarrow> mtrr_precedence (vmx_ept_defaulttype v) (ts addr))"
proof -
  let ?g = "vmx_guestmtrrmsrs v"
  have "unat (var_count ?g) \<le> length (var_mtrrs ?g)" using ok by (simp add: mtrr_ok_def Let_def word_le_nat_alt)
  then have l: "variable_loop addr MTRR_TYPE_RESV (unat (var_count ?g)) (var_mtrrs ?g) = combine_all MTRR_TYPE_RESV (ts addr)"
    by (simp add: variable_loop_combine ts_def)
  have "vmx_getmemorytypeforphysicalpage v addr =
      map_option (\<lambda>t. if t = MTRR_TYPE_RESV then vmx_ept_defaulttype v else t) (combine_all MTRR_TYPE_RESV (ts addr))"
    using en var unfolding vmx_getmemorytypeforphysicalpage_def l
    by (cases "combine_all MTRR_TYPE_RESV (ts addr)") (auto simp: not_less)
  then show ?thesis using combine_all_exact [OF covering_types_valid [OF ok, of addr], of "vmx_ept_defaulttype v"] unfolding ts_def by simp
qed

text \<open>
  C35: the memory type from the variable MTRRs. Let the MTRRs that cover an address be listed in the order of the registers. If those
  before the first uncacheable one give a type by the precedence rule (one type, or write-back with write-through), the result is the type that
  the rule gives for all of them, uncacheable as soon as one is; if they conflict, the function halts, even when an
  uncacheable range comes later and would decide.
\<close>

theorem memory_type_precedence:
  fixes v :: "'x vcpu_ept_scheme"
  defines "ts addr \<equiv> covering_types addr (take (unat (var_count (vmx_guestmtrrmsrs v))) (var_mtrrs (vmx_guestmtrrmsrs v)))"
  assumes "mtrr_ok v" and "vmx_ept_mtrr_enable v \<noteq> 0" and "0x100000 \<le> addr \<or> vmx_ept_fixmtrr_enable v = 0"
  shows "vmx_getmemorytypeforphysicalpage v addr =
    (case mtrr_precedence (vmx_ept_defaulttype v) (takeWhile (\<lambda>t. t \<noteq> MTRR_TYPE_UC) (ts addr)) of
       None \<Rightarrow> None | Some _ \<Rightarrow> mtrr_precedence (vmx_ept_defaulttype v) (ts addr))"
  using getmemorytype_exact [OF assms(2-4)] unfolding ts_def .

text \<open>With an uncacheable range, the order of the MTRRs decides whether the processor halts.\<close>

lemma precedence_uc_order:
  "combine_all MTRR_TYPE_RESV [MTRR_TYPE_WC, MTRR_TYPE_WP, MTRR_TYPE_UC] = None"
  "combine_all MTRR_TYPE_RESV [MTRR_TYPE_UC, MTRR_TYPE_WC, MTRR_TYPE_WP] = Some MTRR_TYPE_UC"
  "mtrr_precedence d [MTRR_TYPE_WC, MTRR_TYPE_WP, MTRR_TYPE_UC] = Some MTRR_TYPE_UC"
  by (simp_all add: combine_types_def mtrr_precedence_def)

subsection \<open>Fixed MTRRs\<close>

lemma backward_shift:
  assumes "unat s < unat a" "unat a < unat s + 8 * 2 ^ k" "k \<le> 16"
  shows "\<not> (ucast ((s - a :: u64) div 2 ^ k) :: u32) * 8 < 64"
proof -
  define q where "q = (2 ^ 64 - (unat a - unat s)) div 2 ^ k"
  have u: "unat (s - a) = 2 ^ 64 - (unat a - unat s)"
    using assms(1) unsigned_less [of a] by (subst unat_sub_if') (simp add: not_le)
  have p: "unat (2 ^ k :: u64) = 2 ^ k" using unat_of_nat_64 [of "2 ^ k"] power_strict_increasing [of k 64 "2 :: nat"] assms(3) by simp
  have q: "unat ((s - a) div 2 ^ k) = q" by (simp only: unat_div p u q_def)
  have e: "(2 :: nat) ^ 64 = 2 ^ (64 - k) * 2 ^ k" using assms(3) by (simp flip: power_add)
  have big: "8 \<le> (2 :: nat) ^ (64 - k)" using power_increasing [of 3 "64 - k" "2 :: nat"] assms(3) by simp
  have "q < 2 ^ (64 - k)" unfolding q_def by (rule less_mult_imp_div_less) (use assms(1) in \<open>simp flip: e\<close>)
  moreover have "(2 ^ (64 - k) - 8) * 2 ^ k \<le> 2 ^ 64 - (unat a - unat s)" unfolding e diff_mult_distrib using assms(2) by simp
  then have "2 ^ (64 - k) - 8 \<le> q" unfolding q_def by (simp add: less_eq_div_iff_mult_less_eq)
  ultimately obtain c where c: "q + c = 2 ^ (64 - k)" "1 \<le> c" "c \<le> 8" using big
    by (metis add_diff_inverse_nat diff_diff_cancel diff_le_mono2 less_imp_le_nat not_less_eq_eq One_nat_def zero_less_diff Suc_leI)
  have "(of_nat (q + c) :: u32) = 0" unfolding c(1) using assms(3) by (simp add: exp_eq_zero_iff)
  moreover have "(ucast ((s - a) div 2 ^ k) :: u32) = of_nat q" unfolding q [symmetric] by (rule of_nat_unat [symmetric])
  ultimately have "(ucast ((s - a) div 2 ^ k) :: u32) = - of_nat c" by (simp add: eq_neg_iff_add_eq_0)
  moreover have "c \<in> {1, 2, 3, 4, 5, 6, 7, 8}" using c(2,3) by auto
  ultimately show ?thesis by auto
qed

lemma fixed_loop_range:
  assumes "i < length ps" "length ms = length ps" "\<forall>j < i. ucast (prop_end (ps ! j)) \<le> a" "a < ucast (prop_end (ps ! i))"
  shows "fixed_loop a ps ms = do {
      x \<leftarrow> shr_u64 (ms ! i) (ucast ((ucast (prop_start (ps ! i)) - a) div ucast (prop_step (ps ! i))) * 8); Some (ucast (ucast x :: u8)) }"
  using assms
proof (induction i arbitrary: ps ms)
  case 0
  then show ?case by (cases ps; cases ms) (simp_all add: Let_def)
next
  case (Suc i)
  then obtain p ps' x ms' where e: "ps = p # ps'" "ms = x # ms'" by (cases ps; cases ms) auto
  have "\<not> a < ucast (prop_end p)" using Suc.prems(3) e(1) by (auto simp: not_less)
  moreover have "\<forall>j < i. ucast (prop_end (ps' ! j)) \<le> a" using Suc.prems(3) e(1) by auto
  ultimately show ?case using Suc.IH [of ps' ms'] Suc.prems e by simp
qed

lemma less_fixed: "i < NUM_FIXED_MTRRS \<Longrightarrow> i \<in> {0, 1, 2, 3, 4, 5, 6, 7, 8, 9, 10}"
  by (simp add: numeral_eq_Suc less_Suc_eq)

lemma fixed_ranges:
  assumes "i < NUM_FIXED_MTRRS"
  defines "p \<equiv> fixed_mtrr_prop ! i"
  shows "\<exists>k \<le> 16. (ucast (prop_step p) :: u64) = 2 ^ k
      \<and> unat (ucast (prop_end p) :: u64) = unat (ucast (prop_start p) :: u64) + 8 * 2 ^ k"
proof -
  note less_fixed [OF assms(1)]
  then have "(ucast (prop_step p) :: u64) = 2 ^ (if i = 0 then 16 else if i < 3 then 14 else 12)
      \<and> unat (ucast (prop_end p) :: u64) = unat (ucast (prop_start p) :: u64) + 8 * 2 ^ (if i = 0 then 16 else if i < 3 then 14 else 12)"
    unfolding p_def fixed_mtrr_prop_def by (elim insertE emptyE) simp_all
  then show ?thesis by (intro exI [of _ "if i = 0 then 16 else if i < 3 then 14 else 12"]) simp
qed

lemma fixed_ranges_cover:
  assumes "addr < 0x100000"
  shows "\<exists>i < NUM_FIXED_MTRRS. ucast (prop_start (fixed_mtrr_prop ! i)) \<le> addr \<and> addr < ucast (prop_end (fixed_mtrr_prop ! i))
    \<and> (\<forall>j < i. ucast (prop_end (fixed_mtrr_prop ! j)) \<le> addr)"
proof -
  let ?P = "\<lambda>i. i < NUM_FIXED_MTRRS \<and> addr < ucast (prop_end (fixed_mtrr_prop ! i))"
  define i where "i = (LEAST i. ?P i)"
  have "?P 10" using assms by (simp add: fixed_mtrr_prop_def)
  then have i: "?P i" unfolding i_def by (rule LeastI)
  have j: "ucast (prop_end (fixed_mtrr_prop ! j)) \<le> addr" if "j < i" for j
    using not_less_Least [of j ?P] that i unfolding i_def [symmetric] by (auto simp: not_less)
  have "ucast (prop_start (fixed_mtrr_prop ! i)) \<le> addr"
  proof (cases i)
    case 0
    then show ?thesis by (simp add: fixed_mtrr_prop_def)
  next
    case (Suc k)
    have "k \<in> {0, 1, 2, 3, 4, 5, 6, 7, 8, 9}" using less_fixed [of k] i Suc by auto
    then have "prop_start (fixed_mtrr_prop ! Suc k) = prop_end (fixed_mtrr_prop ! k)"
      unfolding fixed_mtrr_prop_def by (elim insertE emptyE) simp_all
    then show ?thesis using j [of k] Suc by simp
  qed
  then show ?thesis using i j by blast
qed

lemma fixed_starts_unique:
  assumes "i < NUM_FIXED_MTRRS" "ucast (prop_start (fixed_mtrr_prop ! i)) \<le> addr" "addr < ucast (prop_end (fixed_mtrr_prop ! i))"
    and "p \<in> set fixed_mtrr_prop" "addr = ucast (prop_start p)"
  shows "addr = (ucast (prop_start (fixed_mtrr_prop ! i)) :: u64)"
proof -
  note less_fixed [OF assms(1)]
  then show ?thesis using assms(2-) unfolding fixed_mtrr_prop_def by (elim insertE emptyE) auto
qed

lemma fixed_type_defined:
  assumes ok: "mtrr_ok v" and en: "vmx_ept_mtrr_enable v \<noteq> 0" "vmx_ept_fixmtrr_enable v \<noteq> 0" and addr: "addr < 0x100000"
  shows "vmx_getmemorytypeforphysicalpage v addr \<noteq> None \<longleftrightarrow> (\<exists>p \<in> set fixed_mtrr_prop. addr = ucast (prop_start p))"
proof -
  obtain i where i: "i < NUM_FIXED_MTRRS" "ucast (prop_start (fixed_mtrr_prop ! i)) \<le> addr" "addr < ucast (prop_end (fixed_mtrr_prop ! i))"
    and j: "\<forall>j < i. ucast (prop_end (fixed_mtrr_prop ! j)) \<le> addr" using fixed_ranges_cover [OF addr] by blast
  let ?p = "fixed_mtrr_prop ! i"
  obtain k where k: "k \<le> 16" "(ucast (prop_step ?p) :: u64) = 2 ^ k"
      "unat (ucast (prop_end ?p) :: u64) = unat (ucast (prop_start ?p) :: u64) + 8 * 2 ^ k" using fixed_ranges [OF i(1)] by blast
  have len: "length fixed_mtrr_prop = NUM_FIXED_MTRRS" by (simp add: fixed_mtrr_prop_def)
  have "vmx_getmemorytypeforphysicalpage v addr = None \<longleftrightarrow> \<not> (ucast ((ucast (prop_start ?p) - addr) div 2 ^ k) :: u32) * 8 < 64"
    using fixed_loop_range [of i fixed_mtrr_prop "fix_mtrrs (vmx_guestmtrrmsrs v)" addr] i j ok en addr len k(2)
    by (simp add: vmx_getmemorytypeforphysicalpage_def mtrr_ok_def Let_def shr_u64_def)
  also have "\<dots> \<longleftrightarrow> addr \<noteq> ucast (prop_start ?p)"
  proof (cases "addr = ucast (prop_start ?p)")
    case False
    then have "unat (ucast (prop_start ?p) :: u64) < unat addr" using i(2) by (simp add: word_less_nat_alt [symmetric])
    then show ?thesis using backward_shift [OF _ _ k(1)] i(3) k(3) False by (simp add: word_less_nat_alt)
  qed simp
  also have "\<dots> \<longleftrightarrow> (\<forall>p \<in> set fixed_mtrr_prop. addr \<noteq> ucast (prop_start p))"
    using fixed_starts_unique [OF i] nth_mem [of i fixed_mtrr_prop] i(1) len by auto
  finally show ?thesis by simp
qed

text \<open>
  C36: a defect in the use of the fixed MTRRs. The index of the byte is computed by a subtraction with its operands exchanged,
  so below 1 MiB the memory type has a defined value only at the first address of each of the eleven fixed ranges; everywhere else the shift
  amount exceeds the width of the value. An EPT of more than one page cannot be set up without an undefined shift.
\<close>

theorem fixed_mtrr_type_undefined:
  assumes "mtrr_ok v" "vmx_ept_mtrr_enable v \<noteq> 0" "vmx_ept_fixmtrr_enable v \<noteq> 0"
  shows "(\<forall>addr < 0x100000. vmx_getmemorytypeforphysicalpage v addr \<noteq> None
       \<longleftrightarrow> (\<exists>p \<in> set fixed_mtrr_prop. addr = ucast (prop_start p)))
    \<and> (0x1000 < MAX_PHYS_ADDR \<longrightarrow> vmx_setupEPT MAX_PHYS_ADDR rpb v m = None)"
proof (intro conjI allI impI)
  show "vmx_getmemorytypeforphysicalpage v addr \<noteq> None \<longleftrightarrow> (\<exists>p \<in> set fixed_mtrr_prop. addr = ucast (prop_start p))"
    if "addr < 0x100000" for addr using fixed_type_defined [OF assms that] .
  assume mx: "0x1000 < MAX_PHYS_ADDR"
  have "vmx_getmemorytypeforphysicalpage v 0x1000 = None"
    using fixed_type_defined [OF assms, of "0x1000"] by (simp add: fixed_mtrr_prop_def)
  then have "setupEPT_page rpb v 0x1000 m = None" for m by (simp add: setupEPT_page_def)
  then have two: "setupEPT_loop MAX_PHYS_ADDR rpb v 0x1000 m = None" for m
    using mx by (simp add: setupEPT_loop.simps [where paddr = "0x1000"])
  have "(0 :: u64) < MAX_PHYS_ADDR" using mx by (rule le_less_trans [OF word_zero_le])
  then show "vmx_setupEPT MAX_PHYS_ADDR rpb v m = None"
    using two by (cases "setupEPT_page rpb v 0 m") (simp_all add: vmx_setupEPT_def setupEPT_loop.simps [where paddr = 0])
qed

end
