(* ===== verification/Ept.thy ===== *)
theory Ept
  imports Example Memprot
begin

unbundle bit_operations_syntax

text \<open>
  The EPT that \<^verbatim>\<open>memp-x86vmx.c\<close> builds and updates, seen through the page-table walker: the layout of the four levels of
  tables, the content of every entry, and what a walk from the root grants.
\<close>

subsection \<open>Layout of the tables\<close>

text \<open>
  The table of level \<open>l\<close> and the address range \<open>2 ^ ept_shift l\<close> of one of its entries. All tables of a level are adjacent, so that entry \<open>i\<close>
  of the level describes the \<open>i\<close>-th range. The first \<open>ept_used mx l\<close> entries are written, \<open>ept_rows mx l\<close> have space:
  \<^verbatim>\<open>P4L_NPDPT\<close>, \<^verbatim>\<open>P4L_NPDT\<close> and \<^verbatim>\<open>P4L_NPT\<close> pages.
\<close>

definition ept_table :: "'x vcpu_ept_scheme \<Rightarrow> nat \<Rightarrow> u64" where
  "ept_table v l = (if l = 1 then vmx_vaddr_ept_p_tables v else if l = 2 then vmx_vaddr_ept_pd_tables v
     else if l = 3 then vmx_vaddr_ept_pdp_table v else vmx_vaddr_ept_pml4_table v)"

definition ept_shift :: "nat \<Rightarrow> nat" where
  "ept_shift l = 12 + 9 * (l - 1)"

definition ept_used :: "u64 \<Rightarrow> nat \<Rightarrow> nat" where
  "ept_used mx l = (unat mx + 2 ^ ept_shift l - 1) div 2 ^ ept_shift l"

definition ept_rows :: "u64 \<Rightarrow> nat \<Rightarrow> nat" where
  "ept_rows mx l = 512 * (if l = 4 then 1 else ept_used mx (l + 1))"

definition ept_layout :: "u64 \<Rightarrow> 'x vcpu_ept_scheme \<Rightarrow> bool" where
  "ept_layout mx v \<longleftrightarrow> take_bit 12 mx = 0 \<and> unat mx \<le> 2 ^ 48
     \<and> (\<forall>l \<in> {1..4}. ept_table v l \<noteq> 0 \<and> take_bit 12 (ept_table v l) = 0 \<and> unat (ept_table v l) + 8 * ept_rows mx l \<le> 2 ^ 52
        \<and> (\<forall>l' \<in> {1..4}. l \<noteq> l' \<longrightarrow> unat (ept_table v l) + 8 * ept_rows mx l \<le> unat (ept_table v l')
             \<or> unat (ept_table v l') + 8 * ept_rows mx l' \<le> unat (ept_table v l)))"

text \<open>The pages that are hidden from the guest: the runtime, and 2 MiB before it.\<close>

definition ept_hidden :: "rpb \<Rightarrow> u64 \<Rightarrow> bool" where
  "ept_hidden rpb paddr \<longleftrightarrow> XtVmmRuntimePhysBase rpb - PA_PAGE_SIZE_2M \<le> paddr
     \<and> paddr < XtVmmRuntimePhysBase rpb + XtVmmRuntimeSize rpb"

definition ept_leaf :: "rpb \<Rightarrow> u64 \<Rightarrow> u32 \<Rightarrow> u64" where
  "ept_leaf rpb paddr t = paddr OR push_bit 3 (ucast t) OR (if ept_hidden rpb paddr then 0 else 7)"

definition ept_entry :: "rpb \<Rightarrow> (u64 \<Rightarrow> u32 exec) \<Rightarrow> 'x vcpu_ept_scheme \<Rightarrow> nat \<Rightarrow> u64 \<Rightarrow> u64" where
  "ept_entry rpb ty v l i = (if l = 1 then ept_leaf rpb (push_bit 12 i) (the (ty (push_bit 12 i)))
     else (ept_table v (l - 1) + push_bit 12 i) OR 7)"

text \<open>All tables are as they should be for the first \<open>n\<close> bytes, and empty from there on.\<close>

definition ept_filled :: "u64 \<Rightarrow> rpb \<Rightarrow> (u64 \<Rightarrow> u32 exec) \<Rightarrow> 'x vcpu_ept_scheme \<Rightarrow> nat \<Rightarrow> memory \<Rightarrow> bool" where
  "ept_filled mx rpb ty v n m \<longleftrightarrow> (\<forall>l \<in> {1..4}. \<forall>i. unat i < ept_rows mx l \<longrightarrow>
     pt_get m (ept_table v l) i = (if unat i * 2 ^ ept_shift l < n then ept_entry rpb ty v l i else 0))"

subsection \<open>Entries\<close>

lemma ept_levels: "l \<in> {1..4} \<Longrightarrow> l = 1 \<or> l = 2 \<or> l = 3 \<or> l = (4::nat)"
  by auto

lemma used_iff: "i < ept_used mx l \<longleftrightarrow> i * 2 ^ ept_shift l < unat mx"
proof -
  have "i < (n + d - 1) div d \<longleftrightarrow> i * d < n" if "0 < d" for n d :: nat
  proof -
    have "i < (n + d - 1) div d \<longleftrightarrow> Suc i * d \<le> n + d - 1" using that by (simp add: less_eq_div_iff_mult_less_eq Suc_le_eq [symmetric] del: mult_Suc)
    also have "\<dots> \<longleftrightarrow> i * d < n" using that by (auto simp: Suc_le_eq)
    finally show ?thesis .
  qed
  then show ?thesis by (simp add: ept_used_def)
qed

lemma used_row:
  assumes "l \<in> {1..4}" "unat mx \<le> 2 ^ 48" "i * 2 ^ ept_shift l < unat mx"
  shows "i < ept_rows mx l"
proof (cases "l = 4")
  case True
  then show ?thesis using assms(2,3) by (simp add: ept_rows_def ept_shift_def)
next
  case False
  then have s: "ept_shift (l + 1) = ept_shift l + 9" using assms(1) by (auto simp: ept_shift_def)
  have "i div 512 * 2 ^ ept_shift (l + 1) = 512 * (i div 512) * 2 ^ ept_shift l" unfolding s by (simp add: power_add)
  also have "\<dots> \<le> i * 2 ^ ept_shift l" by (intro mult_le_mono1) simp
  finally have "i div 512 < ept_used mx (l + 1)" using assms(3) by (simp add: used_iff)
  then show ?thesis using False by (simp add: ept_rows_def div_less_iff_less_mult mult.commute)
qed

lemma slot_unat:
  assumes "ept_layout mx v" "l \<in> {1..4}" "unat i < ept_rows mx l"
  shows "unat (ept_table v l + 8 * i) = unat (ept_table v l) + 8 * unat i" "8 dvd unat (ept_table v l + 8 * i)"
proof -
  have t: "unat (ept_table v l) + 8 * ept_rows mx l \<le> 2 ^ 52" "take_bit 12 (ept_table v l) = 0"
    using assms(1,2) by (auto simp: ept_layout_def)
  have "unat (8 * i) = 8 * unat i" using t(1) assms(3) by (subst unat_mult_lem [THEN iffD1]) simp_all
  then show u: "unat (ept_table v l + 8 * i) = unat (ept_table v l) + 8 * unat i"
    using t(1) assms(3) by (subst unat_add_lem [THEN iffD1]) simp_all
  have "unat (ept_table v l) mod 4096 = 0" using t(2) unat_take_bit_mod [of 12 "ept_table v l"] by simp
  then have "4096 dvd unat (ept_table v l)" by (rule mod_0_imp_dvd)
  then have "8 dvd unat (ept_table v l)" by (rule dvd_trans [rotated]) simp
  then show "8 dvd unat (ept_table v l + 8 * i)" using u by simp
qed

lemma pt_get_set:
  assumes "ept_layout mx v" "l \<in> {1..4}" "unat i < ept_rows mx l" "l' \<in> {1..4}" "unat j < ept_rows mx l'"
  shows "pt_get (pt_set m (ept_table v l) i x) (ept_table v l') j = (if l = l' \<and> i = j then x else pt_get m (ept_table v l') j)"
proof (cases "l = l' \<and> i = j")
  case True
  then show ?thesis by (simp add: pt_get_def pt_set_def load_store_le_same take_bit_word_eq_self)
next
  case False
  note s = slot_unat [OF assms(1,2,3)] and s' = slot_unat [OF assms(1,4,5)]
  have "ept_table v l + 8 * i \<noteq> ept_table v l' + 8 * j"
  proof
    assume "ept_table v l + 8 * i = ept_table v l' + 8 * j"
    then have e: "unat (ept_table v l) + 8 * unat i = unat (ept_table v l') + 8 * unat j" using s(1) s'(1) by simp
    show False
    proof (cases "l = l'")
      case True
      then show False using e False by (simp add: word_unat_eq_iff)
    next
      case ne: False
      then have "unat (ept_table v l) + 8 * ept_rows mx l \<le> unat (ept_table v l')
          \<or> unat (ept_table v l') + 8 * ept_rows mx l' \<le> unat (ept_table v l)"
        using assms(1,2,4) by (simp add: ept_layout_def)
      then show False using e assms(3,5) by linarith
    qed
  qed
  then show ?thesis using False s(2) s'(2) by (auto simp: pt_get_def pt_set_def load_store_le_other)
qed

subsection \<open>Set-up\<close>

text \<open>What one page does to level \<open>l\<close>: it writes the entry that starts at the page, if there is one.\<close>

definition ept_set_level :: "rpb \<Rightarrow> 'x vcpu_ept_scheme \<Rightarrow> u64 \<Rightarrow> nat \<Rightarrow> memory \<Rightarrow> memory" where
  "ept_set_level rpb v paddr l m = (if take_bit (ept_shift l) paddr = 0
     then pt_set m (ept_table v l) (drop_bit (ept_shift l) paddr)
            (ept_entry rpb (vmx_getmemorytypeforphysicalpage v) v l (drop_bit (ept_shift l) paddr))
     else m)"

lemma page_floor: "take_bit 12 a = 0 \<Longrightarrow> push_bit 12 (drop_bit 12 a) = a" for a :: u64
proof -
  assume a: "take_bit 12 a = 0"
  have low: "\<not> bit a n" if "n < 12" for n using a that by (metis bit_0_eq bit_take_bit_iff bot_apply bot_bool_def)
  show ?thesis
  proof (rule bit_word_eqI)
    fix n assume "n < LENGTH(64)"
    then show "bit (push_bit 12 (drop_bit 12 a)) n = bit a n"
      by (cases "n < 12") (simp_all add: bit_simps low not_less)
  qed
qed

lemma unat_drop_bit_div: "unat (drop_bit n a) = unat a div 2 ^ n" for a :: u64
proof -
  have "take_bit 64 (unat a) = unat a" using unsigned_less [where 'a = nat, of a] by (intro take_bit_nat_eq_self) simp
  then show ?thesis by (simp add: unsigned_drop_bit_eq drop_bit_nat_def)
qed

lemma unat_push_12: "4096 * unat i < 2 ^ 64 \<Longrightarrow> unat (push_bit 12 i) = 4096 * unat i" for i :: u64
  using unat_mult_lem [of "4096" i, THEN iffD1] by (simp add: push_bit_eq_mult mult.commute)

lemma setup_page_eq:
  assumes "take_bit 12 paddr = 0"
  shows "setupEPT_page rpb v paddr m = do {
      t \<leftarrow> vmx_getmemorytypeforphysicalpage v paddr;
      assert_c (vmx_mtrr_checktype t);
      Some (ept_set_level rpb v paddr 1 (ept_set_level rpb v paddr 2 (ept_set_level rpb v paddr 3 (ept_set_level rpb v paddr 4 m)))) }"
proof (cases "vmx_getmemorytypeforphysicalpage v paddr")
  case (Some t)
  then show ?thesis using assms page_floor [OF assms]
    by (simp add: setupEPT_page_def ept_set_level_def ept_shift_def ept_table_def ept_entry_def ept_leaf_def ept_hidden_def hva2spa_def Let_def
        split del: if_split cong: if_cong)
qed (simp add: setupEPT_page_def)

lemma set_level_get:
  assumes "ept_layout mx v" "l \<in> {1..4}" "l' \<in> {1..4}" "unat j < ept_rows mx l'" "paddr < mx"
  shows "pt_get (ept_set_level rpb v paddr l m) (ept_table v l') j =
    (if l = l' \<and> take_bit (ept_shift l) paddr = 0 \<and> j = drop_bit (ept_shift l) paddr
     then ept_entry rpb (vmx_getmemorytypeforphysicalpage v) v l j else pt_get m (ept_table v l') j)"
proof -
  have "unat (drop_bit (ept_shift l) paddr) * 2 ^ ept_shift l \<le> unat paddr"
    by (simp add: unat_drop_bit_div)
  then have "unat (drop_bit (ept_shift l) paddr) * 2 ^ ept_shift l < unat mx" using assms(5) by (simp add: word_less_nat_alt)
  then have "unat (drop_bit (ept_shift l) paddr) < ept_rows mx l" using used_row [OF assms(2)] assms(1) by (simp add: ept_layout_def)
  then show ?thesis using pt_get_set [OF assms(1,2) _ assms(3,4)] by (auto simp: ept_set_level_def)
qed

lemma aligned_start_iff:
  "take_bit s paddr = 0 \<and> j = drop_bit s paddr \<longleftrightarrow> unat j * 2 ^ s = unat (paddr :: u64)"
proof -
  have d: "unat (drop_bit s paddr) = unat paddr div 2 ^ s" by (simp add: unat_drop_bit_div)
  have t: "take_bit s paddr = 0 \<longleftrightarrow> unat paddr mod 2 ^ s = 0" by (simp add: word_unat_eq_iff unat_take_bit_mod)
  show ?thesis
  proof
    assume "take_bit s paddr = 0 \<and> j = drop_bit s paddr"
    then show "unat j * 2 ^ s = unat paddr" using d t div_mult_mod_eq [of "unat paddr" "2 ^ s"] by simp
  next
    assume e: "unat j * 2 ^ s = unat paddr"
    then have "unat paddr mod 2 ^ s = 0" "unat paddr div 2 ^ s = unat j" by (simp_all flip: e)
    then show "take_bit s paddr = 0 \<and> j = drop_bit s paddr" using d t by (simp add: word_unat_eq_iff)
  qed
qed

lemma setup_page_filled:
  assumes lay: "ept_layout mx v" and al: "take_bit 12 paddr = 0" and lt: "paddr < mx"
    and f: "ept_filled mx rpb (vmx_getmemorytypeforphysicalpage v) v (unat paddr) m"
    and t: "vmx_getmemorytypeforphysicalpage v paddr = Some t" "vmx_mtrr_checktype t"
  shows "\<exists>m'. setupEPT_page rpb v paddr m = Some m'
    \<and> ept_filled mx rpb (vmx_getmemorytypeforphysicalpage v) v (unat paddr + 4096) m'"
proof -
  let ?m = "ept_set_level rpb v paddr 1 (ept_set_level rpb v paddr 2 (ept_set_level rpb v paddr 3 (ept_set_level rpb v paddr 4 m)))"
  have "ept_filled mx rpb (vmx_getmemorytypeforphysicalpage v) v (unat paddr + 4096) ?m"
    unfolding ept_filled_def
  proof (intro ballI allI impI)
    fix l :: nat and j :: u64
    assume l: "l \<in> {1..4}" and j: "unat j < ept_rows mx l"
    let ?e = "ept_entry rpb (vmx_getmemorytypeforphysicalpage v) v l j"
    note get = set_level_get [OF lay _ l j lt]
    have lv: "1 \<in> {1..4 :: nat}" "2 \<in> {1..4 :: nat}" "3 \<in> {1..4 :: nat}" "4 \<in> {1..4 :: nat}" by simp_all
    have "pt_get ?m (ept_table v l) j =
        (if take_bit (ept_shift l) paddr = 0 \<and> j = drop_bit (ept_shift l) paddr then ?e else pt_get m (ept_table v l) j)"
      using ept_levels [OF l] unfolding get [OF lv(1)] get [OF lv(2)] get [OF lv(3)] get [OF lv(4)] by (elim disjE) simp_all
    also have "\<dots> = (if unat j * 2 ^ ept_shift l = unat paddr then ?e
        else if unat j * 2 ^ ept_shift l < unat paddr then ?e else 0)"
      using f l j by (simp add: aligned_start_iff ept_filled_def)
    also have "\<dots> = (if unat j * 2 ^ ept_shift l < unat paddr + 4096 then ?e else 0)"
    proof -
      have "unat j * 2 ^ ept_shift l = 4096 * (unat j * 2 ^ (9 * (l - 1)))" by (simp add: ept_shift_def power_add)
      moreover have "unat paddr = 4096 * (unat paddr div 4096)"
        using al unat_take_bit_mod [of 12 paddr] div_mult_mod_eq [of "unat paddr" 4096] by simp
      ultimately obtain a b where "unat j * 2 ^ ept_shift l = 4096 * a" "unat paddr = 4096 * b" by blast
      then have "unat j * 2 ^ ept_shift l < unat paddr + 4096 \<longleftrightarrow> 4096 * a < 4096 * Suc b" "unat j * 2 ^ ept_shift l \<le> unat paddr \<longleftrightarrow> a \<le> b" by (simp_all add: add.commute)
      then have "unat j * 2 ^ ept_shift l < unat paddr + 4096 \<longleftrightarrow> unat j * 2 ^ ept_shift l \<le> unat paddr"
        by (simp only: mult_less_cancel1 less_Suc_eq_le) simp
      then show ?thesis by (simp add: le_less)
    qed
    finally show "pt_get ?m (ept_table v l) j = (if unat j * 2 ^ ept_shift l < unat paddr + 4096 then ?e else 0)" .
  qed
  then show ?thesis using t by (simp add: setup_page_eq [OF al])
qed

definition ept_types_ok :: "u64 \<Rightarrow> (u64 \<Rightarrow> u32 exec) \<Rightarrow> bool" where
  "ept_types_ok mx ty \<longleftrightarrow> (\<forall>p < mx. take_bit 12 p = 0 \<longrightarrow> (\<exists>t. ty p = Some t \<and> vmx_mtrr_checktype t))"

lemma next_page:
  fixes mx paddr :: u64
  assumes "take_bit 12 mx = 0" "unat mx \<le> 2 ^ 48" "take_bit 12 paddr = 0" "paddr < mx"
  shows "unat (paddr + 0x1000) = unat paddr + 4096" "take_bit 12 (paddr + 0x1000) = 0" "paddr + 0x1000 \<le> mx"
proof -
  have lt: "unat paddr < unat mx" using assms(4) by (simp add: word_less_nat_alt)
  show u: "unat (paddr + 0x1000) = unat paddr + 4096"
    using lt assms(2) by (subst unat_add_lem [THEN iffD1]) simp_all
  have m: "unat paddr mod 4096 = 0" "unat mx mod 4096 = 0"
    using assms(1,3) unat_take_bit_mod [of 12 paddr] unat_take_bit_mod [of 12 mx] by simp_all
  have "unat (take_bit 12 (paddr + 0x1000)) = (unat paddr + 4096) mod 4096" by (simp only: unat_take_bit_mod u) simp
  then show "take_bit 12 (paddr + 0x1000) = 0" using m(1) by (simp add: word_unat_eq_iff)
  obtain a b where "unat paddr = 4096 * a" "unat mx = 4096 * b" using m by (auto dest!: mod_0_imp_dvd elim!: dvdE)
  then have "unat paddr + 4096 \<le> unat mx" using lt by simp
  then show "paddr + 0x1000 \<le> mx" using u by (simp add: word_le_nat_alt)
qed

lemma setup_loop_filled:
  assumes lay: "ept_layout mx v" and ty: "ept_types_ok mx (vmx_getmemorytypeforphysicalpage v)"
  shows "take_bit 12 paddr = 0 \<Longrightarrow> paddr \<le> mx \<Longrightarrow> ept_filled mx rpb (vmx_getmemorytypeforphysicalpage v) v (unat paddr) m \<Longrightarrow>
    \<exists>m'. setupEPT_loop mx rpb v paddr m = Some m' \<and> ept_filled mx rpb (vmx_getmemorytypeforphysicalpage v) v (unat mx) m'"
proof (induction "unat mx - unat paddr" arbitrary: paddr m rule: less_induct)
  case less
  show ?case
  proof (cases "paddr < mx")
    case True
    note n = next_page [OF _ _ less.prems(1) True]
    have mx: "take_bit 12 mx = 0" "unat mx \<le> 2 ^ 48" using lay by (simp_all add: ept_layout_def)
    obtain t where t: "vmx_getmemorytypeforphysicalpage v paddr = Some t" "vmx_mtrr_checktype t"
      using ty True less.prems(1) unfolding ept_types_ok_def by blast
    obtain m1 where m1: "setupEPT_page rpb v paddr m = Some m1" "ept_filled mx rpb (vmx_getmemorytypeforphysicalpage v) v (unat paddr + 4096) m1"
      using setup_page_filled [OF lay less.prems(1) True less.prems(3) t] by blast
    have "unat mx - unat (paddr + 0x1000) < unat mx - unat paddr" using True n(1) [OF mx] by (simp add: word_less_nat_alt)
    from less.hyps [OF this n(2,3) [OF mx]] m1 n(1) [OF mx]
    obtain m' where "setupEPT_loop mx rpb v (paddr + 0x1000) m1 = Some m'" "ept_filled mx rpb (vmx_getmemorytypeforphysicalpage v) v (unat mx) m'"
      by auto
    then show ?thesis using m1(1) True by (subst setupEPT_loop.simps) simp
  next
    case False
    then show ?thesis using less.prems(2,3) by (subst setupEPT_loop.simps) simp
  qed
qed

lemma setup_loop_types:
  assumes mx: "take_bit 12 mx = 0" "unat mx \<le> 2 ^ 48"
  shows "take_bit 12 paddr = 0 \<Longrightarrow> setupEPT_loop mx rpb v paddr m = Some m' \<Longrightarrow> paddr \<le> p \<Longrightarrow> p < mx \<Longrightarrow> take_bit 12 p = 0 \<Longrightarrow>
    \<exists>t. vmx_getmemorytypeforphysicalpage v p = Some t \<and> vmx_mtrr_checktype t"
proof (induction "unat mx - unat paddr" arbitrary: paddr m rule: less_induct)
  case less
  have lt: "paddr < mx" using less.prems(3,4) by (rule le_less_trans)
  note n = next_page [OF mx less.prems(1) lt]
  have l: "setupEPT_loop mx rpb v paddr m = setupEPT_page rpb v paddr m \<bind> (\<lambda>m. setupEPT_loop mx rpb v (paddr + 0x1000) m)"
    using lt by (subst setupEPT_loop.simps) simp
  obtain m1 where m1: "setupEPT_page rpb v paddr m = Some m1" "setupEPT_loop mx rpb v (paddr + 0x1000) m1 = Some m'"
    using less.prems(2) unfolding l by (auto simp: bind_eq_Some_conv)
  show ?case
  proof (cases "p = paddr")
    case True
    then show ?thesis using m1(1) by (auto simp: setup_page_eq [OF less.prems(1)] bind_eq_Some_conv)
  next
    case False
    then have "paddr < p" using less.prems(3) by simp
    then have "paddr + 0x1000 \<le> p" using next_page(3) [OF less.prems(5) _ less.prems(1)] less.prems(4) mx(2) by (simp add: word_less_nat_alt)
    moreover have "unat mx - unat (paddr + 0x1000) < unat mx - unat paddr" using lt n(1) by (simp add: word_less_nat_alt)
    ultimately show ?thesis using less.hyps [OF _ n(2) m1(2)] less.prems(4,5) by blast
  qed
qed

lemma setup_filled:
  assumes "ept_layout mx v" "ept_filled mx rpb (vmx_getmemorytypeforphysicalpage v) v 0 m"
  shows "ept_types_ok mx (vmx_getmemorytypeforphysicalpage v) \<longleftrightarrow> vmx_setupEPT mx rpb v m \<noteq> None"
    and "vmx_setupEPT mx rpb v m = Some m' \<Longrightarrow> ept_filled mx rpb (vmx_getmemorytypeforphysicalpage v) v (unat mx) m'"
proof -
  have mx: "take_bit 12 mx = 0" "unat mx \<le> 2 ^ 48" using assms(1) by (simp_all add: ept_layout_def)
  have fwd: "\<exists>m'. vmx_setupEPT mx rpb v m = Some m' \<and> ept_filled mx rpb (vmx_getmemorytypeforphysicalpage v) v (unat mx) m'"
    if "ept_types_ok mx (vmx_getmemorytypeforphysicalpage v)"
    using setup_loop_filled [OF assms(1) that, of 0 rpb m] assms(2) by (simp add: vmx_setupEPT_def)
  have bwd: "ept_types_ok mx (vmx_getmemorytypeforphysicalpage v)" if "vmx_setupEPT mx rpb v m = Some m'" for m'
    using setup_loop_types [OF mx, of 0 rpb v m m'] that by (simp add: vmx_setupEPT_def ept_types_ok_def)
  show "ept_types_ok mx (vmx_getmemorytypeforphysicalpage v) \<longleftrightarrow> vmx_setupEPT mx rpb v m \<noteq> None" using fwd bwd by blast
  show "ept_filled mx rpb (vmx_getmemorytypeforphysicalpage v) v (unat mx) m'" if "vmx_setupEPT mx rpb v m = Some m'"
    using fwd [OF bwd [OF that]] that by simp
qed

subsection \<open>Walks\<close>

lemma ept_table_fields:
  assumes "take_bit 40 x = x" "l = 2 \<or> l = 3 \<or> l = 4"
  defines "e \<equiv> \<lparr>pmeo_pme = table_entry x, pmeo_t = HPT_TYPE_EPT, pmeo_lvl = l\<rparr>"
  shows "hpt_pmeo_getprot e = Some HPT_PROTS_RWX" "hpt_pmeo_getuser e = Some True" "hpt_pmeo_is_present e = Some True"
    "hpt_pmeo_is_page e = Some False" "hpt_pmeo_get_address e = Some (push_bit 12 x)"
proof -
  note bits = table_entry_bits [OF assms(1)]
  show prot: "hpt_pmeo_getprot e = Some HPT_PROTS_RWX"
    using assms(2) bits by (auto simp: e_def hpt_pmeo_getprot_def hpt_pme_getprot_eq prot_of_def)
  show "hpt_pmeo_getuser e = Some True"
    using assms(2) by (auto simp: e_def hpt_pmeo_getuser_def hpt_pme_getuser_def)
  show "hpt_pmeo_is_present e = Some True"
    using assms(2) prot by (auto simp: e_def hpt_pmeo_is_present_def hpt_pme_is_present_def hpt_pmeo_getprot_def)
  have page: "hpt_pme_is_page HPT_TYPE_EPT l (table_entry x) = Some False"
    using assms(2) bits by (auto simp: hpt_pme_is_page_eq)
  then show "hpt_pmeo_is_page e = Some False" by (simp add: e_def hpt_pmeo_is_page_def)
  show "hpt_pmeo_get_address e = Some (push_bit 12 x)"
    using hpt_pme_get_address_eq [OF page] bits(6) by (simp add: e_def hpt_pmeo_get_address_def addr_mask_def)
qed

lemma ept_leaf_bits:
  assumes "take_bit 12 p = 0" "unat p < 2 ^ 48" "vmx_mtrr_checktype t"
  shows "bit (ept_leaf rpb p t) n \<longleftrightarrow> (if n < 3 then \<not> ept_hidden rpb p else if n < 6 then bit t (n - 3) else bit p n)"
proof -
  have seven: "bit (7 :: u64) n \<longleftrightarrow> n < 3"
  proof -
    have "(7 :: u64) = mask 3" by (simp add: mask_eq_exp_minus_1)
    then show ?thesis by (simp only: bit_mask_iff) (auto simp: min_def)
  qed
  have low: "\<not> bit p n" if "n < 12" using assms(1) that by (metis bit_0_eq bit_take_bit_iff bot_apply bot_bool_def)
  have "take_bit 3 t = t" using assms(3) by (auto simp: vmx_mtrr_checktype_def)
  then have hi: "\<not> bit t k" if "3 \<le> k" for k using that by (metis bit_take_bit_iff not_less)
  have "bit (push_bit 3 (ucast t) :: u64) n \<longleftrightarrow> 3 \<le> n \<and> n < 6 \<and> bit t (n - 3)"
    using hi [of "n - 3"] bit_imp_le_length [of t "n - 3"] by (cases "n < 6") (auto simp: bit_simps)
  then show ?thesis using seven low by (auto simp: ept_leaf_def bit_simps)
qed

lemma ept_leaf_fields:
  fixes rpb :: rpb
  assumes p: "take_bit 12 p = 0" "unat p < 2 ^ 48" and t: "vmx_mtrr_checktype t"
  defines "e \<equiv> \<lparr>pmeo_pme = ept_leaf rpb p t, pmeo_t = HPT_TYPE_EPT, pmeo_lvl = 1\<rparr>"
  shows "hpt_pmeo_getprot e = Some (if ept_hidden rpb p then 0 else HPT_PROTS_RWX)" "hpt_pmeo_getuser e = Some True"
    "hpt_pmeo_is_present e = Some (\<not> ept_hidden rpb p)" "hpt_pmeo_is_page e = Some True" "hpt_pmeo_get_address e = Some p"
proof -
  note bits = ept_leaf_bits [OF p t, of rpb]
  show prot: "hpt_pmeo_getprot e = Some (if ept_hidden rpb p then 0 else HPT_PROTS_RWX)"
    by (simp add: e_def hpt_pmeo_getprot_def hpt_pme_getprot_eq prot_of_def bits)
  show "hpt_pmeo_getuser e = Some True" by (simp add: e_def hpt_pmeo_getuser_def hpt_pme_getuser_def)
  show "hpt_pmeo_is_present e = Some (\<not> ept_hidden rpb p)"
    using prot by (simp add: e_def hpt_pmeo_is_present_def hpt_pme_is_present_def hpt_pmeo_getprot_def)
  have page: "hpt_pme_is_page HPT_TYPE_EPT 1 (ept_leaf rpb p t) = Some True" by (simp add: hpt_pme_is_page_eq)
  then show "hpt_pmeo_is_page e = Some True" by (simp add: e_def hpt_pmeo_is_page_def)
  have "ept_leaf rpb p t AND MASKRANGE64 51 12 = p"
  proof (rule bit_word_eqI)
    fix n assume "n < LENGTH(64)"
    have "take_bit 48 p = p" using p(2) by (simp add: word_unat_eq_iff unat_take_bit_mod)
    then have "bit p n \<Longrightarrow> n < 48" by (metis bit_take_bit_iff)
    moreover have "bit p n \<Longrightarrow> 12 \<le> n" using p(1) by (metis bit_0_eq bit_take_bit_iff bot_apply bot_bool_def not_less)
    ultimately show "bit (ept_leaf rpb p t AND MASKRANGE64 51 12) n = bit p n"
      by (auto simp: bit_simps bits bit_field)
  qed
  then show "hpt_pmeo_get_address e = Some p"
    using hpt_pme_get_address_eq [OF page] by (simp add: e_def hpt_pmeo_get_address_def addr_mask_def)
qed

lemma ept_empty_prot: "l = 1 \<or> l = 2 \<or> l = 3 \<or> l = 4 \<Longrightarrow> hpt_pmeo_getprot \<lparr>pmeo_pme = 0, pmeo_t = HPT_TYPE_EPT, pmeo_lvl = l\<rparr> = Some 0"
  by (auto simp: hpt_pmeo_getprot_def hpt_pme_getprot_eq prot_of_def)

text \<open>The page map of level \<open>l\<close> on the walk of an address, and the index of its entry among those of the level.\<close>

definition ept_index :: "nat \<Rightarrow> u64 \<Rightarrow> u64" where
  "ept_index l gpa = drop_bit (ept_shift l) (take_bit 48 gpa)"

definition ept_pmo :: "'x vcpu_ept_scheme \<Rightarrow> nat \<Rightarrow> u64 \<Rightarrow> hpt_pmo" where
  "ept_pmo v l gpa = \<lparr>pmo_pm = ept_table v l + push_bit 12 (drop_bit 9 (ept_index l gpa)), pmo_t = HPT_TYPE_EPT, pmo_lvl = l\<rparr>"

lemma ept_shift_eq: "ept_shift l = pm_shift HPT_TYPE_EPT l"
  by (simp add: ept_shift_def pm_shift_def)

lemma split_index: "push_bit 12 (drop_bit 9 x) + 8 * take_bit 9 x = 8 * x" for x :: u64
proof -
  have e: "8 * y = push_bit 3 y" for y :: u64 by (simp add: push_bit_eq_mult)
  have "push_bit 12 (drop_bit 9 x) AND push_bit 3 (take_bit 9 x) = 0" by (rule bit_word_eqI) (auto simp: bit_simps)
  then have "push_bit 12 (drop_bit 9 x) + push_bit 3 (take_bit 9 x) = push_bit 12 (drop_bit 9 x) OR push_bit 3 (take_bit 9 x)"
    by (rule disjunctive_add_eq_or)
  also have "\<dots> = push_bit 3 x"
  proof (rule bit_word_eqI)
    fix n assume "n < LENGTH(64)"
    moreover have "9 + (n - 12) = n - 3" if "12 \<le> n" using that by simp
    ultimately show "bit (push_bit 12 (drop_bit 9 x) OR push_bit 3 (take_bit 9 x)) n = bit (push_bit 3 x) n"
      by (cases "12 \<le> n") (auto simp: bit_simps)
  qed
  finally show ?thesis by (simp add: e)
qed

lemma ept_get_pmeo:
  assumes "l \<in> {1..4}"
  shows "hpt_pm_get_pmeo_by_va m (ept_pmo v l gpa) gpa =
    Some \<lparr>pmeo_pme = pt_get m (ept_table v l) (ept_index l gpa), pmeo_t = HPT_TYPE_EPT, pmeo_lvl = l\<rparr>"
proof -
  have ok: "lvl_ok HPT_TYPE_EPT l" using assms by (auto simp: lvl_ok_def)
  have w: "pm_width HPT_TYPE_EPT l = 9" "pme_size HPT_TYPE_EPT = 8" by (simp_all add: pm_width_def pme_size_def)
  let ?i = "ucast (take_bit 9 (drop_bit (ept_shift l) gpa)) :: u32"
  have i: "hpt_get_pm_idx HPT_TYPE_EPT l gpa = Some ?i" using hpt_get_pm_idx_eq [OF ok, of gpa] w by (simp add: ept_shift_eq)
  have sh: "ept_shift l + 9 \<le> 48" using ept_levels [OF assms] by (auto simp: ept_shift_def)
  have "take_bit 9 (drop_bit (ept_shift l) gpa) = take_bit 9 (ept_index l gpa)"
    unfolding ept_index_def using sh by (intro bit_word_eqI) (auto simp: bit_simps)
  moreover have "of_nat (unat ?i) = take_bit 9 (drop_bit (ept_shift l) gpa)"
    by (simp) (rule bit_word_eqI, auto simp: bit_simps)
  ultimately have "of_nat (8 * unat ?i) = 8 * take_bit 9 (ept_index l gpa)" by simp
  then show ?thesis using split_index [of "ept_index l gpa"] w
    by (simp add: hpt_pm_get_pmeo_by_va_def hpt_pm_get_pme_by_va_eq [OF i] ept_pmo_def pt_get_def add.assoc)
qed

lemma index_unat: "unat (ept_index l gpa) = unat gpa mod 2 ^ 48 div 2 ^ ept_shift l"
  by (simp add: ept_index_def unat_drop_bit_div unat_take_bit_mod)

lemma index_up:
  assumes "l = 2 \<or> l = 3 \<or> l = 4"
  shows "drop_bit 9 (ept_index (l - 1) gpa) = ept_index l gpa"
  using assms by (auto simp: ept_index_def ept_shift_def)

lemma index_row:
  assumes "l = 2 \<or> l = 3 \<or> l = 4" "unat (ept_index l gpa) * 2 ^ ept_shift l < unat mx"
  shows "unat (ept_index (l - 1) gpa) < ept_rows mx (l - 1)"
proof -
  have "unat (ept_index (l - 1) gpa) div 512 = unat (ept_index l gpa)"
    using index_up [OF assms(1), of gpa, symmetric] by (simp add: unat_drop_bit_div)
  moreover have "unat (ept_index l gpa) < ept_used mx l" using assms(2) by (simp add: used_iff)
  moreover have "l - 1 + 1 = l" "l - 1 \<noteq> 4" using assms(1) by auto
  ultimately show ?thesis by (simp add: ept_rows_def div_less_iff_less_mult mult.commute)
qed

lemma ept_pointer:
  assumes lay: "ept_layout mx v" and l: "l = 2 \<or> l = 3 \<or> l = 4" and i: "unat (ept_index l gpa) * 2 ^ ept_shift l < unat mx"
  defines "a \<equiv> ept_table v (l - 1) + push_bit 12 (ept_index l gpa)"
  shows "a \<noteq> 0" "\<exists>x. take_bit 40 x = x \<and> push_bit 12 x = a \<and> table_entry x = a OR 7" "pmo_pm (ept_pmo v (l - 1) gpa) = a"
proof -
  let ?t = "ept_table v (l - 1)" and ?i = "ept_index l gpa"
  have l1: "l - 1 \<in> {1..4}" using l by auto
  have t: "?t \<noteq> 0" "take_bit 12 ?t = 0" "unat ?t + 8 * ept_rows mx (l - 1) \<le> 2 ^ 52" using lay l1 unfolding ept_layout_def by blast+
  have "unat ?i < ept_used mx l" using i by (simp add: used_iff)
  moreover have "l - 1 + 1 = l" "l - 1 \<noteq> 4" using l by auto
  then have "ept_rows mx (l - 1) = 512 * ept_used mx l" by (simp add: ept_rows_def)
  ultimately have r: "unat ?t + 4096 * unat ?i + 4096 \<le> 2 ^ 52" using t(3) by simp
  have p: "unat (push_bit 12 ?i) = 4096 * unat ?i" using r by (intro unat_push_12) simp
  have u: "unat a = unat ?t + 4096 * unat ?i"
    unfolding a_def using r p by (subst unat_add_lem [THEN iffD1]) simp_all
  have "unat ?t \<noteq> 0" using t(1) by (simp add: word_unat_eq_iff)
  then show "a \<noteq> 0" using u by auto
  have "unat ?t mod 4096 = 0" using t(2) unat_take_bit_mod [of 12 ?t] by simp
  then have "unat (take_bit 12 a) = 0" by (simp add: unat_take_bit_mod u mod_add_left_eq [symmetric] del: mod_add_left_eq) 
  then have al: "take_bit 12 a = 0" by (simp add: word_unat_eq_iff)
  have "unat (drop_bit 12 a) < 2 ^ 40" using u r by (simp add: unat_drop_bit_div div_less_iff_less_mult)
  then have "take_bit 40 (drop_bit 12 a) = drop_bit 12 a" by (simp add: word_unat_eq_iff unat_take_bit_mod)
  then show "\<exists>x. take_bit 40 x = x \<and> push_bit 12 x = a \<and> table_entry x = a OR 7"
    using page_floor [OF al] by (intro exI [of _ "drop_bit 12 a"]) (simp add: table_entry_def)
  show "pmo_pm (ept_pmo v (l - 1) gpa) = a" using index_up [OF l, of gpa] by (simp add: ept_pmo_def a_def)
qed

lemma host_ctx_simps:
  "root_pa (guestmem_host_ctx r) = r" "ctx_t (guestmem_host_ctx r) = HPT_TYPE_EPT"
  "pa2ptr (guestmem_host_ctx r) s a sz prot cpl = Some (a, sz)"
  by (simp_all add: guestmem_host_ctx_def guestmem_host_ctx_pa2ptr_def spa2hva_def hva2spa_def)

lemma ept_entry_at:
  assumes "ept_filled mx rpb ty v (unat mx) m" "l = 2 \<or> l = 3 \<or> l = 4" "unat (ept_index l gpa) < ept_rows mx l"
  shows "pt_get m (ept_table v l) (ept_index l gpa) =
    (if unat (ept_index l gpa) * 2 ^ ept_shift l < unat mx then (ept_table v (l - 1) + push_bit 12 (ept_index l gpa)) OR 7 else 0)"
proof -
  have "l \<in> {1..4}" "l \<noteq> 1" using assms(2) by auto
  then show ?thesis using assms(1,3) unfolding ept_filled_def ept_entry_def by (metis (no_types, lifting))
qed

lemma ept_next_lvl:
  assumes lay: "ept_layout mx v" and f: "ept_filled mx rpb ty v (unat mx) (mem s)" and l: "l = 2 \<or> l = 3 \<or> l = 4"
    and row: "unat (ept_index l gpa) < ept_rows mx l" and nz: "pmo_pm (ept_pmo v l gpa) \<noteq> 0"
    and below: "unat (ept_index l gpa) * 2 ^ ept_shift l < unat mx"
  shows "hptw_next_lvl (guestmem_host_ctx r) s (ept_pmo v l gpa) gpa = Some (True, ept_pmo v (l - 1) gpa)"
    and "\<exists>x. take_bit 40 x = x \<and> pt_get (mem s) (ept_table v l) (ept_index l gpa) = table_entry x"
proof -
  let ?i = "ept_index l gpa"
  have l4: "l \<in> {1..4}" using l by auto
  have pl: "pmo_t (ept_pmo v l gpa) = HPT_TYPE_EPT" "pmo_lvl (ept_pmo v l gpa) = l" by (simp_all add: ept_pmo_def)
  obtain x where x: "take_bit 40 x = x" "push_bit 12 x = ept_table v (l - 1) + push_bit 12 ?i"
      "table_entry x = (ept_table v (l - 1) + push_bit 12 ?i) OR 7" using ept_pointer(2) [OF lay l below] by blast
  have en: "pt_get (mem s) (ept_table v l) ?i = table_entry x" using ept_entry_at [OF f l row] below x(3) by simp
  then show "\<exists>x. take_bit 40 x = x \<and> pt_get (mem s) (ept_table v l) ?i = table_entry x" using x(1) by blast
  have sz: "hpt_pm_size HPT_TYPE_EPT (l - 1) = Some 0x1000"
    using hpt_pm_size_eq [of HPT_TYPE_EPT "l - 1"] l by (auto simp: lvl_ok_def pm_width_def pme_size_def)
  show "hptw_next_lvl (guestmem_host_ctx r) s (ept_pmo v l gpa) gpa = Some (True, ept_pmo v (l - 1) gpa)"
    using ept_get_pmeo [OF l4, of "mem s" v gpa] en ept_table_fields [OF x(1) l] sz nz ept_pointer(1,3) [OF lay l below] x(2) pl
    by (simp add: hptw_next_lvl_def host_ctx_simps) (simp add: ept_pmo_def)
qed

lemma ept_walk_down:
  assumes lay: "ept_layout mx v" and f: "ept_filled mx rpb ty v (unat mx) (mem s)" and l: "l = 2 \<or> l = 3 \<or> l = 4"
    and row: "unat (ept_index l gpa) < ept_rows mx l" and acc: "access \<noteq> 0" "access AND HPT_PROTS_RWX = access"
    and nz: "pmo_pm (ept_pmo v l gpa) \<noteq> 0"
  shows "hptw_checked_get_pmeo_loop (guestmem_host_ctx r) s access cpl gpa (ept_pmo v l gpa) =
    (if unat (ept_index l gpa) * 2 ^ ept_shift l < unat mx
     then hptw_checked_get_pmeo_loop (guestmem_host_ctx r) s access cpl gpa (ept_pmo v (l - 1) gpa) else Some ERR)"
proof -
  have l4: "l \<in> {1..4}" using l by auto
  note get = ept_get_pmeo [OF l4, of "mem s" v gpa]
  show ?thesis
  proof (cases "unat (ept_index l gpa) * 2 ^ ept_shift l < unat mx")
    case True
    obtain x where x: "take_bit 40 x = x" "pt_get (mem s) (ept_table v l) (ept_index l gpa) = table_entry x"
      using ept_next_lvl(2) [OF lay f l row nz True] by blast
    show ?thesis using True get x(2) ept_table_fields [OF x(1) l] acc(2) ept_next_lvl(1) [OF lay f l row nz True, of r]
      by (subst hptw_checked_get_pmeo_loop.simps) simp
  next
    case False
    then show ?thesis using get ept_entry_at [OF f l row] ept_empty_prot [OF ept_levels [OF l4]] acc(1)
      by (subst hptw_checked_get_pmeo_loop.simps) (simp add: hpt_pmeo_getuser_def hpt_pme_getuser_def)
  qed
qed

text \<open>An address that the EPT maps: below \<open>mx\<close> and not in a hidden page. The EPT ignores the bits from 48 on.\<close>

definition ept_mapped :: "u64 \<Rightarrow> rpb \<Rightarrow> u64 \<Rightarrow> bool" where
  "ept_mapped mx rpb gpa \<longleftrightarrow> take_bit 48 gpa < mx \<and> \<not> ept_hidden rpb (push_bit 12 (ept_index 1 gpa))"

definition ept_leaf_pmeo :: "rpb \<Rightarrow> (u64 \<Rightarrow> u32 exec) \<Rightarrow> u64 \<Rightarrow> hpt_pmeo" where
  "ept_leaf_pmeo rpb ty gpa = (let p = push_bit 12 (ept_index 1 gpa)
     in \<lparr>pmeo_pme = ept_leaf rpb p (the (ty p)), pmeo_t = HPT_TYPE_EPT, pmeo_lvl = 1\<rparr>)"

lemma index_below:
  assumes "take_bit 12 mx = 0"
  shows "unat (ept_index 1 gpa) * 2 ^ ept_shift 1 < unat mx \<longleftrightarrow> take_bit 48 gpa < mx"
    and "unat (ept_index l gpa) * 2 ^ ept_shift l \<le> unat (take_bit 48 gpa)"
proof -
  let ?g = "unat gpa mod 2 ^ 48"
  have m: "unat mx mod 4096 = 0" using assms unat_take_bit_mod [of 12 mx] by simp
  then obtain b where b: "unat mx = 4096 * b" by (auto dest!: mod_0_imp_dvd elim!: dvdE)
  have "?g div 4096 * 4096 < 4096 * b \<longleftrightarrow> ?g < 4096 * b" by (simp add: mult.commute div_less_iff_less_mult)
  then show "unat (ept_index 1 gpa) * 2 ^ ept_shift 1 < unat mx \<longleftrightarrow> take_bit 48 gpa < mx"
    unfolding word_less_nat_alt b by (simp add: index_unat unat_take_bit_mod ept_shift_def)
  show "unat (ept_index l gpa) * 2 ^ ept_shift l \<le> unat (take_bit 48 gpa)"
    by (simp add: index_unat unat_take_bit_mod)
qed

lemma page_of_index:
  "take_bit 12 (push_bit 12 (ept_index 1 gpa)) = 0" "unat (push_bit 12 (ept_index 1 gpa)) < 2 ^ 48"
  "push_bit 12 (ept_index 1 gpa) + take_bit 12 gpa = take_bit 48 gpa" "push_bit 12 (ept_index 1 gpa) \<le> take_bit 48 gpa"
proof -
  let ?p = "push_bit 12 (ept_index 1 gpa)"
  show "take_bit 12 ?p = 0" by (rule bit_word_eqI) (auto simp: bit_simps)
  have "?p AND take_bit 12 gpa = 0" by (rule bit_word_eqI) (auto simp: bit_simps)
  then have "?p + take_bit 12 gpa = ?p OR take_bit 12 gpa" by (rule disjunctive_add_eq_or)
  also have "\<dots> = take_bit 48 gpa" by (rule bit_word_eqI) (auto simp: bit_simps ept_index_def ept_shift_def)
  finally show "?p + take_bit 12 gpa = take_bit 48 gpa" .
  have "take_bit 48 ?p = ?p" by (rule bit_word_eqI) (auto simp: bit_simps ept_index_def ept_shift_def)
  then show "unat ?p < 2 ^ 48" using unat_take_bit_less [of 48 ?p] by simp
  have i: "unat (ept_index 1 gpa) = unat gpa mod 2 ^ 48 div 4096" by (simp add: index_unat ept_shift_def)
  then have "4096 * unat (ept_index 1 gpa) \<le> unat gpa mod 2 ^ 48" by simp
  also have "\<dots> < 2 ^ 64" by (rule less_trans [OF mod_less_divisor]) simp_all
  finally have "unat ?p = 4096 * unat (ept_index 1 gpa)" by (rule unat_push_12)
  then have "unat ?p = 4096 * (unat gpa mod 2 ^ 48 div 4096)" by (simp only: i)
  then show "?p \<le> take_bit 48 gpa" by (simp add: word_le_nat_alt unat_take_bit_mod)
qed

lemma ept_walk_leaf:
  assumes mx: "take_bit 12 mx = 0" and f: "ept_filled mx rpb ty v (unat mx) (mem s)" and ty: "ept_types_ok mx ty"
    and row: "unat (ept_index 1 gpa) < ept_rows mx 1" and acc: "access \<noteq> 0" "access AND HPT_PROTS_RWX = access"
    and nz: "pmo_pm (ept_pmo v 1 gpa) \<noteq> 0"
  shows "hptw_checked_get_pmeo_loop (guestmem_host_ctx r) s access cpl gpa (ept_pmo v 1 gpa) =
    Some (if ept_mapped mx rpb gpa then OK (ept_leaf_pmeo rpb ty gpa, ept_pmo v 1 gpa) else ERR)"
proof -
  let ?i = "ept_index 1 gpa" and ?p = "push_bit 12 (ept_index 1 gpa)"
  have e: "pt_get (mem s) (ept_table v 1) ?i = (if take_bit 48 gpa < mx then ept_entry rpb ty v 1 ?i else 0)"
    using f row index_below(1) [OF mx, of gpa] unfolding ept_filled_def by (simp del: One_nat_def)
  note get = ept_get_pmeo [of 1 "mem s" v gpa]
  show ?thesis
  proof (cases "take_bit 48 gpa < mx")
    case True
    have "?p < mx" using page_of_index(4) True by (rule le_less_trans)
    then obtain t where t: "ty ?p = Some t" "vmx_mtrr_checktype t"
      using ty page_of_index(1) [of gpa] unfolding ept_types_ok_def by blast
    note fields = ept_leaf_fields [OF page_of_index(1,2) [of gpa] t(2), of rpb]
    have en: "pt_get (mem s) (ept_table v 1) ?i = ept_leaf rpb ?p t" using e True t(1) by (simp add: ept_entry_def)
    have "hptw_next_lvl (guestmem_host_ctx r) s (ept_pmo v 1 gpa) gpa = Some (False, ept_pmo v 1 gpa)"
      using get en fields nz by (simp add: hptw_next_lvl_def)
    then show ?thesis using True get en fields acc t(1)
      by (subst hptw_checked_get_pmeo_loop.simps) (simp add: ept_mapped_def ept_leaf_pmeo_def Let_def)
  next
    case False
    then show ?thesis using get e ept_empty_prot [of 1] acc(1)
      by (subst hptw_checked_get_pmeo_loop.simps) (simp add: hpt_pmeo_getuser_def hpt_pme_getuser_def ept_mapped_def)
  qed
qed

lemma ept_mapped_leaf:
  assumes "take_bit 12 mx = 0" "ept_types_ok mx ty" "ept_mapped mx rpb gpa"
  shows "hpt_pmeo_is_present (ept_leaf_pmeo rpb ty gpa) = Some True" "hpt_pmeo_is_page (ept_leaf_pmeo rpb ty gpa) = Some True"
    "hpt_pmeo_get_address (ept_leaf_pmeo rpb ty gpa) = Some (push_bit 12 (ept_index 1 gpa))"
proof -
  let ?p = "push_bit 12 (ept_index 1 gpa)"
  have "?p < mx" using page_of_index(4) by (rule le_less_trans) (use assms(3) in \<open>simp add: ept_mapped_def\<close>)
  then obtain t where t: "ty ?p = Some t" "vmx_mtrr_checktype t"
    using assms(2) page_of_index(1) [of gpa] unfolding ept_types_ok_def by blast
  note fields = ept_leaf_fields [OF page_of_index(1,2) [of gpa] t(2), of rpb]
  show "hpt_pmeo_is_present (ept_leaf_pmeo rpb ty gpa) = Some True" "hpt_pmeo_is_page (ept_leaf_pmeo rpb ty gpa) = Some True"
    "hpt_pmeo_get_address (ept_leaf_pmeo rpb ty gpa) = Some ?p"
    using fields t(1) assms(3) by (simp_all add: ept_leaf_pmeo_def ept_mapped_def Let_def)
qed

lemma ept_root:
  assumes "ept_layout mx v"
  shows "hptw_get_root (guestmem_host_ctx (ept_table v 4)) s = Some (OK (ept_pmo v 4 gpa))" "pmo_pm (ept_pmo v 4 gpa) \<noteq> 0"
    "unat (ept_index 4 gpa) < ept_rows mx 4"
proof -
  have i4: "ept_index 4 gpa < 2 ^ 9"
    by (simp add: word_less_nat_alt index_unat ept_shift_def div_less_iff_less_mult)
  then show "unat (ept_index 4 gpa) < ept_rows mx 4" by (simp add: ept_rows_def word_less_nat_alt)
  have "drop_bit 9 (ept_index 4 gpa) = 0" using i4 by (simp add: word_unat_eq_iff unat_drop_bit_div word_less_nat_alt)
  then have root: "ept_pmo v 4 gpa = \<lparr>pmo_pm = ept_table v 4, pmo_t = HPT_TYPE_EPT, pmo_lvl = 4\<rparr>" by (simp add: ept_pmo_def)
  have t4: "ept_table v 4 \<noteq> 0" using assms unfolding ept_layout_def by (metis atLeastAtMost_iff numeral_le_iff one_le_numeral order_refl semiring_norm(68))
  then show "pmo_pm (ept_pmo v 4 gpa) \<noteq> 0" using root by simp
  show "hptw_get_root (guestmem_host_ctx (ept_table v 4)) s = Some (OK (ept_pmo v 4 gpa))"
    using t4 hpt_pm_size_eq [of HPT_TYPE_EPT 4] by (simp add: hptw_get_root_def host_ctx_simps root lvl_ok_def)
qed

lemma ept_walk:
  assumes lay: "ept_layout mx v" and f: "ept_filled mx rpb ty v (unat mx) (mem s)" and ty: "ept_types_ok mx ty"
    and acc: "access \<noteq> 0" "access AND HPT_PROTS_RWX = access"
  shows "hptw_checked_get_pmeo (guestmem_host_ctx (ept_table v 4)) s access cpl gpa =
    Some (if ept_mapped mx rpb gpa then OK (ept_leaf_pmeo rpb ty gpa) else ERR)"
proof -
  let ?loop = "\<lambda>l. hptw_checked_get_pmeo_loop (guestmem_host_ctx (ept_table v 4)) s access cpl gpa (ept_pmo v l gpa)"
  let ?in = "\<lambda>l. unat (ept_index l gpa) * 2 ^ ept_shift l < unat mx"
  have mx: "take_bit 12 mx = 0" using lay by (simp add: ept_layout_def)
  have nz: "pmo_pm (ept_pmo v (l - 1) gpa) \<noteq> 0" if "l = 2 \<or> l = 3 \<or> l = 4" "?in l" for l
    using ept_pointer(1,3) [OF lay that] by simp
  note down = ept_walk_down [OF lay f _ _ acc, where r = "ept_table v 4" and cpl = cpl and gpa = gpa]
  have s4: "?loop 4 = (if ?in 4 then ?loop 3 else Some ERR)" using down [of 4] ept_root(2,3) [OF lay] by simp
  have s3: "?loop 3 = (if ?in 3 then ?loop 2 else Some ERR)" if "?in 4"
    using down [of 3] index_row [of 4 gpa mx] nz [of 4] that by simp
  have s2: "?loop 2 = (if ?in 2 then ?loop 1 else Some ERR)" if "?in 3"
    using down [of 2] index_row [of 3 gpa mx] nz [of 3] that by simp
  have leaf: "?loop 1 = Some (if ept_mapped mx rpb gpa then OK (ept_leaf_pmeo rpb ty gpa, ept_pmo v 1 gpa) else ERR)" if "?in 2"
    using ept_walk_leaf [OF mx f ty _ acc] index_row [of 2 gpa mx] nz [of 2] that by simp
  have "?loop 4 = Some (if ept_mapped mx rpb gpa then OK (ept_leaf_pmeo rpb ty gpa, ept_pmo v 1 gpa) else ERR)"
  proof (cases "?in 4 \<and> ?in 3 \<and> ?in 2")
    case True
    then have "?loop 4 = ?loop 1" using s4 s3 s2 by (simp only: simp_thms if_True)
    then show ?thesis using leaf True by simp
  next
    case False
    then have "\<not> ept_mapped mx rpb gpa" using index_below(2) [of mx _ gpa, OF mx] unfolding ept_mapped_def word_less_nat_alt by (meson le_less_trans)
    moreover have "?loop 4 = Some ERR"
      using False s4 s3 s2 by (cases "?in 4"; cases "?in 3") (simp_all only: simp_thms if_True if_False)
    ultimately show ?thesis by simp
  qed
  moreover have "hpt_pmeo_is_present (ept_leaf_pmeo rpb ty gpa) = Some True" "hpt_pmeo_is_page (ept_leaf_pmeo rpb ty gpa) = Some True"
    if m: "ept_mapped mx rpb gpa"
    using ept_mapped_leaf [OF mx ty m] by simp_all
  ultimately show ?thesis using ept_root(1) [OF lay, of s gpa] by (simp add: hptw_checked_get_pmeo_def) (simp add: ept_pmo_def)
qed

lemma ept_access:
  assumes lay: "ept_layout mx v" and f: "ept_filled mx rpb ty v (unat mx) (mem s)" and ty: "ept_types_ok mx ty"
    and acc: "access \<noteq> 0" "access AND HPT_PROTS_RWX = access"
  shows "hptw_checked_access_va (guestmem_host_ctx (ept_table v 4)) s access cpl gpa sz =
    Some (if ept_mapped mx rpb gpa then (take_bit 48 gpa, min sz (0x1000 - take_bit 12 gpa)) else (0, 0))"
proof (cases "ept_mapped mx rpb gpa")
  case True
  let ?e = "ept_leaf_pmeo rpb ty gpa"
  have mx: "take_bit 12 mx = 0" using lay by (simp add: ept_layout_def)
  note fields = ept_mapped_leaf [OF mx ty True]
  have e: "pmeo_t ?e = HPT_TYPE_EPT" "pmeo_lvl ?e = 1" "pm_shift HPT_TYPE_EPT 1 = 12" by (simp_all add: ept_leaf_pmeo_def Let_def pm_shift_def)
  have pa: "hpt_pmeo_va_to_pa ?e gpa = Some (take_bit 48 gpa)"
    using hpt_pmeo_va_to_pa_eq [OF fields(2,3)] e page_of_index(3) by simp
  have "hpt_remaining_on_page ?e (take_bit 48 gpa) = Some (0x1000 - take_bit 12 gpa)"
    using hpt_remaining_on_page_eq [of ?e "take_bit 48 gpa"] e by (simp add: lvl_ok_def)
  then show ?thesis using ept_walk [OF assms] pa True by (simp add: hptw_checked_access_va_def host_ctx_simps)
next
  case False
  then show ?thesis using ept_walk [OF assms] by (simp add: hptw_checked_access_va_def)
qed

text \<open>The walk without access checks finds the leaf of every address below \<open>mx\<close>, that of a hidden page too, and its address.\<close>

lemma ept_get_pmo:
  assumes lay: "ept_layout mx v" and f: "ept_filled mx rpb ty v (unat mx) (mem s)" and g: "take_bit 48 gpa < mx"
  shows "hptw_get_pmo (guestmem_host_ctx (ept_table v 4)) s 1 gpa = Some (ept_pmo v 1 gpa)" "unat (ept_index 1 gpa) < ept_rows mx 1"
proof -
  let ?loop = "\<lambda>l. hptw_get_pmo_loop (guestmem_host_ctx (ept_table v 4)) s (ept_pmo v l gpa) 1 gpa"
  have mx: "take_bit 12 mx = 0" using lay by (simp add: ept_layout_def)
  have below: "unat (ept_index l gpa) * 2 ^ ept_shift l < unat mx" for l
    using index_below(2) [OF mx, of l gpa] g unfolding word_less_nat_alt by linarith
  have step: "?loop l = ?loop (l - 1)" "pmo_pm (ept_pmo v (l - 1) gpa) \<noteq> 0" "unat (ept_index (l - 1) gpa) < ept_rows mx (l - 1)"
    if l: "l = 2 \<or> l = 3 \<or> l = 4" "unat (ept_index l gpa) < ept_rows mx l" "pmo_pm (ept_pmo v l gpa) \<noteq> 0" for l
  proof -
    have "1 < pmo_lvl (ept_pmo v l gpa)" using l(1) by (auto simp: ept_pmo_def)
    then show "?loop l = ?loop (l - 1)" using ept_next_lvl(1) [OF lay f l below]
      by (subst hptw_get_pmo_loop.simps) simp
    show "pmo_pm (ept_pmo v (l - 1) gpa) \<noteq> 0" using ept_pointer(1,3) [OF lay l(1) below] by simp
    show "unat (ept_index (l - 1) gpa) < ept_rows mx (l - 1)" by (rule index_row [OF l(1) below])
  qed
  note r = ept_root(2,3) [OF lay, of gpa]
  note s4 = step [of 4, simplified, OF r(2,1)]
  note s3 = step [of 3, simplified, OF s4(3,2)]
  note s2 = step [of 2, simplified, OF s3(3,2)]
  have "?loop 1 = Some (ept_pmo v 1 gpa)" by (subst hptw_get_pmo_loop.simps) (simp add: ept_pmo_def)
  then have "?loop 4 = Some (ept_pmo v 1 gpa)" using s4(1) s3(1) s2(1) by simp
  then show "hptw_get_pmo (guestmem_host_ctx (ept_table v 4)) s 1 gpa = Some (ept_pmo v 1 gpa)"
    using ept_root(1) [OF lay, of s gpa] by (simp add: hptw_get_pmo_def)
  show "unat (ept_index 1 gpa) < ept_rows mx 1" using s2(3) by simp
qed

lemma ept_gpa_to_spa:
  assumes lay: "ept_layout mx v" and f: "ept_filled mx rpb ty v (unat mx) (mem s)" and ty: "ept_types_ok mx ty" and g: "take_bit 48 gpa < mx"
  shows "hptw_gpa_to_spa (guestmem_host_ctx (ept_table v 4)) s gpa = Some (take_bit 48 gpa)"
proof -
  let ?p = "push_bit 12 (ept_index 1 gpa)"
  have mx: "take_bit 12 mx = 0" using lay by (simp add: ept_layout_def)
  have "?p < mx" using page_of_index(4) g by (rule le_less_trans)
  then obtain t where t: "ty ?p = Some t" "vmx_mtrr_checktype t"
    using ty page_of_index(1) [of gpa] unfolding ept_types_ok_def by blast
  let ?e = "\<lparr>pmeo_pme = ept_leaf rpb ?p t, pmeo_t = HPT_TYPE_EPT, pmeo_lvl = 1\<rparr>"
  have "pt_get (mem s) (ept_table v 1) (ept_index 1 gpa) = ept_leaf rpb ?p t"
    using f ept_get_pmo(2) [OF lay f g] index_below(1) [OF mx, of gpa] g t(1) unfolding ept_filled_def
    by (simp add: ept_entry_def del: One_nat_def)
  then have "hptw_get_pmeo (guestmem_host_ctx (ept_table v 4)) s 1 gpa = Some ?e"
    using ept_get_pmo(1) [OF lay f g] ept_get_pmeo [of 1 "mem s" v gpa] by (simp add: hptw_get_pmeo_def)
  moreover have "hpt_pmeo_va_to_pa ?e gpa = Some (take_bit 48 gpa)"
    using hpt_pmeo_va_to_pa_eq [OF ept_leaf_fields(4,5) [OF page_of_index(1,2) [of gpa] t(2), of rpb]] page_of_index(3)
    by (simp add: pm_shift_def)
  ultimately show ?thesis by (simp add: hptw_gpa_to_spa_def hptw_va_to_pa_def)
qed

subsection \<open>Change of the memory types\<close>

lemma leaf_retype:
  assumes "take_bit 12 p = 0" "unat p < 2 ^ 48" "vmx_mtrr_checktype t" "vmx_mtrr_checktype t'"
  shows "(ept_leaf rpb p t AND NOT 0x38) OR push_bit 3 (ucast t') = ept_leaf rpb p t'"
proof (rule bit_word_eqI)
  fix n assume "n < LENGTH(64)"
  note b = ept_leaf_bits [OF assms(1,2,3), of rpb n] and b' = ept_leaf_bits [OF assms(1,2,4), of rpb n]
  have e: "(NOT 0x38 :: u64) = NOT (push_bit 3 (mask 3))" by (simp add: mask_eq_exp_minus_1)
  have m: "bit (NOT 0x38 :: u64) n \<longleftrightarrow> \<not> (3 \<le> n \<and> n < 6)"
    unfolding e using \<open>n < LENGTH(64)\<close> by (auto simp only: bit_simps) auto
  have "take_bit 3 t' = t'" using assms(4) by (auto simp: vmx_mtrr_checktype_def)
  then have "\<not> bit t' k" if "3 \<le> k" for k using that by (metis bit_take_bit_iff not_less)
  then have q: "bit (push_bit 3 (ucast t') :: u64) n \<longleftrightarrow> 3 \<le> n \<and> n < 6 \<and> bit t' (n - 3)"
    using bit_imp_le_length [of t' "n - 3"] by (cases "n < 6") (auto simp: bit_simps)
  show "bit ((ept_leaf rpb p t AND NOT 0x38) OR push_bit 3 (ucast t')) n = bit (ept_leaf rpb p t') n"
    unfolding bit_or_iff bit_and_iff m q b b' by auto
qed

lemma filled_cong:
  assumes "\<And>l. ept_table v' l = ept_table v l" "\<And>p. p < mx \<Longrightarrow> take_bit 12 p = 0 \<Longrightarrow> ty' p = ty p"
    and lay: "ept_layout mx v" and f: "ept_filled mx rpb ty v (unat mx) m"
  shows "ept_filled mx rpb ty' v' (unat mx) m"
proof -
  have mx48: "unat mx \<le> 2 ^ 48" using lay by (simp add: ept_layout_def)
  have "ept_entry rpb ty' v' l i = ept_entry rpb ty v l i" if "l \<in> {1..4}" "unat i * 2 ^ ept_shift l < unat mx" for l i
  proof (cases "l = 1")
    case True
    have lt: "4096 * unat i < unat mx" using that(2) True by (simp add: ept_shift_def)
    then have u: "unat (push_bit 12 i) = 4096 * unat i" using mx48 by (intro unat_push_12) simp
    have "take_bit 12 (push_bit 12 i) = 0" by (rule bit_word_eqI) (auto simp: bit_simps)
    then show ?thesis using assms(2) [of "push_bit 12 i"] True lt u by (simp add: ept_entry_def word_less_nat_alt)
  qed (simp add: ept_entry_def assms(1))
  then show ?thesis using f by (simp add: ept_filled_def assms(1))
qed

lemma page_index:
  assumes "take_bit 12 paddr = 0"
  shows "push_bit 12 (paddr div 0x1000) = paddr" "unat (paddr div 0x1000) * 2 ^ ept_shift 1 = unat (paddr :: u64)"
proof -
  have i: "paddr div 0x1000 = drop_bit 12 paddr" by (simp add: drop_bit_eq_div)
  then show "push_bit 12 (paddr div 0x1000) = paddr" using page_floor [OF assms] by simp
  show "unat (paddr div 0x1000) * 2 ^ ept_shift 1 = unat paddr"
    using aligned_start_iff [of 12 paddr "paddr div 0x1000"] assms i by (simp add: ept_shift_def)
qed

text \<open>Up to \<open>paddr\<close> the new types are in place.\<close>

definition retyped :: "(u64 \<Rightarrow> u32 exec) \<Rightarrow> (u64 \<Rightarrow> u32 exec) \<Rightarrow> u64 \<Rightarrow> u64 \<Rightarrow> u32 exec" where
  "retyped ty ty' paddr p = (if p < paddr then ty' p else ty p)"

lemma retyped_other:
  assumes mx: "take_bit 12 mx = 0" "unat mx \<le> 2 ^ 48" and al: "take_bit 12 paddr = 0" "paddr < mx"
    and j: "\<not> (1 = l \<and> paddr div 0x1000 = j)" "unat j * 2 ^ ept_shift l < unat mx"
  shows "ept_entry rpb (retyped ty ty' (paddr + 0x1000)) v l j = ept_entry rpb (retyped ty ty' paddr) v l j"
proof (cases "l = 1")
  case True
  let ?p = "push_bit 12 j" and ?i = "paddr div 0x1000"
  have "4096 * unat j < unat mx" using j(2) True by (simp add: ept_shift_def)
  then have u: "unat ?p = 4096 * unat j" using mx(2) by (intro unat_push_12) simp
  have "unat j \<noteq> unat ?i" using j(1) True by (auto simp: word_unat_eq_iff)
  moreover have "unat paddr = 4096 * unat ?i" using page_index(2) [OF al(1)] by (simp add: ept_shift_def)
  ultimately have "?p < paddr + 0x1000 \<longleftrightarrow> ?p < paddr" using u next_page(1) [OF mx al] by (auto simp: word_less_nat_alt)
  then show ?thesis using True by (simp add: ept_entry_def retyped_def)
qed (simp add: ept_entry_def)

lemma update_step:
  assumes lay: "ept_layout mx v" and al: "take_bit 12 paddr = 0" and lt: "paddr < mx"
    and f: "ept_filled mx rpb (retyped ty ty' paddr) v (unat mx) m" and ty: "ept_types_ok mx ty"
    and t: "ty' paddr = Some t" "vmx_mtrr_checktype t"
  shows "ept_filled mx rpb (retyped ty ty' (paddr + 0x1000)) v (unat mx)
    (pt_set m (vmx_vaddr_ept_p_tables v) (paddr div 0x1000)
       ((pt_get m (vmx_vaddr_ept_p_tables v) (paddr div 0x1000) AND NOT 0x38) OR push_bit 3 (ucast t)))"
proof -
  have mx: "take_bit 12 mx = 0" "unat mx \<le> 2 ^ 48" using lay by (simp_all add: ept_layout_def)
  note n = next_page [OF mx al lt]
  let ?i = "paddr div 0x1000"
  note i = page_index [OF al]
  have lt': "unat ?i * 2 ^ ept_shift 1 < unat mx" using i(2) lt by (simp add: word_less_nat_alt)
  then have row: "unat ?i < ept_rows mx 1" by (intro used_row [OF _ mx(2)]) simp_all
  obtain t0 where t0: "ty paddr = Some t0" "vmx_mtrr_checktype t0" using ty lt al unfolding ept_types_ok_def by blast
  have "pt_get m (ept_table v 1) ?i = ept_leaf rpb paddr t0"
    using f row lt' i(1) t0(1) unfolding ept_filled_def by (simp add: ept_entry_def retyped_def del: One_nat_def)
  moreover have "unat paddr < 2 ^ 48" using lt mx(2) by (simp add: word_less_nat_alt)
  ultimately have new: "(pt_get m (ept_table v 1) ?i AND NOT 0x38) OR push_bit 3 (ucast t) = ept_leaf rpb paddr t"
    using leaf_retype [OF al _ t0(2) t(2)] by simp
  have tbl: "vmx_vaddr_ept_p_tables v = ept_table v 1" by (simp add: ept_table_def)
  show ?thesis unfolding tbl new ept_filled_def
  proof (intro ballI allI impI)
    fix l :: nat and j :: u64
    assume l: "l \<in> {1..4}" and j: "unat j < ept_rows mx l"
    have g: "pt_get (pt_set m (ept_table v 1) ?i (ept_leaf rpb paddr t)) (ept_table v l) j =
        (if 1 = l \<and> ?i = j then ept_leaf rpb paddr t else pt_get m (ept_table v l) j)"
      using pt_get_set [OF lay _ row l j] by simp
    have old: "pt_get m (ept_table v l) j = (if unat j * 2 ^ ept_shift l < unat mx then ept_entry rpb (retyped ty ty' paddr) v l j else 0)"
      using f l j unfolding ept_filled_def by blast
    show "pt_get (pt_set m (ept_table v 1) ?i (ept_leaf rpb paddr t)) (ept_table v l) j =
        (if unat j * 2 ^ ept_shift l < unat mx then ept_entry rpb (retyped ty ty' (paddr + 0x1000)) v l j else 0)"
    proof (cases "1 = l \<and> ?i = j")
      case True
      have "paddr < paddr + 0x1000" using n(1) by (simp add: word_less_nat_alt)
      then have "ept_entry rpb (retyped ty ty' (paddr + 0x1000)) v l j = ept_leaf rpb paddr t"
        using True i(1) t(1) by (auto simp: ept_entry_def retyped_def)
      then show ?thesis using g True lt' by auto
    next
      case False
      show ?thesis unfolding g if_not_P [OF False] old using retyped_other [OF mx al lt False, of rpb ty ty' v] by simp
    qed
  qed
qed

lemma update_loop_filled:
  assumes lay: "ept_layout mx v" and ty: "ept_types_ok mx ty"
  defines "ty' \<equiv> vmx_getmemorytypeforphysicalpage v"
  shows "take_bit 12 paddr = 0 \<Longrightarrow> paddr \<le> mx \<Longrightarrow> ept_filled mx rpb (retyped ty ty' paddr) v (unat mx) m \<Longrightarrow>
    updateEPT_loop v paddr mx m = Some m' \<Longrightarrow>
    ept_filled mx rpb ty' v (unat mx) m' \<and> (\<forall>p. paddr \<le> p \<longrightarrow> p < mx \<longrightarrow> take_bit 12 p = 0 \<longrightarrow> (\<exists>t. ty' p = Some t \<and> vmx_mtrr_checktype t))"
proof (induction "unat mx - unat paddr" arbitrary: paddr m rule: less_induct)
  case less
  have mx: "take_bit 12 mx = 0" "unat mx \<le> 2 ^ 48" using lay by (simp_all add: ept_layout_def)
  show ?case
  proof (cases "paddr < mx")
    case True
    note n = next_page [OF mx less.prems(1) True]
    let ?m = "\<lambda>t. pt_set m (vmx_vaddr_ept_p_tables v) (paddr div 0x1000)
       ((pt_get m (vmx_vaddr_ept_p_tables v) (paddr div 0x1000) AND NOT 0x38) OR push_bit 3 (ucast t))"
    obtain t where t: "ty' paddr = Some t" "vmx_mtrr_checktype t" and r: "updateEPT_loop v (paddr + 0x1000) mx (?m t) = Some m'"
      using less.prems(4) True unfolding ty'_def by (subst (asm) updateEPT_loop.simps) (auto simp: bind_eq_Some_conv)
    have "unat mx - unat (paddr + 0x1000) < unat mx - unat paddr" using True n(1) by (simp add: word_less_nat_alt)
    note IH = less.hyps [OF this n(2,3) update_step [OF lay less.prems(1) True less.prems(3) ty t] r]
    have "\<exists>t. ty' p = Some t \<and> vmx_mtrr_checktype t" if "paddr \<le> p" "p < mx" "take_bit 12 p = 0" for p
    proof (cases "p = paddr")
      case False
      then have "paddr < p" using that(1) by simp
      then have "paddr + 0x1000 \<le> p" using next_page(3) [OF that(3) _ less.prems(1)] that(2) mx(2) by (simp add: word_less_nat_alt)
      then show ?thesis using IH that by blast
    qed (use t in blast)
    then show ?thesis using IH by blast
  next
    case False
    then have e: "paddr = mx" using less.prems(2) by simp
    have "m' = m" using less.prems(4) False by (subst (asm) updateEPT_loop.simps) simp
    then have "ept_filled mx rpb ty' v (unat mx) m'"
      using filled_cong [OF refl _ lay less.prems(3), of ty'] e by (simp add: retyped_def)
    then show ?thesis using e by (simp add: not_less [symmetric])
  qed
qed

lemma update_filled:
  assumes "ept_layout mx v" "ept_types_ok mx ty" "ept_filled mx rpb ty v (unat mx) m" "vmx_updateEPT_memtype v 0 mx m = Some m'"
  shows "ept_filled mx rpb (vmx_getmemorytypeforphysicalpage v) v (unat mx) m'" "ept_types_ok mx (vmx_getmemorytypeforphysicalpage v)"
proof -
  have "retyped ty ty' 0 = ty" for ty' by (simp add: fun_eq_iff retyped_def)
  then have "ept_filled mx rpb (vmx_getmemorytypeforphysicalpage v) v (unat mx) m' \<and> (\<forall>p. 0 \<le> p \<longrightarrow> p < mx \<longrightarrow> take_bit 12 p = 0 \<longrightarrow>
      (\<exists>t. vmx_getmemorytypeforphysicalpage v p = Some t \<and> vmx_mtrr_checktype t))"
    using update_loop_filled [OF assms(1,2), of 0 rpb m m'] assms(3,4) by (simp add: vmx_updateEPT_memtype_def)
  then show "ept_filled mx rpb (vmx_getmemorytypeforphysicalpage v) v (unat mx) m'" "ept_types_ok mx (vmx_getmemorytypeforphysicalpage v)"
    by (simp_all add: ept_types_ok_def)
qed

subsection \<open>The guest behind the EPT\<close>

text \<open>The tables are in the memory of the hypervisor, which does not reach the end of the address space.\<close>

definition ept_owned :: "u64 \<Rightarrow> rpb \<Rightarrow> 'x vcpu_ept_scheme \<Rightarrow> bool" where
  "ept_owned mx rpb v \<longleftrightarrow> 2 ^ 21 \<le> unat (XtVmmRuntimePhysBase rpb)
     \<and> unat (XtVmmRuntimePhysBase rpb) + unat (XtVmmRuntimeSize rpb) < 2 ^ 64
     \<and> (\<forall>l \<in> {1..4}. unat (XtVmmRuntimePhysBase rpb) \<le> unat (ept_table v l)
          \<and> unat (ept_table v l) + 8 * ept_rows mx l \<le> unat (XtVmmRuntimePhysBase rpb) + unat (XtVmmRuntimeSize rpb))"

definition ept_zeroed :: "u64 \<Rightarrow> 'x vcpu_ept_scheme \<Rightarrow> memory \<Rightarrow> bool" where
  "ept_zeroed mx v m \<longleftrightarrow> (\<forall>l \<in> {1..4}. \<forall>i. unat i < ept_rows mx l \<longrightarrow> pt_get m (ept_table v l) i = 0)"

text \<open>
  The steps after initialization: the guest writes an MTRR, which the hypervisor intercepts, or it writes memory, through the EPT.
\<close>

inductive ept_reach :: "u64 \<Rightarrow> rpb \<Rightarrow> 'x vcpu_ept_scheme \<Rightarrow> memory \<Rightarrow> bool" for mx rpb where
  boot: "ept_layout mx v0 \<Longrightarrow> ept_owned mx rpb v0 \<Longrightarrow> ept_zeroed mx v0 m0 \<Longrightarrow>
    length (var_mtrrs (vmx_guestmtrrmsrs v0)) = unat MAX_VARIABLE_MTRR_PAIRS \<Longrightarrow>
    xmhf_memprot_arch_x86vmx_initialize mx rpb p v0 m0 = Some (v, m) \<Longrightarrow> ept_reach mx rpb v m"
| wrmsr: "ept_reach mx rpb v m \<Longrightarrow>
    xmhf_memprot_arch_x86vmx_mtrr_write mx app invept (xmhf_nested_arch_x86vmx_flush_ept02_effect d r) v msr val m = Some (ret, v', m') \<Longrightarrow>
    ept_reach mx rpb v' m'"
| guest_write: "ept_reach mx rpb v m \<Longrightarrow> hpt_eptp_get_address HPT_TYPE_EPT (control_EPT_pointer (vmcs v)) = Some root \<Longrightarrow>
    hptw_checked_access_va (guestmem_host_ctx root) \<lparr>mem = m\<rparr> HPT_PROTS_W cpl gpa sz = Some (a, n) \<Longrightarrow>
    (\<forall>x. n \<le> x - a \<longrightarrow> m' x = m x) \<Longrightarrow> ept_reach mx rpb v m'"

definition ept_inv :: "u64 \<Rightarrow> rpb \<Rightarrow> 'x vcpu_ept_scheme \<Rightarrow> memory \<Rightarrow> bool" where
  "ept_inv mx rpb v m \<longleftrightarrow> ept_layout mx v \<and> ept_owned mx rpb v \<and> mtrr_ok v \<and> ept_types_ok mx (vmx_getmemorytypeforphysicalpage v)
     \<and> ept_filled mx rpb (vmx_getmemorytypeforphysicalpage v) v (unat mx) m \<and> control_EPT_pointer (vmcs v) = ept_table v 4 OR 0x1E"

lemma eptp_root:
  assumes "ept_layout mx v"
  shows "hpt_eptp_get_address HPT_TYPE_EPT (ept_table v 4 OR 0x1E) = Some (ept_table v 4)"
proof -
  let ?t = "ept_table v 4"
  have t: "take_bit 12 ?t = 0" "unat ?t + 8 * ept_rows mx 4 \<le> 2 ^ 52" using assms by (simp_all add: ept_layout_def)
  have "unat ?t < 2 ^ 52" using t(2) by (simp add: ept_rows_def)
  then have "take_bit 52 ?t = ?t" by (simp add: word_unat_eq_iff unat_take_bit_mod)
  then have hi: "bit ?t n \<Longrightarrow> n < 52" for n by (metis bit_take_bit_iff)
  have lo: "bit ?t n \<Longrightarrow> 12 \<le> n" for n using t(1) by (metis bit_0_eq bit_take_bit_iff bot_apply bot_bool_def not_less)
  have "take_bit 12 (0x1E :: int) = 0x1E" by simp
  then have c: "bit (0x1E :: int) n \<Longrightarrow> n < 12" for n by (metis bit_take_bit_iff)
  have "(?t OR 0x1E) AND MASKRANGE64 51 12 = ?t"
    by (rule bit_word_eqI) (auto simp: bit_simps bit_field not_less [symmetric] dest: hi lo c)
  then show ?thesis by (simp add: hpt_eptp_get_address_def field_eval br_copy_mask)
qed

text \<open>A page of which some byte belongs to the hypervisor is hidden.\<close>

lemma mhv_hidden:
  assumes "ept_owned mx rpb v" "xmhf_is_mhv_memory rpb a" "unat p \<le> unat a" "unat a < unat p + 4096"
  shows "ept_hidden rpb p"
proof -
  let ?b = "XtVmmRuntimePhysBase rpb" and ?s = "XtVmmRuntimeSize rpb"
  have o: "2 ^ 21 \<le> unat ?b" "unat ?b + unat ?s < 2 ^ 64" using assms(1) by (simp_all add: ept_owned_def)
  have s: "unat (?b + ?s) = unat ?b + unat ?s" using o(2) by (subst unat_add_lem [THEN iffD1]) simp_all
  have d: "unat (?b - 0x200000) = unat ?b - 2 ^ 21" using o(1) by (subst unat_sub) (simp_all add: word_le_nat_alt)
  show ?thesis using assms(2-) s d by (auto simp: ept_hidden_def xmhf_is_mhv_memory_def word_le_nat_alt word_less_nat_alt Let_def)
qed

lemma granted_not_mhv:
  assumes "ept_owned mx rpb v" "ept_mapped mx rpb gpa" "x - take_bit 48 gpa < 0x1000 - take_bit 12 gpa"
  shows "\<not> xmhf_is_mhv_memory rpb x"
proof
  let ?p = "push_bit 12 (ept_index 1 gpa)" and ?g = "take_bit 48 gpa" and ?o = "take_bit 12 gpa"
  assume mhv: "xmhf_is_mhv_memory rpb x"
  have o: "unat ?o < 4096" using unat_take_bit_less [of 12 gpa] by simp
  have r: "unat (0x1000 - ?o) = 4096 - unat ?o" using o by (subst unat_sub) (simp_all add: word_le_nat_alt)
  have g: "unat ?g = unat ?p + unat ?o" "unat ?p < 2 ^ 48"
    using page_of_index(2,3) [of gpa] o unat_add_lem [of ?p ?o, THEN iffD1] by simp_all
  have k: "unat (x - ?g) < 4096 - unat ?o" using assms(3) r by (simp add: word_less_nat_alt)
  have "unat ((x - ?g) + ?g) = unat (x - ?g) + unat ?g" using k g by (subst unat_add_lem [THEN iffD1]) simp_all
  then have "unat x = unat (x - ?g) + unat ?g" by simp
  then have "ept_hidden rpb ?p" using mhv_hidden [OF assms(1) mhv, of ?p] g k by simp
  then show False using assms(2) by (simp add: ept_mapped_def)
qed

lemma filled_outside:
  assumes lay: "ept_layout mx v" and own: "ept_owned mx rpb v" and f: "ept_filled mx rpb ty v n m"
    and m': "\<And>x. xmhf_is_mhv_memory rpb x \<Longrightarrow> m' x = m x"
  shows "ept_filled mx rpb ty v n m'"
proof -
  have "pt_get m' (ept_table v l) i = pt_get m (ept_table v l) i" if l: "l \<in> {1..4}" and i: "unat i < ept_rows mx l" for l i
    unfolding pt_get_def
  proof (rule load_le_cong, rule m')
    fix k :: nat assume k: "k < 8"
    let ?b = "XtVmmRuntimePhysBase rpb" and ?s = "XtVmmRuntimeSize rpb" and ?a = "ept_table v l + 8 * i"
    have o: "unat ?b + unat ?s < 2 ^ 64" "unat ?b \<le> unat (ept_table v l)" "unat (ept_table v l) + 8 * ept_rows mx l \<le> unat ?b + unat ?s"
      using own l unfolding ept_owned_def by blast+
    have a: "unat ?a = unat (ept_table v l) + 8 * unat i" by (rule slot_unat(1) [OF lay l i])
    have "unat (of_nat k :: u64) = k" using k by (intro unat_of_nat_64) simp
    then have u: "unat (?a + of_nat k) = unat (ept_table v l) + 8 * unat i + k"
      using a i k o by (subst unat_add_lem [THEN iffD1]) simp_all
    have s: "unat (?b + ?s) = unat ?b + unat ?s" using o(1) by (subst unat_add_lem [THEN iffD1]) simp_all
    have "8 * unat i + k < 8 * ept_rows mx l" using i k by simp
    then show "xmhf_is_mhv_memory rpb (?a + of_nat k)"
      using u s o by (simp add: xmhf_is_mhv_memory_def Let_def word_le_nat_alt word_less_nat_alt)
  qed
  then show ?thesis using f by (simp add: ept_filled_def)
qed

lemma leaf_cache:
  assumes "take_bit 12 p = 0" "unat p < 2 ^ 48" "vmx_mtrr_checktype t"
  shows "hpt_pmeo_getcache \<lparr>pmeo_pme = ept_leaf rpb p t, pmeo_t = HPT_TYPE_EPT, pmeo_lvl = 1\<rparr> = Some (ucast t)"
proof -
  have "take_bit 3 t = t" using assms(3) by (auto simp: vmx_mtrr_checktype_def)
  then have hi: "bit t k \<Longrightarrow> k < 3" for k by (metis bit_take_bit_iff)
  have "BR64_GET_HL (ept_leaf rpb p t) 5 3 = ucast t"
    by (rule bit_word_eqI) (auto simp: bit_field bit_simps ept_leaf_bits [OF assms] dest: hi)
  then show ?thesis by (simp add: hpt_pmeo_getcache_def get_pmt_eq)
qed

subsection \<open>The invariant\<close>

lemma ept_invD:
  assumes "ept_inv mx rpb v m"
  shows "ept_layout mx v" "ept_owned mx rpb v" "mtrr_ok v" "ept_types_ok mx (vmx_getmemorytypeforphysicalpage v)"
    "ept_filled mx rpb (vmx_getmemorytypeforphysicalpage v) v (unat mx) m" "control_EPT_pointer (vmcs v) = ept_table v 4 OR 0x1E"
  using assms by (simp_all add: ept_inv_def)

lemma inv_access:
  assumes inv: "ept_inv mx rpb v (mem s)" and root: "hpt_eptp_get_address HPT_TYPE_EPT (control_EPT_pointer (vmcs v)) = Some root"
    and acc: "access \<noteq> 0" "access AND HPT_PROTS_RWX = access"
  shows "hptw_checked_access_va (guestmem_host_ctx root) s access cpl gpa sz =
    Some (if ept_mapped mx rpb gpa then (take_bit 48 gpa, min sz (0x1000 - take_bit 12 gpa)) else (0, 0))"
proof -
  note i = ept_invD [OF inv]
  have "root = ept_table v 4" using eptp_root [OF i(1)] root i(6) by simp
  then show ?thesis using ept_access [OF i(1,5,4) acc] by simp
qed

lemma gather_frame:
  assumes "vmx_gathermemorytypes p v = Some v'"
  shows "ept_table v' l = ept_table v l" "vmcs v' = vmcs v"
  using assms by (auto simp: vmx_gathermemorytypes_def bind_eq_Some_conv ept_table_def split: prod.splits)

lemma layout_cong:
  assumes "\<And>l. ept_table v' l = ept_table v l"
  shows "ept_layout mx v' = ept_layout mx v" "ept_owned mx rpb v' = ept_owned mx rpb v" "ept_zeroed mx v' m = ept_zeroed mx v m"
  by (simp_all add: ept_layout_def ept_owned_def ept_zeroed_def assms)

lemma zeroed_filled: "ept_zeroed mx v m \<Longrightarrow> ept_filled mx rpb ty v 0 m"
  by (simp add: ept_filled_def ept_zeroed_def)

lemma inv_boot:
  assumes "ept_layout mx v0" "ept_owned mx rpb v0" "ept_zeroed mx v0 m0"
    and "length (var_mtrrs (vmx_guestmtrrmsrs v0)) = unat MAX_VARIABLE_MTRR_PAIRS"
    and "xmhf_memprot_arch_x86vmx_initialize mx rpb p v0 m0 = Some (v, m)"
  shows "ept_inv mx rpb v m"
proof -
  obtain v1 f where g: "vmx_gathermemorytypes p v0 = Some v1" and su: "vmx_setupEPT mx rpb v1 m0 = Some m"
    and f: "v = v1\<lparr>vmcs := f\<rparr>" and v: "control_EPT_pointer f = vmx_vaddr_ept_pml4_table v1 OR 0x1E"
    using assms(5) by (force simp: xmhf_memprot_arch_x86vmx_initialize_def bind_eq_Some_conv hva2spa_def)
  note fr = gather_frame(1) [OF g]
  have lay: "ept_layout mx v1" "ept_owned mx rpb v1" "ept_zeroed mx v1 m0" using assms(1-3) layout_cong [of v1 v0] fr by simp_all
  note filled = setup_filled [OF lay(1) zeroed_filled [OF lay(3)]]
  have tv: "ept_table v l = ept_table v1 l" for l by (simp add: ept_table_def f)
  have ty: "vmx_getmemorytypeforphysicalpage v = vmx_getmemorytypeforphysicalpage v1"
    by (simp add: fun_eq_iff f vmx_getmemorytypeforphysicalpage_def cong: if_cong)
  have ok: "mtrr_ok v" using gather_ok [OF g assms(4)] by (simp add: mtrr_ok_def f)
  have "ept_filled mx rpb (vmx_getmemorytypeforphysicalpage v1) v (unat mx) m"
    using filled(2) [OF su] by (simp add: ept_filled_def ept_entry_def tv)
  moreover have "ept_types_ok mx (vmx_getmemorytypeforphysicalpage v1)" using filled(1) [of rpb] su by simp
  ultimately show ?thesis using lay layout_cong [of v v1] tv ty ok v f
    by (simp add: ept_inv_def) (simp add: ept_table_def)
qed

lemma inv_wrmsr:
  assumes inv: "ept_inv mx rpb v m"
    and w: "xmhf_memprot_arch_x86vmx_mtrr_write mx app invept (xmhf_nested_arch_x86vmx_flush_ept02_effect d r) v msr val m = Some (ret, v', m')"
  shows "ept_inv mx rpb v' m'"
proof -
  note lay = ept_invD(1) [OF inv] and own = ept_invD(2) [OF inv] and ty = ept_invD(4) [OF inv]
    and fi = ept_invD(5) [OF inv] and p = ept_invD(6) [OF inv]
  show ?thesis using ept_invD(3) [OF inv] w
  proof (cases rule: mtrr_write_cases)
    case skipped
    have t: "ept_table v' l = ept_table v l" for l using write_shadow_frame [OF skipped(4)] by (simp add: ept_table_def)
    then show ?thesis
      using write_shadow_frame(1) [OF skipped(4)] write_shadow_skip [OF skipped(4)] skipped(2,3) lay own ty p layout_cong [of v' v]
        filled_cong [OF t _ lay fi] by (simp add: ept_inv_def mtrr_written_def)
  next
    case (updated v1)
    have t: "ept_table v1 l = ept_table v l" for l using write_shadow_frame [OF updated(3)] by (simp add: ept_table_def)
    have l1: "ept_layout mx v1" "ept_owned mx rpb v1" using lay own layout_cong [of v1 v] t by simp_all
    have f1: "ept_filled mx rpb (vmx_getmemorytypeforphysicalpage v) v1 (unat mx) m" using filled_cong [OF t _ lay fi] by simp
    note u = update_filled [OF l1(1) ty f1 updated(4)]
    have inv1: "ept_inv mx rpb v1 m'"
      using l1 u updated(2) write_shadow_frame(1) [OF updated(3)] p t by (simp add: ept_inv_def mtrr_written_def)
    show ?thesis using updated(5)
    proof
      assume v': "v' = v1\<lparr>vmx_nested_ept02_flush_visited := vmx_nested_ept02_flush_visited v1 OR MEMP_FLUSHTLB_MT_ENTRY\<rparr>"
      have tv: "ept_table v' l = ept_table v1 l" for l by (simp add: ept_table_def v')
      have "vmx_getmemorytypeforphysicalpage v' = vmx_getmemorytypeforphysicalpage v1"
        by (simp add: fun_eq_iff v' vmx_getmemorytypeforphysicalpage_def cong: if_cong)
      moreover have "mtrr_ok v' = mtrr_ok v1" "vmcs v' = vmcs v1" by (simp_all add: mtrr_ok_def v')
      ultimately show ?thesis using inv1 layout_cong [of v' v1] tv filled_cong [OF tv _ l1(1) u(1)] by (simp add: ept_inv_def)
    qed (use inv1 in simp)
  qed (use inv in simp_all)
qed

lemma inv_guest_write:
  assumes inv: "ept_inv mx rpb v m" and root: "hpt_eptp_get_address HPT_TYPE_EPT (control_EPT_pointer (vmcs v)) = Some root"
    and acc: "hptw_checked_access_va (guestmem_host_ctx root) \<lparr>mem = m\<rparr> HPT_PROTS_W cpl gpa sz = Some (a, n)"
    and m': "\<forall>x. n \<le> x - a \<longrightarrow> m' x = m x"
  shows "ept_inv mx rpb v m'"
proof -
  note i = ept_invD [OF inv]
  have e: "(a, n) = (if ept_mapped mx rpb gpa then (take_bit 48 gpa, min sz (0x1000 - take_bit 12 gpa)) else (0, 0))"
    using inv_access [of mx rpb v "\<lparr>mem = m\<rparr>" root HPT_PROTS_W cpl gpa sz] inv root acc by simp
  have "m' x = m x" if "xmhf_is_mhv_memory rpb x" for x
  proof -
    have "n \<le> x - a"
    proof (cases "ept_mapped mx rpb gpa")
      case True
      then have "\<not> x - take_bit 48 gpa < 0x1000 - take_bit 12 gpa" using granted_not_mhv [OF i(2) True] that by blast
      then show ?thesis using e True by (simp add: not_less min_le_iff_disj)
    qed (use e in simp)
    then show ?thesis using m' by blast
  qed
  from filled_outside [OF i(1,2,5) this] show ?thesis using i by (simp add: ept_inv_def)
qed

lemma reach_inv: "ept_reach mx rpb v m \<Longrightarrow> ept_inv mx rpb v m"
  by (induction rule: ept_reach.induct) (blast intro: inv_boot inv_wrmsr inv_guest_write)+

subsection \<open>Claims\<close>

text \<open>
  C1: confinement of the guest. In every state that is reached from the initialization of the memory protection by MTRR writes of
  the guest and by writes of the guest to memory, a walk of the EPT grants exactly the pages below \<open>mx\<close> that are not hidden, each at its own
  address; and no byte that is granted belongs to the hypervisor. So the guest never changes the EPT that confines it.
\<close>

theorem guest_confined:
  fixes cpl :: hptw_cpl and gpa sz :: u64
  assumes "ept_reach mx rpb v m" "hpt_eptp_get_address HPT_TYPE_EPT (control_EPT_pointer (vmcs v)) = Some root"
    and "access \<noteq> 0" "access AND HPT_PROTS_RWX = access"
  defines "granted \<equiv> hptw_checked_access_va (guestmem_host_ctx root) \<lparr>mem = m\<rparr> access cpl gpa sz"
  shows "granted = Some (if ept_mapped mx rpb gpa then (take_bit 48 gpa, min sz (0x1000 - take_bit 12 gpa)) else (0, 0))
    \<and> (\<forall>a n x. granted = Some (a, n) \<and> x - a < n \<longrightarrow> \<not> xmhf_is_mhv_memory rpb x)"
proof -
  note inv = reach_inv [OF assms(1)]
  have g: "granted = Some (if ept_mapped mx rpb gpa then (take_bit 48 gpa, min sz (0x1000 - take_bit 12 gpa)) else (0, 0))"
    unfolding granted_def using inv by (intro inv_access [OF _ assms(2-4)]) simp
  moreover have "\<not> xmhf_is_mhv_memory rpb x" if "granted = Some (a, n)" "x - a < n" for a n x
    using that g granted_not_mhv [OF ept_invD(2) [OF inv], of gpa x] by (auto split: if_splits)
  ultimately show ?thesis by blast
qed

text \<open>
  C13: the memory types follow the MTRRs. In every reachable state the leaf of a mapped address has the memory type that
  \<open>vmx_getmemorytypeforphysicalpage\<close> computes for its page from the current values of the shadow MTRRs, and these values are valid.
\<close>

theorem ept_types_follow_mtrrs:
  assumes "ept_reach mx rpb v m" "hpt_eptp_get_address HPT_TYPE_EPT (control_EPT_pointer (vmcs v)) = Some root"
    and "access \<noteq> 0" "access AND HPT_PROTS_RWX = access" "ept_mapped mx rpb gpa"
  shows "mtrr_ok v \<and> (\<exists>e t. hptw_checked_get_pmeo (guestmem_host_ctx root) \<lparr>mem = m\<rparr> access cpl gpa = Some (OK e)
    \<and> vmx_getmemorytypeforphysicalpage v (push_bit 12 (ept_index 1 gpa)) = Some t \<and> hpt_pmeo_getcache e = Some (ucast t))"
proof -
  note i = ept_invD [OF reach_inv [OF assms(1)]]
  let ?p = "push_bit 12 (ept_index 1 gpa)" and ?ty = "vmx_getmemorytypeforphysicalpage v"
  have mx: "take_bit 12 mx = 0" using i(1) by (simp add: ept_layout_def)
  have "root = ept_table v 4" using eptp_root [OF i(1)] assms(2) i(6) by simp
  then have w: "hptw_checked_get_pmeo (guestmem_host_ctx root) \<lparr>mem = m\<rparr> access cpl gpa = Some (OK (ept_leaf_pmeo rpb ?ty gpa))"
    using ept_walk [OF i(1) _ i(4) assms(3,4), of rpb "\<lparr>mem = m\<rparr>"] i(5) assms(5) by simp
  have "?p < mx" using page_of_index(4) by (rule le_less_trans) (use assms(5) in \<open>simp add: ept_mapped_def\<close>)
  then obtain t where t: "?ty ?p = Some t" "vmx_mtrr_checktype t"
    using i(4) page_of_index(1) [of gpa] unfolding ept_types_ok_def by blast
  have "hpt_pmeo_getcache (ept_leaf_pmeo rpb ?ty gpa) = Some (ucast t)"
    using leaf_cache [OF page_of_index(1,2) [of gpa] t(2), of rpb] t(1) by (simp add: ept_leaf_pmeo_def Let_def)
  then show ?thesis using w t(1) i(3) by blast
qed

text \<open>
  C14: the set-up of the EPT. On empty tables \<open>vmx_setupEPT\<close> comes back exactly when every page below \<open>mx\<close> has a memory type that
  the EPT can express; all entries of all levels are then as specified.
\<close>

theorem setupEPT_complete:
  assumes "ept_layout mx v" "ept_zeroed mx v m"
  shows "(vmx_setupEPT mx rpb v m \<noteq> None \<longleftrightarrow> ept_types_ok mx (vmx_getmemorytypeforphysicalpage v))
    \<and> (\<forall>m'. vmx_setupEPT mx rpb v m = Some m' \<longrightarrow> ept_filled mx rpb (vmx_getmemorytypeforphysicalpage v) v (unat mx) m')"
  using setup_filled [OF assms(1) zeroed_filled [OF assms(2)]] by blast

text \<open>
  C15: a write of an MTRR. A refused write changes nothing. After a successful one the register reads as the value written,
  every other MTRR as before, and the shadow registers are valid.
\<close>

theorem mtrr_write_read:
  assumes "mtrr_ok v"
    and "xmhf_memprot_arch_x86vmx_mtrr_write mx app invept (xmhf_nested_arch_x86vmx_flush_ept02_effect d r) v msr val m = Some (ret, v', m')"
  shows "mtrr_ok v' \<and> (if ret = ERR then v' = v \<and> m' = m
    else \<forall>msr'. xmhf_memprot_arch_x86vmx_mtrr_read v' msr' = (if msr' = msr then Some val else xmhf_memprot_arch_x86vmx_mtrr_read v msr'))"
  using assms
proof (cases rule: mtrr_write_cases)
  case (updated v1)
  then have "mtrr_written v msr val v'" using mtrr_written_flush by blast
  then show ?thesis using updated(1) by (simp add: mtrr_written_def)
qed (use assms(1) in \<open>auto simp: mtrr_written_def\<close>)

subsection \<open>Protection of single pages\<close>

text \<open>The entry a page has in the tables of level 1, as \<open>setprot\<close> and \<open>getprot\<close> compute it.\<close>

definition prot_slot :: "u64 \<Rightarrow> u64" where
  "prot_slot gpa = ucast (ucast ((ucast (ucast gpa :: u32) :: u64) div PAGE_SIZE_4K) :: u32)"

definition prot_flags :: "u32 \<Rightarrow> u64" where
  "prot_flags prottype = (if prottype AND MEMP_PROT_PRESENT = 0 then 0
     else 1 OR (if prottype AND MEMP_PROT_READWRITE \<noteq> 0 then 2 else 0) OR (if prottype AND MEMP_PROT_EXECUTE \<noteq> 0 then 4 else 0))"

lemma prot_slot_eq: "prot_slot gpa = drop_bit 12 (take_bit 32 gpa)"
proof -
  have "(ucast (ucast gpa :: u32) :: u64) div PAGE_SIZE_4K = drop_bit 12 (take_bit 32 gpa)"
    by (simp add: drop_bit_eq_div [of 12, symmetric, simplified]) (rule bit_word_eqI, auto simp: bit_simps)
  then show ?thesis unfolding prot_slot_def by (simp only:) (rule bit_word_eqI, auto simp: bit_simps)
qed

lemma setprot_eq:
  assumes "ept_layout mx v" "unat (prot_slot gpa) < ept_rows mx 1"
  shows "xmhf_memprot_arch_x86vmx_setprot v gpa prottype m = (let e = pt_get m (ept_table v 1) (prot_slot gpa)
    in pt_set (pt_set m (ept_table v 1) (prot_slot gpa) (e AND NOT 7)) (ept_table v 1) (prot_slot gpa) ((e AND NOT 7) OR prot_flags prottype))"
proof -
  have t: "vmx_vaddr_ept_p_tables v = ept_table v 1" by (simp add: ept_table_def)
  have g: "pt_get (pt_set m (ept_table v 1) (prot_slot gpa) x) (ept_table v 1) (prot_slot gpa) = x" for x
    using pt_get_set [OF assms(1) _ assms(2) _ assms(2)] by simp
  show ?thesis
    unfolding xmhf_memprot_arch_x86vmx_setprot_def prot_slot_def [symmetric] t Let_def g by (simp add: prot_flags_def)
qed

lemma setprot_get:
  assumes "ept_layout mx v" "unat (prot_slot gpa) < ept_rows mx 1" "l \<in> {1..4}" "unat j < ept_rows mx l"
  shows "pt_get (xmhf_memprot_arch_x86vmx_setprot v gpa prottype m) (ept_table v l) j =
    (if l = 1 \<and> j = prot_slot gpa then (pt_get m (ept_table v 1) j AND NOT 7) OR prot_flags prottype else pt_get m (ept_table v l) j)"
  unfolding setprot_eq [OF assms(1,2)] Let_def using pt_get_set [OF assms(1) _ assms(2,3,4)] by auto

lemma prot_slot_below: "gpa < 0x100000000 \<Longrightarrow> prot_slot gpa = drop_bit 12 gpa"
  unfolding prot_slot_eq by (simp add: word_unat_eq_iff unat_drop_bit_div unat_take_bit_mod word_less_nat_alt)

lemma prot_slot_row: "ept_layout mx v \<Longrightarrow> gpa < mx \<Longrightarrow> unat (drop_bit 12 gpa) < ept_rows mx 1"
proof -
  assume a: "ept_layout mx v" "gpa < mx"
  have "unat gpa div 4096 * 2 ^ ept_shift 1 \<le> unat gpa" by (simp add: ept_shift_def)
  then have "unat (drop_bit 12 gpa) * 2 ^ ept_shift 1 < unat mx" using a(2) by (simp add: unat_drop_bit_div word_less_nat_alt)
  then show ?thesis using a(1) by (intro used_row) (simp_all add: ept_layout_def)
qed

lemma prot_flags_keep: "3 \<le> n \<Longrightarrow> bit ((e AND NOT 7) OR prot_flags p) n = bit e n"
proof -
  assume n: "3 \<le> n"
  have m: "bit (NOT 7 :: u64) n \<longleftrightarrow> n < 64"
  proof -
    have "(NOT 7 :: u64) = NOT (mask 3)" by (simp add: mask_eq_exp_minus_1)
    then show ?thesis using n by (simp only: bit_simps) auto
  qed
  have "take_bit 3 (prot_flags p) = prot_flags p" by (simp add: prot_flags_def)
  then have "\<not> bit (prot_flags p) n" using n by (metis bit_take_bit_iff not_less)
  then show ?thesis using bit_imp_le_length [of e n] unfolding bit_or_iff bit_and_iff m by auto
qed

definition memp_prots :: "u32 list" where
  "memp_prots = [MEMP_PROT_NOTPRESENT, MEMP_PROT_PRESENT OR MEMP_PROT_READONLY OR MEMP_PROT_EXECUTE,
     MEMP_PROT_PRESENT OR MEMP_PROT_READWRITE OR MEMP_PROT_EXECUTE, MEMP_PROT_PRESENT OR MEMP_PROT_READONLY OR MEMP_PROT_NOEXECUTE,
     MEMP_PROT_PRESENT OR MEMP_PROT_READWRITE OR MEMP_PROT_NOEXECUTE]"

definition memp_prot_of :: "u64 \<Rightarrow> u32" where
  "memp_prot_of e = (if \<not> bit e 0 then MEMP_PROT_NOTPRESENT
     else MEMP_PROT_PRESENT OR (if bit e 1 then MEMP_PROT_READWRITE else MEMP_PROT_READONLY)
       OR (if bit e 2 then MEMP_PROT_EXECUTE else MEMP_PROT_NOEXECUTE))"

lemma getprot_eq: "xmhf_memprot_arch_x86vmx_getprot v gpa m = memp_prot_of (pt_get m (ept_table v 1) (prot_slot gpa))"
proof -
  have b: "e AND 1 = 0 \<longleftrightarrow> \<not> bit e 0" "e AND 2 = 0 \<longleftrightarrow> \<not> bit e 1" "e AND 4 = 0 \<longleftrightarrow> \<not> bit e 2" for e :: u64
    using and_exp_eq_0_iff_not_bit [of e 0] and_exp_eq_0_iff_not_bit [of e 1] and_exp_eq_0_iff_not_bit [of e 2] by simp_all
  have t: "vmx_vaddr_ept_p_tables v = ept_table v 1" by (simp add: ept_table_def)
  show ?thesis unfolding xmhf_memprot_arch_x86vmx_getprot_def prot_slot_def [symmetric] t Let_def memp_prot_of_def
    by (simp add: b)
qed

lemma memp_prot_of_flags:
  assumes "prottype \<in> set memp_prots"
  shows "memp_prot_of ((e AND NOT 7) OR prot_flags prottype) = prottype"
proof -
  have m: "\<not> bit (NOT 7 :: u64) n" if "n < 3" for n
  proof -
    have "(NOT 7 :: u64) = NOT (mask 3)" by (simp add: mask_eq_exp_minus_1)
    then show ?thesis using that by (simp only: bit_simps) simp
  qed
  have b: "bit ((e AND NOT 7) OR f) n = bit f n" if "n < 3" for n f using m [OF that] by (simp only: bit_or_iff bit_and_iff simp_thms)
  have f: "memp_prot_of ((e AND NOT 7) OR f) = memp_prot_of f" for f
    unfolding memp_prot_of_def using b [of 0 f] b [of 1 f] b [of 2 f] by (simp only: zero_less_numeral one_less_numeral_iff numeral_less_iff) simp
  show ?thesis unfolding f using assms by (auto simp: memp_prots_def prot_flags_def memp_prot_of_def)
qed

text \<open>
  C37: protection of a page. Below 4 GiB, each of the five protection types that \<open>setprot\<close> sets is read back by \<open>getprot\<close>; the
  protection of every other page below 4 GiB is as before, and the address and memory type of the entry do not change.
\<close>

theorem setprot_getprot:
  assumes "ept_layout mx v" "prottype \<in> set memp_prots" "gpa < 0x100000000" "gpa < mx"
  shows "xmhf_memprot_arch_x86vmx_getprot v gpa (xmhf_memprot_arch_x86vmx_setprot v gpa prottype m) = prottype
    \<and> (\<forall>gpa' < mx. gpa' < 0x100000000 \<and> drop_bit 12 gpa' \<noteq> drop_bit 12 gpa \<longrightarrow>
         xmhf_memprot_arch_x86vmx_getprot v gpa' (xmhf_memprot_arch_x86vmx_setprot v gpa prottype m) = xmhf_memprot_arch_x86vmx_getprot v gpa' m)
    \<and> (\<forall>n \<ge> 3. bit (pt_get (xmhf_memprot_arch_x86vmx_setprot v gpa prottype m) (ept_table v 1) (drop_bit 12 gpa)) n
         = bit (pt_get m (ept_table v 1) (drop_bit 12 gpa)) n)"
proof -
  note s = prot_slot_below [OF assms(3)] and r = prot_slot_row [OF assms(1)]
  have row: "unat (drop_bit 12 gpa) < ept_rows mx 1" using r assms(4) by simp
  have get: "pt_get (xmhf_memprot_arch_x86vmx_setprot v gpa prottype m) (ept_table v 1) j =
      (if j = drop_bit 12 gpa then (pt_get m (ept_table v 1) j AND NOT 7) OR prot_flags prottype else pt_get m (ept_table v 1) j)"
    if "unat j < ept_rows mx 1" for j using setprot_get [OF assms(1) _ _ that] row s by simp
  show ?thesis
  proof (intro conjI allI impI)
    show "xmhf_memprot_arch_x86vmx_getprot v gpa (xmhf_memprot_arch_x86vmx_setprot v gpa prottype m) = prottype"
      unfolding getprot_eq s using get [OF row] memp_prot_of_flags [OF assms(2)] by simp
    fix gpa' assume g: "gpa' < mx" "gpa' < 0x100000000 \<and> drop_bit 12 gpa' \<noteq> drop_bit 12 gpa"
    then show "xmhf_memprot_arch_x86vmx_getprot v gpa' (xmhf_memprot_arch_x86vmx_setprot v gpa prottype m) = xmhf_memprot_arch_x86vmx_getprot v gpa' m"
      unfolding getprot_eq using get [OF r [OF g(1)]] prot_slot_below [of gpa'] by simp
  next
    fix n :: nat assume n: "3 \<le> n"
    show "bit (pt_get (xmhf_memprot_arch_x86vmx_setprot v gpa prottype m) (ept_table v 1) (drop_bit 12 gpa)) n
        = bit (pt_get m (ept_table v 1) (drop_bit 12 gpa)) n"
      unfolding get [OF row] using prot_flags_keep [OF n] by simp
  qed
qed

text \<open>
  C38: addresses from 4 GiB on. \<open>setprot\<close> and \<open>getprot\<close> cut the address to 32 bits before they take its frame number, so they act
  on the page at the address modulo 4 GiB: a request for a page beyond 4 GiB changes the protection of another page, and the page itself keeps
  its entry.
\<close>

theorem setprot_truncates:
  "xmhf_memprot_arch_x86vmx_setprot v gpa prottype m = xmhf_memprot_arch_x86vmx_setprot v (take_bit 32 gpa) prottype m
    \<and> xmhf_memprot_arch_x86vmx_getprot v gpa m = xmhf_memprot_arch_x86vmx_getprot v (take_bit 32 gpa) m
    \<and> (ept_layout mx v \<and> 0x100000000 \<le> gpa \<and> gpa < mx \<longrightarrow>
         pt_get (xmhf_memprot_arch_x86vmx_setprot v gpa prottype m) (ept_table v 1) (drop_bit 12 gpa) = pt_get m (ept_table v 1) (drop_bit 12 gpa))"
proof (intro conjI impI)
  have e: "(ucast (take_bit 32 gpa) :: u32) = ucast gpa" by (rule bit_word_eqI) (auto simp: bit_simps)
  show "xmhf_memprot_arch_x86vmx_setprot v gpa prottype m = xmhf_memprot_arch_x86vmx_setprot v (take_bit 32 gpa) prottype m"
    by (simp only: xmhf_memprot_arch_x86vmx_setprot_def e)
  show "xmhf_memprot_arch_x86vmx_getprot v gpa m = xmhf_memprot_arch_x86vmx_getprot v (take_bit 32 gpa) m"
    by (simp only: xmhf_memprot_arch_x86vmx_getprot_def e)
  assume a: "ept_layout mx v \<and> 0x100000000 \<le> gpa \<and> gpa < mx"
  have u: "unat (prot_slot gpa) = unat gpa mod 2 ^ 32 div 4096" "unat (drop_bit 12 gpa) = unat gpa div 4096"
    by (simp_all add: prot_slot_eq unat_drop_bit_div unat_take_bit_mod)
  have big: "2 ^ 32 \<le> unat gpa" using a by (simp add: word_le_nat_alt)
  have "unat gpa mod 2 ^ 32 div 4096 < 2 ^ 20" by (rule less_mult_imp_div_less) simp
  also have "2 ^ 20 \<le> unat gpa div 4096" using div_le_mono [OF big, of 4096] by simp
  finally have lt: "unat (prot_slot gpa) < unat (drop_bit 12 gpa)" unfolding u .
  have row: "unat (drop_bit 12 gpa) < ept_rows mx 1" using prot_slot_row a by blast
  have ne: "drop_bit 12 gpa \<noteq> prot_slot gpa" using lt by auto
  show "pt_get (xmhf_memprot_arch_x86vmx_setprot v gpa prottype m) (ept_table v 1) (drop_bit 12 gpa) = pt_get m (ept_table v 1) (drop_bit 12 gpa)"
    using setprot_get [of mx v gpa 1 "drop_bit 12 gpa" prottype m] a row lt ne by simp
qed

subsection \<open>An example\<close>

text \<open>One pair of variable MTRRs makes the first 2 MiB write-through, the default is write-back; \<open>fe\<close> enables the fixed MTRRs.\<close>

definition example_mtrrs :: "bool \<Rightarrow> guestmtrrmsrs" where
  "example_mtrrs fe = \<lparr>def_type = (if fe then 0xC06 else 0x806), fix_mtrrs = replicate 11 0x0606060606060606, var_count = 1,
     var_mtrrs = \<lparr>mtrr_base = 4, mtrr_mask = 0xFFFE00800\<rparr> # replicate 9 \<lparr>mtrr_base = 0, mtrr_mask = 0\<rparr>\<rparr>"

definition example_ept_vcpu :: "bool \<Rightarrow> vcpu_ept" where
  "example_ept_vcpu fe = vcpu_nested.extend (vcpu.extend example_vcpu (vcpu_nested.fields True 2))
     (vcpu_ept.fields 0x601000 0x602000 0x603000 0x604000 6 1 (if fe then 1 else 0) 0xFFFFFF000 (example_mtrrs fe))"

lemma example_ept_fields:
  "vmx_vaddr_ept_pml4_table (example_ept_vcpu fe) = 0x601000" "vmx_vaddr_ept_pdp_table (example_ept_vcpu fe) = 0x602000"
  "vmx_vaddr_ept_pd_tables (example_ept_vcpu fe) = 0x603000" "vmx_vaddr_ept_p_tables (example_ept_vcpu fe) = 0x604000"
  "vmx_ept_defaulttype (example_ept_vcpu fe) = 6" "vmx_ept_mtrr_enable (example_ept_vcpu fe) = 1"
  "vmx_ept_fixmtrr_enable (example_ept_vcpu fe) = (if fe then 1 else 0)" "vmx_ept_paddrmask (example_ept_vcpu fe) = 0xFFFFFF000"
  "vmx_guestmtrrmsrs (example_ept_vcpu fe) = example_mtrrs fe"
  by (simp_all add: example_ept_vcpu_def vcpu_nested.defs vcpu_ept.defs vcpu.defs)

lemma example_mtrr_ok: "mtrr_ok (example_ept_vcpu fe)"
proof -
  have "vmx_mtrr_checkfixed 0x0606060606060606" by code_simp
  moreover have "vmx_mtrr_checkvariable 0xFFFFFF000 4 0xFFFE00800" by (simp add: vmx_mtrr_checkvariable_def vmx_mtrr_checktype_def Let_def)
  moreover have "vmx_mtrr_checkdeftype (if fe then 0xC06 else 0x806) = Some (1, if fe then 1 else 0, 6)"
    by (simp add: vmx_mtrr_checkdeftype_def vmx_mtrr_checktype_def Let_def)
  ultimately show ?thesis by (simp add: mtrr_ok_def example_ept_fields example_mtrrs_def)
qed

theorem memory_type_precedence_witness:
  "vmx_getmemorytypeforphysicalpage (example_ept_vcpu False) 0x1000 = Some MTRR_TYPE_WT
   \<and> mtrr_precedence MTRR_TYPE_WB [MTRR_TYPE_WT] = Some MTRR_TYPE_WT"
proof -
  let ?v = "example_ept_vcpu False"
  have "covers 0x1000 \<lparr>mtrr_base = 4, mtrr_mask = 0xFFFE00800\<rparr>" by (simp add: covers_iff)
  then have c: "covering_types 0x1000 (take (unat (var_count (vmx_guestmtrrmsrs ?v))) (var_mtrrs (vmx_guestmtrrmsrs ?v))) = [MTRR_TYPE_WT]"
    unfolding example_ept_fields by (simp add: covering_types_def example_mtrrs_def)
  have "vmx_getmemorytypeforphysicalpage ?v 0x1000 = mtrr_precedence MTRR_TYPE_WB [MTRR_TYPE_WT]"
    using memory_type_precedence [of ?v "0x1000", OF example_mtrr_ok] unfolding c by (simp add: example_ept_fields mtrr_precedence_def)
  then show ?thesis by (simp add: mtrr_precedence_def)
qed

theorem fixed_mtrr_type_undefined_witness:
  "vmx_getmemorytypeforphysicalpage (example_ept_vcpu True) 0x4000 = None
   \<and> vmx_setupEPT 0x5000 \<lparr>XtVmmRuntimePhysBase = 0x203000, XtVmmRuntimeSize = 0x1000\<rparr> (example_ept_vcpu True) (\<lambda>_. 0) = None"
proof -
  let ?rpb = "\<lparr>XtVmmRuntimePhysBase = 0x203000, XtVmmRuntimeSize = 0x1000\<rparr>" and ?v = "example_ept_vcpu True"
  have "(\<forall>addr < 0x100000. vmx_getmemorytypeforphysicalpage ?v addr \<noteq> None \<longleftrightarrow> (\<exists>p \<in> set fixed_mtrr_prop. addr = ucast (prop_start p)))
    \<and> (0x1000 < (0x5000 :: u64) \<longrightarrow> vmx_setupEPT 0x5000 ?rpb ?v (\<lambda>_. 0) = None)"
    by (rule fixed_mtrr_type_undefined [OF example_mtrr_ok]) (simp_all add: example_ept_fields)
  from conjunct1 [OF this, rule_format, of "0x4000"] conjunct2 [OF this] show ?thesis by (simp add: fixed_mtrr_prop_def)
qed

text \<open>A few pages of guest memory, below a hypervisor at 6 MiB that holds the tables.\<close>

definition example_rpb :: rpb where
  "example_rpb = \<lparr>XtVmmRuntimePhysBase = 0x600000, XtVmmRuntimeSize = 0x10000\<rparr>"

definition example_processor :: processor where
  "example_processor = \<lparr>cpuid = (\<lambda>_. (0x80000024, 0, 0, 0x1000)),
     rdmsr64 = (\<lambda>msr. if msr = IA32_MTRRCAP then 0x100 else if msr = IA32_MTRR_DEF_TYPE then 0x806 else 0x0606060606060606)\<rparr>"

lemma example_rows: "l \<in> {1..4} \<Longrightarrow> mx \<in> {0x1000, 0x2000, 0x3000} \<Longrightarrow> ept_rows mx l = 512"
  by (drule ept_levels) (auto simp: ept_rows_def ept_used_def ept_shift_def)

lemma example_table:
  "ept_table (example_ept_vcpu fe) l = (if l = 1 then 0x604000 else if l = 2 then 0x603000 else if l = 3 then 0x602000 else 0x601000)"
  by (simp add: ept_table_def example_ept_fields)

lemma example_layout:
  "ept_layout 0x1000 (example_ept_vcpu fe)" "ept_owned 0x1000 example_rpb (example_ept_vcpu fe)"
  "ept_layout 0x2000 (example_ept_vcpu fe)" "ept_owned 0x2000 example_rpb (example_ept_vcpu fe)" "ept_layout 0x3000 (example_ept_vcpu fe)"
  by (auto simp: ept_layout_def ept_owned_def example_rows example_table example_rpb_def dest!: ept_levels)

lemma example_zeroed: "ept_zeroed mx v (\<lambda>_. 0)"
proof -
  have "load_le (\<lambda>_. 0) a n = 0" for a n by (induction n arbitrary: a) simp_all
  then show ?thesis by (simp add: ept_zeroed_def pt_get_def)
qed

lemma first_page: "p < 0x1000 \<Longrightarrow> take_bit 12 p = 0 \<Longrightarrow> p = 0" for p :: u64
  by (simp add: word_unat_eq_iff unat_take_bit_mod word_less_nat_alt)

lemma example_types: "ept_types_ok 0x1000 (vmx_getmemorytypeforphysicalpage (example_ept_vcpu False))"
proof -
  have "vmx_getmemorytypeforphysicalpage (example_ept_vcpu False) 0 = Some 4"
    by (simp add: vmx_getmemorytypeforphysicalpage_def example_ept_fields example_mtrrs_def combine_types_def Let_def)
  then show ?thesis by (auto simp: ept_types_ok_def vmx_mtrr_checktype_def dest: first_page)
qed

lemma example_vendor: "cpu_vendor (example_ept_vcpu fe) = CPU_VENDOR_INTEL"
  by (simp add: example_ept_vcpu_def example_vcpu_def vcpu_nested.defs vcpu_ept.defs vcpu.defs)

lemma example_gather:
  "\<exists>v. vmx_gathermemorytypes example_processor ((example_ept_vcpu False)\<lparr>vmcs := x\<rparr>) = Some v \<and> vmx_ept_mtrr_enable v = 1
    \<and> vmx_ept_fixmtrr_enable v = 0 \<and> vmx_ept_defaulttype v = 6 \<and> var_count (vmx_guestmtrrmsrs v) = 0 \<and> vcpu.truncate v = example_vcpu\<lparr>vmcs := x\<rparr>"
proof -
  let ?c = "0x0606060606060606 :: u64"
  have f: "vmx_mtrr_checkfixed ?c" by code_simp
  have d: "vmx_mtrr_checkdeftype 0x806 = Some (1, 0, 6)" by (simp add: vmx_mtrr_checkdeftype_def vmx_mtrr_checktype_def Let_def)
  have r: "read_fixed example_processor fixed_mtrr_prop = Some [?c, ?c, ?c, ?c, ?c, ?c, ?c, ?c, ?c, ?c, ?c]"
    by (simp add: fixed_mtrr_prop_def example_processor_def f)
  show ?thesis
    by (simp add: vmx_gathermemorytypes_def r) (simp add: example_processor_def d example_ept_vcpu_def vcpu_nested.defs vcpu_ept.defs vcpu.defs)
qed

lemma truncate_vmcs: "vcpu.truncate (v\<lparr>vmcs := f\<rparr>) = (vcpu.truncate v)\<lparr>vmcs := f\<rparr>"
  by (simp add: vcpu.defs)

text \<open>The CPU after the initialization, for any initial VMCS.\<close>

lemma example_boot:
  assumes "ept_layout mx (example_ept_vcpu False)" "ept_owned mx rpb (example_ept_vcpu False)"
  shows "\<exists>v m a b. ept_reach mx rpb (v :: vcpu_ept) m \<and> vcpu.truncate v = example_vcpu\<lparr>vmcs := x\<lparr>control_VMX_seccpu_based := a,
    control_vpid := 1, control_EPT_pointer := 0x60101E, control_VMX_cpu_based := b\<rparr>\<rparr>"
proof -
  let ?v0 = "(example_ept_vcpu False)\<lparr>vmcs := x\<rparr>"
  obtain v1 where g: "vmx_gathermemorytypes example_processor ?v0 = Some v1"
    and v1: "vmx_ept_mtrr_enable v1 = 1" "vmx_ept_fixmtrr_enable v1 = 0" "vmx_ept_defaulttype v1 = 6"
      "var_count (vmx_guestmtrrmsrs v1) = 0" "vcpu.truncate v1 = example_vcpu\<lparr>vmcs := x\<rparr>" using example_gather by blast
  have tb: "ept_table ?v0 l = ept_table (example_ept_vcpu False) l" for l by (simp add: ept_table_def)
  note lay = assms layout_cong(1,2) [OF tb]
  have "vmx_getmemorytypeforphysicalpage v1 p = Some 6" for p by (simp add: vmx_getmemorytypeforphysicalpage_def v1)
  then have ty: "ept_types_ok mx (vmx_getmemorytypeforphysicalpage v1)" by (simp add: ept_types_ok_def vmx_mtrr_checktype_def)
  have "ept_layout mx v1" using lay layout_cong(1) [of v1 ?v0] gather_frame(1) [OF g] by simp
  then obtain m where m: "vmx_setupEPT mx rpb v1 (\<lambda>_. 0) = Some m"
    using setup_filled(1) [OF _ zeroed_filled [OF example_zeroed], of mx v1 rpb] ty by auto
  have "vmx_vaddr_ept_pml4_table v1 = 0x601000" using gather_frame(1) [OF g, of 4] tb [of 4] by (simp add: ept_table_def example_ept_fields)
  then obtain a b where "xmhf_memprot_arch_x86vmx_initialize mx rpb example_processor ?v0 (\<lambda>_. 0) =
      Some (v1\<lparr>vmcs := x\<lparr>control_VMX_seccpu_based := a, control_vpid := 1, control_EPT_pointer := 0x60101E,
        control_VMX_cpu_based := b\<rparr>\<rparr>, m)"
    using g m example_vendor gather_frame(2) [OF g] by (simp add: xmhf_memprot_arch_x86vmx_initialize_def hva2spa_def)
  moreover have "length (var_mtrrs (vmx_guestmtrrmsrs ?v0)) = unat MAX_VARIABLE_MTRR_PAIRS"
    by (simp add: example_ept_fields example_mtrrs_def)
  ultimately have "ept_reach mx rpb (v1\<lparr>vmcs := x\<lparr>control_VMX_seccpu_based := a, control_vpid := 1, control_EPT_pointer := 0x60101E,
      control_VMX_cpu_based := b\<rparr>\<rparr>) m"
    using ept_reach.boot [OF _ _ example_zeroed] lay by blast
  then show ?thesis using v1(5) truncate_vmcs [where v = v1] by (intro exI conjI) (assumption, simp)
qed

lemma example_reach: "\<exists>v m. ept_reach 0x1000 example_rpb (v :: vcpu_ept) m"
  using example_boot [OF example_layout(1,2)] by blast

theorem guest_confined_witness:
  "\<exists>v m root. ept_reach 0x1000 example_rpb (v :: vcpu_ept) m \<and> hpt_eptp_get_address HPT_TYPE_EPT (control_EPT_pointer (vmcs v)) = Some root
    \<and> hptw_checked_access_va (guestmem_host_ctx root) \<lparr>mem = m\<rparr> HPT_PROTS_RW HPTW_CPL0 0x123 1 = Some (0x123, 1)
    \<and> hptw_checked_access_va (guestmem_host_ctx root) \<lparr>mem = m\<rparr> HPT_PROTS_RW HPTW_CPL0 0x600000 1 = Some (0, 0)"
proof -
  obtain v :: vcpu_ept and m where r: "ept_reach 0x1000 example_rpb v m" using example_reach by blast
  note i = ept_invD [OF reach_inv [OF r]]
  have root: "hpt_eptp_get_address HPT_TYPE_EPT (control_EPT_pointer (vmcs v)) = Some (ept_table v 4)"
    unfolding i(6) by (rule eptp_root [OF i(1)])
  have "ept_mapped 0x1000 example_rpb 0x123" "\<not> ept_mapped 0x1000 example_rpb 0x600000"
    by (simp_all add: ept_mapped_def ept_hidden_def example_rpb_def ept_index_def ept_shift_def)
  then show ?thesis using r root guest_confined [OF r root, of HPT_PROTS_RW HPTW_CPL0 "0x123" 1]
      guest_confined [OF r root, of HPT_PROTS_RW HPTW_CPL0 "0x600000" 1] by (intro exI [of _ v] exI [of _ m] exI [of _ "ept_table v 4"]) simp
qed

theorem ept_types_follow_mtrrs_witness:
  "\<exists>v m root e t. ept_reach 0x1000 example_rpb (v :: vcpu_ept) m
    \<and> hptw_checked_get_pmeo (guestmem_host_ctx root) \<lparr>mem = m\<rparr> HPT_PROTS_R HPTW_CPL0 0x123 = Some (OK e)
    \<and> vmx_getmemorytypeforphysicalpage v 0 = Some t \<and> hpt_pmeo_getcache e = Some (ucast t)"
proof -
  obtain v :: vcpu_ept and m where r: "ept_reach 0x1000 example_rpb v m" using example_reach by blast
  note i = ept_invD [OF reach_inv [OF r]]
  have root: "hpt_eptp_get_address HPT_TYPE_EPT (control_EPT_pointer (vmcs v)) = Some (ept_table v 4)"
    unfolding i(6) by (rule eptp_root [OF i(1)])
  have mapped: "ept_mapped 0x1000 example_rpb 0x123" and page: "push_bit 12 (ept_index 1 0x123) = 0"
    by (simp_all add: ept_mapped_def ept_hidden_def example_rpb_def ept_index_def ept_shift_def)
  from ept_types_follow_mtrrs [OF r root _ _ mapped, of HPT_PROTS_R HPTW_CPL0] r show ?thesis unfolding page by (simp del: ex_simps) blast
qed

theorem setupEPT_complete_witness:
  "\<exists>m. vmx_setupEPT 0x1000 example_rpb (example_ept_vcpu False) (\<lambda>_. 0) = Some m"
  using setupEPT_complete [OF example_layout(1) [of False] example_zeroed, of example_rpb] example_types by auto

theorem mtrr_write_read_witness:
  "\<exists>v. xmhf_memprot_arch_x86vmx_mtrr_write 0x1000 (\<lambda>_ _ _. APP_SUCCESS) True (xmhf_nested_arch_x86vmx_flush_ept02_effect Some Some)
      (example_ept_vcpu False) 0x250 0 (\<lambda>_. 0) = Some (OK (), v, \<lambda>_. 0)
    \<and> xmhf_memprot_arch_x86vmx_mtrr_read v 0x250 = Some 0"
proof -
  let ?v = "example_ept_vcpu False" and ?c = "0x0606060606060606 :: u64"
  let ?v' = "?v\<lparr>vmx_guestmtrrmsrs := example_mtrrs False\<lparr>fix_mtrrs := (replicate 11 ?c)[0 := 0]\<rparr>\<rparr>"
  have f: "vmx_mtrr_checkfixed 0" by code_simp
  have i: "fixed_index 0x250 0 fixed_mtrr_prop = Some 0" by (simp add: fixed_mtrr_prop_def)
  have nv: "\<not> is_variable_msr (example_mtrrs False) 0x250" by (simp add: is_variable_msr_def example_mtrrs_def)
  have rd: "xmhf_memprot_arch_x86vmx_mtrr_read ?v 0x250 = Some ?c"
    using nv by (simp add: xmhf_memprot_arch_x86vmx_mtrr_read_def example_ept_fields i arr_nth_def) (simp add: example_mtrrs_def)
  have "mtrr_write_fixed ?v 0x250 0 = Some (OK (Some (?v', True)))"
    by (simp add: mtrr_write_fixed_def f i example_ept_fields arr_nth_def) (simp add: example_mtrrs_def arr_upd_def example_ept_fields)
  then have w: "xmhf_memprot_arch_x86vmx_mtrr_write 0x1000 (\<lambda>_ _ _. APP_SUCCESS) True (xmhf_nested_arch_x86vmx_flush_ept02_effect Some Some)
      ?v 0x250 0 (\<lambda>_. 0) = Some (OK (), ?v', \<lambda>_. 0)"
    using nv by (simp add: xmhf_memprot_arch_x86vmx_mtrr_write_def rd example_ept_fields)
  then show ?thesis using mtrr_write_read [OF example_mtrr_ok w] by auto
qed

theorem setprot_getprot_witness:
  "xmhf_memprot_arch_x86vmx_getprot (example_ept_vcpu False) 0x123
     (xmhf_memprot_arch_x86vmx_setprot (example_ept_vcpu False) 0x123 22 (\<lambda>_. 0)) = 22"
  using setprot_getprot [OF example_layout(1) [of False], of 22 "0x123"] by (simp add: memp_prots_def)

text \<open>Tables for one page more than 4 GiB.\<close>

lemma example_layout_large: "ept_layout 0x100001000 (example_ept_vcpu fe\<lparr>vmx_vaddr_ept_p_tables := 0x1000000\<rparr>)"
proof -
  let ?v = "example_ept_vcpu fe\<lparr>vmx_vaddr_ept_p_tables := 0x1000000\<rparr>"
  have t: "ept_table ?v l = (if l = 1 then 0x1000000 else if l = 2 then 0x603000 else if l = 3 then 0x602000 else 0x601000)" for l
    by (simp add: ept_table_def example_ept_fields)
  have r: "ept_rows 0x100001000 l = (if l = 1 then 512 * 2049 else if l = 2 then 512 * 5 else 512)" if "l \<in> {1..4}" for l
    using ept_levels [OF that] by (auto simp: ept_rows_def ept_used_def ept_shift_def)
  show ?thesis by (auto simp: ept_layout_def r t dest!: ept_levels)
qed

theorem setprot_truncates_witness:
  "let v = example_ept_vcpu False\<lparr>vmx_vaddr_ept_p_tables := 0x1000000\<rparr>; m = xmhf_memprot_arch_x86vmx_setprot v 0x100000000 22 (\<lambda>_. 0)
   in m = xmhf_memprot_arch_x86vmx_setprot v 0 22 (\<lambda>_. 0)
      \<and> pt_get m (ept_table v 1) (drop_bit 12 0x100000000) = pt_get (\<lambda>_. 0) (ept_table v 1) (drop_bit 12 0x100000000)"
proof -
  let ?v = "example_ept_vcpu False\<lparr>vmx_vaddr_ept_p_tables := 0x1000000\<rparr>"
  note t = setprot_truncates [of ?v "0x100000000" 22 "\<lambda>_. 0" "0x100001000"]
  have "take_bit 32 0x100000000 = (0 :: u64)" by simp
  with conjunct1 [OF t] show ?thesis
    unfolding Let_def using mp [OF conjunct2 [OF conjunct2 [OF t]]] example_layout_large [of False] by (intro conjI) (simp_all only:, simp)
qed

end
