(* ===== verification/EmuProps.thy ===== *)
theory EmuProps
  imports EmuFrame Ept
begin

unbundle bit_operations_syntax

text \<open>
  Properties of the instruction emulator and of the functions that call it: what it decodes, what it reads, and that the value of a
  store in the guest kernel is found from the code at the instruction pointer.
\<close>

subsection \<open>An example\<close>

text \<open>The example CPU in 64-bit mode; \<open>rcx\<close> points into its data.\<close>

definition example_emu_vcpu :: vcpu where
  "example_emu_vcpu = example_vcpu\<lparr>vmcs := (vmcs example_vcpu)
     \<lparr>guest_CS_access_rights := 0x2000, guest_RIP := 0x7fff0100, info_vmexit_instruction_length := 4\<rparr>\<rparr>"

definition example_regs :: regs where
  "example_regs = \<lparr>rax = 0x1122334455667788, rcx = 0xfed00020, rdx = 0, rbx = 0, rbp = 0, rsi = 0, rdi = 0,
     r8 = 0, r9 = 0, r10 = 0, r11 = 0, r12 = 0, r13 = 0, r14 = 0, r15 = 0\<rparr>"

abbreviation "example_env \<equiv> emu_start example_emu_vcpu example_regs example_pair True False"

text \<open>\<^verbatim>\<open>mov [rcx-16], rax\<close>\<close>

abbreviation "example_code \<equiv> encode_store [] (Some True) (From_Reg 0) (Based 1 [0xf0])"

lemma example_code_bytes: "example_code = [0x48, 0x89, 0x41, 0xf0]"
  by (simp add: encode_store_def encode_insn_def encode_modrm_def pack_rex_def pack_233_def am_rm_def disp_mod_def)

lemma example_store_ok: "store_ok True False [] (Some True) (From_Reg 0) (Based 1 [0xf0])"
  by (simp add: store_ok_def insn_ok_def base_ok_def addr_size_def)

lemma example_emu_init: "guestmem_init 0 example_emu_vcpu = Some example_pair" "VCPU_g64 example_emu_vcpu = Some True"
  "False \<longleftrightarrow> guest_CS_access_rights (vmcs example_emu_vcpu) AND push_bit 14 1 \<noteq> 0"
proof -
  have "guestmem_init 0 example_emu_vcpu = (guestmem_init 0 example_vcpu :: unit guestmem_hptw_ctx_pair exec)"
    by (simp add: guestmem_init_def hpt_emhf_get_guest_hpt_type_def VCPU_gcr0_def VCPU_gcr3_def VCPU_gcr4_def VCPU_glm_def example_emu_vcpu_def example_vcpu_def)
  then show "guestmem_init 0 example_emu_vcpu = Some example_pair" by (simp add: example_init)
qed (simp_all add: VCPU_g64_def example_emu_vcpu_def example_vcpu_def)

lemma example_linear: "dst_linear example_emu_vcpu example_regs 8 (Based 1 [0xf0]) = 0xfed00010"
  by (simp add: dst_linear_def disp_value_def reg_value_def example_regs_def signed_take_bit_eq_if_negative le_val.simps)

lemma example_desegment: "guestmem_desegment example_emu_vcpu CPU_SEG_DS a n mode cpl = Some a"
  by (simp add: guestmem_desegment_def example_emu_init(2)) (simp add: example_emu_vcpu_def example_vcpu_def segment_fields_def)

lemma example_dst:
  "dst_of example_emu_vcpu example_regs (addr_size True False []) (seg_override []) (Based 1 [0xf0])
     (op_size True False [] (Some True)) operand_zero =
   Some (operand_zero\<lparr>op_type := OPERAND_MEM, operand_size := 8, mem_seg := CPU_SEG_DS,
     mem_offset := 0xfed00010, mem_gvaddr := 0xfed00010\<rparr>)"
proof -
  have "addr_size True False [] = 8" "op_size True False [] (Some True) = 8" "seg_override [] = CPU_SEG_UNKNOWN"
    by (simp_all add: addr_size_def op_size_def seg_override_def map_filter_def)
  then show ?thesis by (simp add: dst_of_def example_linear example_desegment)
qed

subsection \<open>Decoding\<close>



theorem emulate_operands_typed_witness:
  "\<exists>st. x86_vmx_emulate_instruction (replicate 16 0) 0 0 example_emu_vcpu example_regs example_env ([0x48, 0x89, 0x41, 0xf0] @ []) 4 example_state =
      Some (OK (), st, example_state) \<and> src_typed (e_src st) \<and> dst_typed (e_dst st) (operand_size (e_src st))"
proof -
  obtain st where st: "x86_vmx_emulate_instruction (replicate 16 0) 0 0 example_emu_vcpu example_regs example_env
      ([0x48, 0x89, 0x41, 0xf0] @ []) 4 example_state = Some (OK (), st, example_state)"
    using emulate_store [OF example_store_ok _ example_emu_init, where r = example_regs and ?xmm0.0 = "replicate 16 0" and loc = 0
      and ?e0.0 = example_env and rest = "[]" and s = example_state]
    unfolding example_dst unfolding example_code_bytes by auto
  show ?thesis using emulate_operands_typed [OF st] st by auto
qed

subsection \<open>Memory operands\<close>

text \<open>
  The guest physical address of the \<open>n\<close> bytes at linear address \<open>a\<close>, which are in one page if the guest uses paging.
\<close>

definition guest_translates :: "vcpu \<Rightarrow> 'x guestmem_hptw_ctx_pair \<Rightarrow> 'x eptlock_scheme \<Rightarrow> hptw_cpl \<Rightarrow> u64 \<Rightarrow> u64 \<Rightarrow> u64 \<Rightarrow> bool" where
  "guest_translates v pair s cpl a n g \<longleftrightarrow> (if guest_CR0 (vmcs v) AND CR0_PG \<noteq> 0
     then \<exists>e r. hptw_checked_get_pmeo (guest_ctx pair) s HPT_PROT_READ_MASK cpl a = Some (OK e) \<and> hpt_pmeo_va_to_pa e a = Some g
       \<and> hpt_remaining_on_page e g = Some r \<and> n \<le> r
     else g = a)"

lemma guest_translates_locked:
  assumes "guestmem_init c v = Some pair"
  shows "guest_translates v pair (read_locked c s) cpl a n g = guest_translates v pair s cpl a n g"
proof (rule guestmem_init_SomeD [OF assms])
  fix r t g assume h: "guest_ctx pair = guestmem_guest_ctx r t g" and t: "t \<noteq> HPT_TYPE_INVALID"
  have m: "mem (read_locked c s) = mem s" by simp
  show ?thesis
    unfolding guest_translates_def h walk_env.checked_get_pmeo_cong [OF linear_env.axioms(1) [OF guest_linear_env [OF t]] m guest_pa2ptr_cong [OF m]] ..
qed

text \<open>A read takes all bytes from the place to which the EPT maps the first.\<close>

lemma access_page_read:
  fixes s :: "'x eptlock_scheme" and n :: u64
  assumes free: "\<not> vmx_eptlock_reading s (pair_vcpu pair)" "\<not> g_eptlock_write_pending s"
    and lin: "guestmem_desegment v seg addr n HPT_PROT_READ_MASK cpl = Some a"
    and g: "guest_translates v pair (read_locked (pair_vcpu pair) s) cpl a n g"
    and spa: "hptw_gpa_to_spa (host_ctx pair) (read_locked (pair_vcpu pair) s) g = Some p" "p \<noteq> 0"
    and n: "0 < n" "unat n \<le> length buf"
  shows "access_memory_gv v pair \<lparr>ma_hvaddr = buf, ma_gaddr = addr, ma_seg = seg, ma_size = n, ma_mode = HPT_PROT_READ_MASK,
      ma_cpl = cpl\<rparr> s = Some (OK (), overlay buf 0 (read_bytes (mem s) p (unat n)), s)"
proof -
  let ?env = "\<lparr>ma_hvaddr = buf, ma_gaddr = addr, ma_seg = seg, ma_size = n, ma_mode = HPT_PROT_READ_MASK, ma_cpl = cpl\<rparr>"
  let ?s = "read_locked (pair_vcpu pair) s"
  have "access_gva v pair ?env ?s a n = Some (p, n)"
    using spa g by (auto simp: access_gva_def guest_translates_def spa2hva_def hva2spa_def min_absorb1 split: if_splits)
  moreover have "HPT_PROT_READ_MASK AND HPT_PROT_WRITE_MASK = 0" by simp
  ultimately have "access_memory_gv_loop v pair ?env a buf ?s 0 = Some (OK (), overlay buf 0 (read_bytes (mem s) p (unat n)), ?s)"
    using n spa(2) by (subst access_memory_gv_loop.simps) (simp, subst access_memory_gv_loop.simps, simp)
  then show ?thesis
    using lin read_lock_free(1) [OF free] read_lock_free(2) [OF free, of "mem s"] by (simp add: access_memory_gv_def)
qed

lemma init_host_ctx:
  assumes "guestmem_init c v = Some pair" "hpt_eptp_get_address HPT_TYPE_EPT (control_EPT_pointer (vmcs v)) = Some root"
  shows "host_ctx pair = guestmem_host_ctx root" "pair_vcpu pair = c"
  using assms by (auto simp: guestmem_init_def bind_eq_Some_conv split: if_splits)

text \<open>
  C29: the emulator reads through the EPT's restrictions. In every state that the hypervisor and its guest reach, the
  read of a memory operand that lies in one page returns the bytes of system memory at the guest physical address of the operand, which the page tables of
  the guest give (or the linear address itself, when the guest does not use paging), as long as it is below the limit of the EPT: those of a page of the
  hypervisor too, which the EPT hides and the checked access of the guest memory interface refuses.
\<close>

theorem emulator_reads_hidden:
  fixes s :: "'x eptlock_scheme" and n :: u64 and v :: "'y vcpu_ept_scheme"
  assumes reach: "ept_reach mx rpb v (mem s)" and init: "guestmem_init c (vcpu.truncate v) = Some pair"
    and free: "\<not> vmx_eptlock_reading s c" "\<not> g_eptlock_write_pending s"
    and lin: "guestmem_desegment (vcpu.truncate v) seg addr n HPT_PROT_READ_MASK cpl = Some a"
    and tr: "guest_translates (vcpu.truncate v) pair s cpl a n g"
    and g: "take_bit 48 g < mx" "take_bit 48 g \<noteq> 0" and n: "0 < n" "unat n \<le> length buf"
  shows "x86_vmx_access_memory_gv (vcpu.truncate v) pair \<lparr>ma_hvaddr = buf, ma_gaddr = addr, ma_seg = seg, ma_size = n,
        ma_mode = HPT_PROT_READ_MASK, ma_cpl = cpl\<rparr> s = Some (OK (), overlay buf 0 (read_bytes (mem s) (take_bit 48 g) (unat n)), s)
    \<and> (ept_hidden rpb (push_bit 12 (drop_bit 12 (take_bit 48 g))) \<longrightarrow>
        hptw_checked_access_va (host_ctx pair) s HPT_PROTS_R cpl g n = Some (0, 0))"
proof -
  have inv: "ept_inv mx rpb v (mem s)" by (rule reach_inv [OF reach])
  note i = ept_invD [OF inv]
  have root: "hpt_eptp_get_address HPT_TYPE_EPT (control_EPT_pointer (vmcs v)) = Some (ept_table v 4)"
    unfolding i(6) by (rule eptp_root [OF i(1)])
  then have h: "host_ctx pair = guestmem_host_ctx (ept_table v 4)" "pair_vcpu pair = c"
    using init_host_ctx [OF init] by (simp_all add: vcpu.defs)
  have "hptw_gpa_to_spa (host_ctx pair) (read_locked c s) g = Some (take_bit 48 g)"
    unfolding h by (rule ept_gpa_to_spa [OF i(1) _ i(4) g(1)]) (use i(5) in simp)
  then have r: "access_memory_gv (vcpu.truncate v) pair \<lparr>ma_hvaddr = buf, ma_gaddr = addr, ma_seg = seg, ma_size = n,
      ma_mode = HPT_PROT_READ_MASK, ma_cpl = cpl\<rparr> s = Some (OK (), overlay buf 0 (read_bytes (mem s) (take_bit 48 g) (unat n)), s)"
    using free g(2) n lin guest_translates_locked [OF init, of s cpl a n g] tr by (intro access_page_read [where a = a and g = g]) (simp_all add: h)
  have "hptw_checked_access_va (host_ctx pair) s HPT_PROTS_R cpl g n = Some (0, 0)"
    if "ept_hidden rpb (push_bit 12 (drop_bit 12 (take_bit 48 g)))"
    using that inv_access [OF inv root, of HPT_PROTS_R cpl g n] by (simp add: h ept_mapped_def ept_index_def ept_shift_def)
  then show ?thesis using r by (simp add: x86_vmx_access_memory_gv_def)
qed

text \<open>
  A guest in long mode whose tables of all four levels are one page: entry 0 of this page at \<open>0x1000\<close> points to the page itself,
  and entry 1 to the page of the hypervisor at \<open>0x2000\<close>.
\<close>

definition self_tables :: "'x mach_scheme \<Rightarrow> bool" where
  "self_tables s \<longleftrightarrow> load_le (mem s) 0x1000 8 = table_entry 1 \<and> load_le (mem s) 0x1008 8 = table_entry 2"

abbreviation self_pmeo :: "u64 \<Rightarrow> nat \<Rightarrow> hpt_pmeo" where
  "self_pmeo x l \<equiv> \<lparr>pmeo_pme = table_entry x, pmeo_t = HPT_TYPE_LONG, pmeo_lvl = l\<rparr>"

abbreviation self_pmo :: "nat \<Rightarrow> hpt_pmo" where
  "self_pmo l \<equiv> \<lparr>pmo_pm = 0x1000, pmo_t = HPT_TYPE_LONG, pmo_lvl = l\<rparr>"

lemma self_pmeo_fields:
  assumes "l \<in> {1..4}" "take_bit 40 x = x"
  shows "hpt_pmeo_getprot (self_pmeo x l) = Some HPT_PROTS_RWX" "hpt_pmeo_getuser (self_pmeo x l) = Some True"
    "hpt_pmeo_is_present (self_pmeo x l) = Some True" "hpt_pmeo_is_page (self_pmeo x l) = Some (l = 1)"
    "hpt_pmeo_get_address (self_pmeo x l) = Some (push_bit 12 x)"
proof -
  note bits = table_entry_bits [OF assms(2)]
  show prot: "hpt_pmeo_getprot (self_pmeo x l) = Some HPT_PROTS_RWX"
    using assms bits by (auto simp: hpt_pmeo_getprot_def hpt_pme_getprot_eq prot_of_def dest!: ept_levels)
  show "hpt_pmeo_getuser (self_pmeo x l) = Some True"
    using assms bits by (auto simp: hpt_pmeo_getuser_def hpt_pme_getuser_def bit_field dest!: ept_levels)
  show "hpt_pmeo_is_present (self_pmeo x l) = Some True"
    using assms prot by (auto simp: hpt_pmeo_is_present_def hpt_pme_is_present_def hpt_pmeo_getprot_def dest!: ept_levels)
  show page: "hpt_pmeo_is_page (self_pmeo x l) = Some (l = 1)"
    using assms bits by (auto simp: hpt_pmeo_is_page_def hpt_pme_is_page_eq dest!: ept_levels)
  from page [unfolded hpt_pmeo_is_page_def, simplified] hpt_pme_get_address_eq
  show "hpt_pmeo_get_address (self_pmeo x l) = Some (push_bit 12 x)"
    using assms(1) bits(6) by (auto simp: hpt_pmeo_get_address_def addr_mask_def dest!: ept_levels)
qed

lemma self_get_pmeo:
  assumes "self_tables s" "l \<in> {1..4}"
  shows "hpt_pm_get_pmeo_by_va (mem s) (self_pmo l) 0x1123 = Some (self_pmeo (if l = 1 then 2 else 1) l)"
proof -
  have ok: "lvl_ok HPT_TYPE_LONG l" using assms(2) by (auto simp: lvl_ok_def)
  have "hpt_get_pm_idx HPT_TYPE_LONG l 0x1123 = Some (if l = 1 then 1 else 0)"
    using ept_levels [OF assms(2)] by (subst hpt_get_pm_idx_eq [OF ok]) (auto simp: pm_shift_def pm_width_def)
  from hpt_pm_get_pme_by_va_eq [OF this] show ?thesis
    using assms by (auto simp: hpt_pm_get_pmeo_by_va_def self_tables_def pme_size_def)
qed

lemma self_walk:
  assumes "self_tables s" and ctx: "ctx_t ctx = HPT_TYPE_LONG" "root_pa ctx = 0x1000"
    and p: "\<And>prot cpl. prot \<noteq> 0 \<Longrightarrow> prot AND HPT_PROTS_RWX = prot \<Longrightarrow> pa2ptr ctx s 0x1000 0x1000 prot cpl = Some (0x1000, 0x1000)"
  shows "hptw_checked_get_pmeo ctx s HPT_PROT_READ_MASK cpl 0x1123 = Some (OK (self_pmeo 2 1))"
proof -
  let ?loop = "\<lambda>l. hptw_checked_get_pmeo_loop ctx s HPT_PROT_READ_MASK cpl 0x1123 (self_pmo l)"
  have sz: "hpt_pm_size HPT_TYPE_LONG l = Some 0x1000" if "l \<in> {1..4}" for l
    using that by (subst hpt_pm_size_eq) (auto simp: lvl_ok_def pm_width_def pme_size_def)
  have next_lvl: "hptw_next_lvl ctx s (self_pmo l) 0x1123 = Some (if l = 1 then (False, self_pmo 1) else (True, self_pmo (l - 1)))"
    if l: "l \<in> {1..4}" for l
    using ept_levels [OF l] self_get_pmeo [OF assms(1) l] self_pmeo_fields [OF l, of 1] self_pmeo_fields [OF l, of 2] p [of HPT_PROTS_R HPTW_CPL0]
      sz ctx
    by (elim disjE) (simp_all add: hptw_next_lvl_def)
  have step: "?loop l = (if l = 1 then Some (OK (self_pmeo 2 1, self_pmo 1)) else ?loop (l - 1))" if l: "l \<in> {1..4}" for l
    using self_get_pmeo [OF assms(1) l] self_pmeo_fields [OF l, of 1] self_pmeo_fields [OF l, of 2] next_lvl [OF l]
    by (subst hptw_checked_get_pmeo_loop.simps) auto
  have "hptw_get_root ctx s = Some (OK (self_pmo 4))"
    using ctx p [of HPT_PROTS_RW HPTW_CPL0] sz [of 4] by (simp add: hptw_get_root_def)
  then show ?thesis
    using step [of 4] step [of 3] step [of 2] step [of 1] self_pmeo_fields [of 1 2] by (simp add: hptw_checked_get_pmeo_def)
qed

definition example_low_rpb :: rpb where
  "example_low_rpb = \<lparr>XtVmmRuntimePhysBase = 0x202000, XtVmmRuntimeSize = 0x500000\<rparr>"

lemma example_paged:
  "\<exists>(v :: vcpu_ept) m x y. ept_reach 0x3000 example_low_rpb v m \<and> self_tables (example_state\<lparr>mem := m\<rparr>)
    \<and> vcpu.truncate v = example_vcpu\<lparr>vmcs := (vmcs example_emu_vcpu)\<lparr>guest_CR3 := 0x1000, control_VMX_seccpu_based := x,
      control_vpid := 1, control_EPT_pointer := 0x60101E, control_VMX_cpu_based := y\<rparr>\<rparr>"
proof -
  have "ept_owned 0x3000 example_low_rpb (example_ept_vcpu False)"
    by (auto simp: ept_owned_def example_rows example_table example_low_rpb_def dest!: ept_levels)
  from example_boot [OF example_layout(5) this, of "(vmcs example_emu_vcpu)\<lparr>guest_CR3 := 0x1000\<rparr>"]
  obtain v :: vcpu_ept and m x y where r: "ept_reach 0x3000 example_low_rpb v m"
    and v: "vcpu.truncate v = example_vcpu\<lparr>vmcs := (vmcs example_emu_vcpu)\<lparr>guest_CR3 := 0x1000, control_VMX_seccpu_based := x,
      control_vpid := 1, control_EPT_pointer := 0x60101E, control_VMX_cpu_based := y\<rparr>\<rparr>" by auto
  have inv: "ept_inv 0x3000 example_low_rpb v m" by (rule reach_inv [OF r])
  have root: "hpt_eptp_get_address HPT_TYPE_EPT (control_EPT_pointer (vmcs v)) = Some (ept_table v 4)"
    using ept_invD [OF inv] by (simp add: eptp_root)
  let ?m = "store_le (store_le m 0x1000 8 (table_entry 1)) 0x1008 8 (table_entry 2)"
  have "hptw_checked_access_va (guestmem_host_ctx (ept_table v 4)) \<lparr>mem = m\<rparr> HPT_PROTS_W 0 0x1000 16 = Some (0x1000, 16)"
    using inv inv_access [where s = "\<lparr>mem = m\<rparr>" and access = HPT_PROTS_W and mx = "0x3000" and rpb = example_low_rpb, OF _ root, of 0 "0x1000" 16]
    by (simp add: ept_mapped_def ept_hidden_def example_low_rpb_def ept_index_def ept_shift_def)
  moreover have "?m a = m a" if "16 \<le> a - 0x1000" for a
  proof -
    have "\<not> a - 0x1000 < 8" "\<not> a - 0x1008 < 8" using that by uint_arith+
    then show ?thesis by (simp add: store_le_apply)
  qed
  ultimately have "ept_reach 0x3000 example_low_rpb v ?m" using ept_reach.guest_write [OF r root] by blast
  moreover have "self_tables (example_state\<lparr>mem := ?m\<rparr>)"
    by (simp add: self_tables_def load_store_le_same load_store_le_other table_entry_def)
  ultimately show ?thesis using v by blast
qed

theorem emulator_reads_hidden_witness:
  "\<exists>(v :: vcpu_ept) m pair. ept_reach 0x3000 example_low_rpb v m \<and> guestmem_init 0 (vcpu.truncate v) = Some pair
    \<and> x86_vmx_access_memory_gv (vcpu.truncate v) pair \<lparr>ma_hvaddr = [0, 0, 0, 0], ma_gaddr = 0x1123, ma_seg = CPU_SEG_DS, ma_size = 4,
        ma_mode = HPT_PROT_READ_MASK, ma_cpl = 0\<rparr> (example_state\<lparr>mem := m\<rparr>) =
      Some (OK (), overlay [0, 0, 0, 0] 0 (read_bytes m 0x2123 4), example_state\<lparr>mem := m\<rparr>)
    \<and> hptw_checked_access_va (host_ctx pair) (example_state\<lparr>mem := m\<rparr>) HPT_PROTS_R 0 0x2123 4 = Some (0, 0)"
proof -
  obtain v :: vcpu_ept and m x y where r: "ept_reach 0x3000 example_low_rpb v m" and t: "self_tables (example_state\<lparr>mem := m\<rparr>)"
    and v: "vcpu.truncate v = example_vcpu\<lparr>vmcs := (vmcs example_emu_vcpu)\<lparr>guest_CR3 := 0x1000, control_VMX_seccpu_based := x,
      control_vpid := 1, control_EPT_pointer := 0x60101E, control_VMX_cpu_based := y\<rparr>\<rparr>" using example_paged by blast
  let ?v = "vcpu.truncate v" and ?s = "example_state\<lparr>mem := m\<rparr>"
  note d = example_emu_vcpu_def example_vcpu_def
  have inv: "ept_inv 0x3000 example_low_rpb v (mem ?s)" using reach_inv [OF r] by simp
  have root: "hpt_eptp_get_address HPT_TYPE_EPT (control_EPT_pointer (vmcs v)) = Some (ept_table v 4)"
    using ept_invD [OF inv] by (simp add: eptp_root)
  have vm: "vmcs v = vmcs ?v" by (simp add: vcpu.defs)
  have "hpt_emhf_get_guest_hpt_type ?v = Some HPT_TYPE_LONG"
    unfolding v by (simp add: hpt_emhf_get_guest_hpt_type_def d VCPU_gcr4_def VCPU_glm_def)
  moreover have "hpt_cr3_get_address HPT_TYPE_LONG 0x1000 = Some 0x1000"
    by (simp add: hpt_cr3_get_address_def BR64_COPY_BITS_HL_def BR64_SET_HL_def BR64_GET_HL_def MASKRANGE64_def ZERO_LO64_def ZERO_HI64_def)
  ultimately obtain pair where init: "guestmem_init 0 ?v = Some (pair :: unit guestmem_hptw_ctx_pair)"
    and g: "guest_ctx pair = guestmem_guest_ctx (ept_table v 4) HPT_TYPE_LONG 0x1000"
    using root unfolding vm v by (simp add: guestmem_init_def d)
  have "pa2ptr (guest_ctx pair) ?s 0x1000 0x1000 prot cpl = Some (0x1000, 0x1000)" if "prot \<noteq> 0" "prot AND HPT_PROTS_RWX = prot" for prot cpl
    using inv_access [OF inv root that, of cpl "0x1000" "0x1000"]
    by (simp add: g guestmem_guest_ctx_def guestmem_guest_ctx_pa2ptr_def ept_mapped_def ept_hidden_def example_low_rpb_def ept_index_def ept_shift_def)
  then have w: "hptw_checked_get_pmeo (guest_ctx pair) ?s HPT_PROT_READ_MASK 0 0x1123 = Some (OK (self_pmeo 2 1))"
    using t by (intro self_walk) (assumption, simp_all only: g guestmem_guest_ctx_def hptw_ctx.simps)
  have "hpt_pmeo_va_to_pa (self_pmeo 2 1) 0x1123 = Some 0x2123" "hpt_remaining_on_page (self_pmeo 2 1) 0x2123 = Some 0xedd"
    using hpt_pmeo_va_to_pa_eq [of "self_pmeo 2 1" "0x2000" "0x1123"] hpt_remaining_on_page_eq [of "self_pmeo 2 1" "0x2123"] self_pmeo_fields [of 1 2]
    by (simp_all add: pm_shift_def lvl_ok_def)
  moreover have "guest_CR0 (vmcs ?v) AND CR0_PG \<noteq> 0" unfolding v by (simp add: d)
  ultimately have tr: "guest_translates ?v pair ?s 0 0x1123 4 0x2123" using w by (simp add: guest_translates_def)
  have ds: "guestmem_desegment ?v CPU_SEG_DS 0x1123 4 HPT_PROT_READ_MASK 0 = Some 0x1123"
    unfolding v by (simp add: guestmem_desegment_def VCPU_g64_def d segment_fields_def)
  have "ept_hidden example_low_rpb 0x2000" by (simp add: ept_hidden_def example_low_rpb_def)
  then show ?thesis
    using emulator_reads_hidden [where s = ?s and c = 0 and rpb = example_low_rpb and mx = "0x3000", OF _ init _ _ ds tr, of "[0, 0, 0, 0]"] r init
    by (intro exI [of _ v] exI [of _ m] exI [of _ pair]) (simp add: example_free)
qed

lemma set_carry_desegment: "guestmem_desegment (set_carry c v) = guestmem_desegment v"
proof -
  have "VCPU_g64 (set_carry c v) = VCPU_g64 v" by (simp add: VCPU_g64_def set_carry_def vmx_vmread32_def)
  moreover have "segment_fields (vmcs (set_carry c v)) = segment_fields (vmcs v)" by (simp add: fun_eq_iff segment_fields_def set_carry_def split: cpu_segment.split)
  ultimately show ?thesis by (simp add: fun_eq_iff guestmem_desegment_def)
qed

lemma emu_0f_ba_memory_result:
  fixes n a :: u64
  assumes "modrm_regop (e_postfix e) = reg" "bit_op reg bitno 0 = Some x" "e_src e = operand_zero"
    and "guestmem_desegment (e_vcpu e) (e_seg e) a n HPT_PROT_READ_MASK (emu_cpl e) = Some gva"
    and "access_memory_gv (e_vcpu e) (e_ctx_pair e) \<lparr>ma_hvaddr = op_val operand_zero, ma_gaddr = a, ma_seg = e_seg e, ma_size = n,
      ma_mode = HPT_PROT_READ_MASK, ma_cpl = emu_cpl e\<rparr> s = Some (OK (), buf, s)" "length buf = OPERAND_VAL_LENGTH"
  shows "\<exists>st. emu_0f_ba_memory n bitno 0 a e s = Some (OK (), st, s) \<and> e_vcpu st = set_carry False (e_vcpu e)
    \<and> take 8 (op_val (e_src st)) = le_bytes 8 x \<and> operand_size (e_src st) = n \<and> mem_gvaddr (e_dst st) = gva"
  using assms overlay_start [of "le_bytes 8 x" buf]
  by (simp add: emu_0f_ba_memory_def eval_guest_memory_gvaddr_def eval_operand_value_def set_carry_desegment emu_cpl_def)


lemma emu_0f_ba_encoded:
  fixes n a :: u64
  assumes "rex_for (e_prefix e) reg am" "amode_ok am" "get_address_size e \<noteq> 2" "length (encode_modrm reg am @ [b]) < 2 ^ 32" "reg < 8"
    and "no_rep_lock e" "e_seg e = CPU_SEG_UNKNOWN" "am_mod am \<noteq> 3" "\<And>d. am = Absolute d \<Longrightarrow> get_address_size e \<noteq> 8"
  obtains e' where "emu_0f_ba (before (encode_modrm reg am @ [b]) rest e) s =
      emu_0f_ba_memory (get_operand_size e) (unat (ucast b mod (get_operand_size e * 8) :: u64)) 0
        (dst_linear (e_vcpu e) (e_r e) (get_address_size e) am) e' s"
    and "kept e e'" "modrm_regop (e_postfix e') = reg" "e_seg e' = am_seg (p_seg (e_prefix e)) am"
proof -
  let ?e = "e\<lparr>e_prefix := (e_prefix e)\<lparr>p_lock := True\<rparr>\<rparr>"
  have "rex_four (e_prefix ?e) = rex_four (e_prefix e)" "rex_w (e_prefix ?e) = rex_w (e_prefix e)" "rex_r (e_prefix ?e) = rex_r (e_prefix e)"
    "rex_x (e_prefix ?e) = rex_x (e_prefix e)" "rex_b (e_prefix ?e) = rex_b (e_prefix e)"
    by (simp_all add: rex_four_def rex_w_def rex_r_def rex_x_def rex_b_def)
  then have sz: "get_address_size ?e = get_address_size e" "get_operand_size ?e = get_operand_size e" "rex_for (e_prefix ?e) reg am"
    using assms(1) by (simp_all add: get_address_size_def get_operand_size_def rex_for_def)
  obtain e1 where e1: "parse_postfix (before (encode_modrm reg am @ [b]) rest ?e) True False 0 1 = Some e1" "decoded ?e reg am [b] rest 1 e1"
    using parse_postfix_decoded [of ?e reg am "[b]" 1 rest] assms(2-4) sz by auto
  note d = decoded_simps [OF e1(2), simplified sz]
  have r16: "reg < 16" by (rule less_trans [OF assms(5)]) simp
  have enc: "encoded_env reg am e1" using decoded_encoded [OF e1(2) sz(3) assms(2) r16, of "e_src e1"] assms(3) sz(1) by simp
  then have m: "eval_modrm_addr e1 = Some (In_Memory (dst_linear (e_vcpu e) (e_r e) (get_address_size e) am),
      e1\<lparr>e_seg := am_seg (p_seg (e_prefix e)) am\<rparr>)"
    using eval_modrm_addr_memory [OF enc] assms(7-9) d by (simp add: dst_linear_def)
  have "modrm_regop (e_postfix e1) = reg"
    using enc modrm_fields(2) [of "e_postfix e1" am reg] take_bit_3 [OF assms(5)] by (simp add: encoded_env_def)
  moreover have "kept e e1" using parse_postfix_kept [OF e1(1)] by (simp add: kept_def)
  moreover have "fetch 1 (immediate (e_postfix e1)) = Some (ucast b)" using d(9) by (simp add: fetch_def)
  moreover have "(before (encode_modrm reg am @ [b]) rest e)\<lparr>e_prefix := (e_prefix e)\<lparr>p_lock := True\<rparr>\<rparr> = before (encode_modrm reg am @ [b]) rest ?e"
    by (simp add: before_def)
  ultimately show thesis using that [of "e1\<lparr>e_seg := am_seg (p_seg (e_prefix e)) am\<rparr>"] e1(1) m d(7) assms(6)
    by (simp add: emu_0f_ba_def no_rep_lock_def kept_def)
qed

text \<open>
  C30: the bit instructions do not see memory. On the encoding of BT, BTS, BTR or BTC with an immediate bit number and a
  memory operand that can be read, the emulation succeeds; but its result is that of the instruction on a zero operand, and the carry flag is
  cleared, whatever the bytes \<open>buf\<close> in memory are.
\<close>

theorem bit_instructions_ignore_memory:
  fixes s :: "'x eptlock_scheme" and e0 :: "'x emu_env" and pair :: "'x guestmem_hptw_ctx_pair"
  assumes ok: "insn_ok g64 cs_d ps rexo reg am" "reg = 4 \<or> reg = 5 \<or> reg = 6 \<or> reg = 7" "am_mod am \<noteq> 3"
    and len: "length (encode_insn ps rexo [0x0f, 0xba] reg am [b]) < 2 ^ 32"
    and v: "guestmem_init c v = Some pair" "VCPU_g64 v = Some g64" "cs_d \<longleftrightarrow> guest_CS_access_rights (vmcs v) AND push_bit 14 1 \<noteq> 0"
    and seg: "guestmem_desegment v (am_seg (seg_override ps) am) (dst_linear v r (addr_size g64 cs_d ps) am) (op_size g64 cs_d ps rexo)
      HPT_PROT_READ_MASK (ucast (guest_CS_selector (vmcs v) AND 3)) = Some gva"
    and acc: "access_memory_gv v pair \<lparr>ma_hvaddr = op_val operand_zero, ma_gaddr = dst_linear v r (addr_size g64 cs_d ps) am,
      ma_seg = am_seg (seg_override ps) am, ma_size = op_size g64 cs_d ps rexo, ma_mode = HPT_PROT_READ_MASK,
      ma_cpl = ucast (guest_CS_selector (vmcs v) AND 3)\<rparr> s = Some (OK (), buf, s)"
  shows "\<exists>st x. x86_vmx_emulate_instruction xmm0 loc c v r e0 (encode_insn ps rexo [0x0f, 0xba] reg am [b] @ rest)
      (of_nat (length (encode_insn ps rexo [0x0f, 0xba] reg am [b]))) s = Some (OK (), st, s)
    \<and> e_vcpu st = set_carry False v
    \<and> bit_op reg (unat (ucast b mod (op_size g64 cs_d ps rexo * 8) :: u64)) 0 = Some x
    \<and> take 8 (op_val (e_src st)) = le_bytes 8 x \<and> mem_gvaddr (e_dst st) = gva"
proof -
  let ?code = "encode_insn ps rexo [0x0f, 0xba] reg am [b]" and ?bs = "encode_modrm reg am @ [b]"
  define e where "e = emu_start v r pair g64 cs_d"
  have e: "e_vcpu e = v" "e_r e = r" "e_src e = operand_zero" "e_ctx_pair e = pair" "e_seg e = CPU_SEG_UNKNOWN" "e_g64 e = g64"
    "e_cs_d e = cs_d" "e_prefix e = prefix_init" by (simp_all add: e_def emu_start_def)
  have start: "x86_vmx_emulate_instruction xmm0 loc c v r e0 (?code @ rest) (of_nat (length ?code)) s =
      do { e \<leftarrow> parse_prefix (before ?code rest e); parse_opcode_one xmm0 loc e s }"
    unfolding e_def by (rule emulate_start [OF v _ len]) (simp add: encode_insn_def)
  obtain p where p: "parse_prefix (before ?code rest e) = Some (before (0x0f # 0xba # ?bs) rest (e\<lparr>e_prefix := p\<rparr>))"
      "rex_for p reg am" "p_seg p = seg_override ps" "no_rep_lock (e\<lparr>e_prefix := p\<rparr>)"
      "get_operand_size (e\<lparr>e_prefix := p\<rparr>) = op_size g64 cs_d ps rexo" "get_address_size (e\<lparr>e_prefix := p\<rparr>) = addr_size g64 cs_d ps"
    using insn_prefixes [OF ok(1) e(6-8) _ _ len, of rest] by (auto simp: legacy_bytes_def)
  let ?e = "e\<lparr>e_prefix := p\<rparr>"
  have l: "length (0x0f # 0xba # ?bs) < 2 ^ 32" "length (0xba # ?bs) < 2 ^ 32" "length ?bs < 2 ^ 32" using len by (simp_all add: encode_insn_def)
  have run: "parse_opcode_one xmm0 loc (before (0x0f # 0xba # ?bs) rest ?e) s = emu_0f_ba (before ?bs rest ?e) s"
    using of_nat_length_32(1) [OF l(1)] of_nat_length_32(1) [OF l(2)]
    by (simp add: parse_opcode_one_def parse_opcode_two_0f_def del: of_nat_Suc)
  have am: "amode_ok am" "addr_size g64 cs_d ps \<noteq> 2" "\<And>d. am = Absolute d \<Longrightarrow> addr_size g64 cs_d ps \<noteq> 8" "reg < 8"
    using ok(1,2) by (auto simp: insn_ok_def addr_size_def split: amode.splits)
  obtain e' where e': "emu_0f_ba (before ?bs rest ?e) s =
      emu_0f_ba_memory (op_size g64 cs_d ps rexo) (unat (ucast b mod (op_size g64 cs_d ps rexo * 8) :: u64)) 0
        (dst_linear v r (addr_size g64 cs_d ps) am) e' s"
      "kept ?e e'" "modrm_regop (e_postfix e') = reg" "e_seg e' = am_seg (seg_override ps) am"
    using emu_0f_ba_encoded [of ?e reg am b rest s thesis] p am l(3) ok(3) e by simp
  obtain x where x: "bit_op reg (unat (ucast b mod (op_size g64 cs_d ps rexo * 8) :: u64)) 0 = Some x" using ok(2) by (auto simp: bit_op_def)
  have k: "e_vcpu e' = v" "e_ctx_pair e' = pair" "e_src e' = operand_zero" using e'(2) e by (simp_all add: kept_def)
  have "length buf = OPERAND_VAL_LENGTH" using access_memory_read(1) [OF acc] by simp
  then have "\<exists>st. emu_0f_ba_memory (op_size g64 cs_d ps rexo) (unat (ucast b mod (op_size g64 cs_d ps rexo * 8) :: u64)) 0
        (dst_linear v r (addr_size g64 cs_d ps) am) e' s = Some (OK (), st, s) \<and> e_vcpu st = set_carry False (e_vcpu e')
      \<and> take 8 (op_val (e_src st)) = le_bytes 8 x \<and> operand_size (e_src st) = op_size g64 cs_d ps rexo \<and> mem_gvaddr (e_dst st) = gva"
    using seg acc by (intro emu_0f_ba_memory_result [OF e'(3) x k(3)]) (simp_all only: k e'(4) emu_cpl_def)
  then show ?thesis unfolding start p(1) run e'(1) k bind.bind_lunit using x by blast
qed


lemma example_gpa_to_spa:
  assumes "chainmapped s"
  shows "hptw_gpa_to_spa (host_ctx example_pair) s va = Some (take_bit 21 va)"
proof -
  let ?e = "chain_pmeo 1 HPT_TYPE_EPT 1 va"
  have ok: "chain_ok 1 HPT_TYPE_EPT 1" by (simp add: chain_ok_def)
  have "hptw_get_pmeo (guestmem_host_ctx 0x1000) s 1 va = Some ?e"
    using chain_get_pmo [OF chain_host_ctx [OF assms], of va] chain_get_pmeo [OF assms ok, of va] by (simp add: hptw_get_pmeo_def host_ctx_simps)
  moreover have "hpt_pmeo_is_page ?e = Some True" using chain_pmeo_fields(4) [OF ok] by simp
  from hpt_pmeo_va_to_pa_eq [OF this chain_pmeo_fields(5) [OF ok]] have "hpt_pmeo_va_to_pa ?e va = Some (take_bit 21 va)"
    by (simp add: chain_pmeo_def chain_target_def pm_shift_def page_join)
  ultimately show ?thesis by (simp add: hptw_gpa_to_spa_def hptw_va_to_pa_def example_ctx)
qed

lemma example_translates:
  assumes "chainmapped s"
  shows "guest_translates example_emu_vcpu example_pair s cpl 0x1000 8 0x9000"
proof -
  let ?e = "chain_pmeo 5 HPT_TYPE_LONG 1 0x1000"
  have ok: "chain_ok 5 HPT_TYPE_LONG 1" by (simp add: chain_ok_def)
  have "hptw_checked_get_pmeo (guest_ctx example_pair) s HPT_PROT_READ_MASK cpl 0x1000 = Some (OK ?e)"
    using chain_checked [OF chain_guest_ctx [OF assms], of HPT_PROT_READ_MASK cpl "0x1000"] by (simp add: example_ctx guestmem_guest_ctx_def)
  moreover have "hpt_pmeo_va_to_pa ?e 0x1000 = Some 0x9000" "hpt_remaining_on_page ?e 0x9000 = Some 0x1000"
    using hpt_pmeo_va_to_pa_eq [of ?e _ "0x1000"] hpt_remaining_on_page_eq [of ?e "0x9000"] chain_pmeo_fields(4,5) [OF ok, of "0x1000"] chain_lvl_ok [OF ok]
    by (simp_all add: pm_shift_def chain_pmeo_def chain_target_def chain_frame_def)
  moreover have "guest_CR0 (vmcs example_emu_vcpu) AND CR0_PG \<noteq> 0" by (simp add: example_emu_vcpu_def example_vcpu_def)
  ultimately show ?thesis by (simp add: guest_translates_def)
qed

text \<open>\<^verbatim>\<open>btr qword ptr [rdx+0x1000], 1\<close> on data of the guest.\<close>

definition example_data :: eptlock where
  "example_data = example_state\<lparr>mem := store_le chainmap 0x9000 8 0xff\<rparr>"

lemma example_data_chainmapped: "chainmapped example_data"
proof -
  have "store_le chainmap 0x9000 8 0xff a = chainmap a" if "drop_bit 12 a \<le> 8" for a
  proof -
    have "\<not> a - 0x9000 < 8" using that frame_of [of 9 a] by (auto dest: less_trans [of _ 8 "0x1000"])
    then show ?thesis by (simp add: store_le_apply)
  qed
  then show ?thesis by (simp add: chainmapped_def example_data_def)
qed

theorem bit_instructions_ignore_memory_witness:
  "load_le (mem example_data) 0x9000 8 = 0xff
    \<and> (\<exists>st. x86_vmx_emulate_instruction [] 0 0 example_emu_vcpu example_regs example_env
        ([0x48, 0x0f, 0xba, 0xb2, 0x00, 0x10, 0x00, 0x00, 0x01] @ []) 9 example_data = Some (OK (), st, example_data)
      \<and> take 8 (op_val (e_src st)) = le_bytes 8 0 \<and> e_vcpu st = set_carry False example_emu_vcpu)"
proof
  let ?am = "Based 2 [0x00, 0x10, 0x00, 0x00]"
  have code: "encode_insn [] (Some True) [0x0f, 0xba] 6 ?am [1] = [0x48, 0x0f, 0xba, 0xb2, 0x00, 0x10, 0x00, 0x00, 0x01]"
    by (simp add: encode_insn_def encode_modrm_def pack_rex_def pack_233_def am_rm_def disp_mod_def)
  have ok: "insn_ok True False [] (Some True) 6 ?am" by (simp add: insn_ok_def base_ok_def addr_size_def)
  have sz: "addr_size True False [] = 8" "op_size True False [] (Some True) = 8" "am_seg (seg_override []) ?am = CPU_SEG_DS"
    by (simp_all add: addr_size_def op_size_def seg_override_def map_filter_def)
  have lin: "dst_linear example_emu_vcpu example_regs 8 ?am = 0x1000"
    by (simp add: dst_linear_def disp_value_def reg_value_def example_regs_def signed_take_bit_eq_if_negative le_val.simps)
  have cm: "chainmapped (read_locked c example_data)" for c using example_data_chainmapped by (simp add: chainmapped_def)
  have acc: "access_memory_gv example_emu_vcpu example_pair \<lparr>ma_hvaddr = op_val operand_zero, ma_gaddr = 0x1000, ma_seg = CPU_SEG_DS,
      ma_size = 8, ma_mode = HPT_PROT_READ_MASK, ma_cpl = cpl\<rparr> example_data =
    Some (OK (), overlay (op_val operand_zero) 0 (read_bytes (mem example_data) 0x9000 (unat (8 :: u64))), example_data)" for cpl
    using example_gpa_to_spa [OF cm, of _ "0x9000"] example_translates [OF cm]
    by (intro access_page_read [where a = "0x1000" and g = "0x9000"]) (simp_all add: example_data_def example_free example_desegment)
  show "load_le (mem example_data) 0x9000 8 = 0xff" by (simp add: example_data_def load_store_le_same)
  show "\<exists>st. x86_vmx_emulate_instruction [] 0 0 example_emu_vcpu example_regs example_env
        ([0x48, 0x0f, 0xba, 0xb2, 0x00, 0x10, 0x00, 0x00, 0x01] @ []) 9 example_data = Some (OK (), st, example_data)
      \<and> take 8 (op_val (e_src st)) = le_bytes 8 0 \<and> e_vcpu st = set_carry False example_emu_vcpu"
    using bit_instructions_ignore_memory [OF ok _ _ _ example_emu_init, of 1 example_regs "0x1000" example_data _ "[]" 0 example_env "[]"]
      example_desegment acc
    unfolding sz lin code by (auto simp: bit_op_def disp_mod_def)
qed

subsection \<open>The clients\<close>

text \<open>
  The page tables of both contexts are apart from \<open>X\<close>; the bytes of \<open>code\<close> are at the guest virtual address \<open>rip\<close>, for the
  kernel to read, and apart from \<open>X\<close>.
\<close>

definition walks_apart :: "'x guestmem_hptw_ctx_pair \<Rightarrow> 'x eptlock_scheme \<Rightarrow> u64 set \<Rightarrow> bool" where
  "walks_apart pair s X \<longleftrightarrow> tables_apart (host_ctx pair) s X \<and> tables_apart (guest_ctx pair) s X
     \<and> leaves_aligned (host_ctx pair) s \<and> leaves_aligned (guest_ctx pair) s"

definition guest_code :: "'x guestmem_hptw_ctx_pair \<Rightarrow> 'x eptlock_scheme \<Rightarrow> u64 \<Rightarrow> u8 list \<Rightarrow> u64 set \<Rightarrow> bool" where
  "guest_code pair s rip code X \<longleftrightarrow> (\<forall>i < length code. \<exists>p. xlate (guest_ctx pair) s HPT_PROTS_R HPTW_CPL0 (rip + of_nat i) = p
     \<and> p \<noteq> 0 \<and> p \<notin> X \<and> mem s p = code ! i)"

lemma tables_apart_mono: "tables_apart ctx s X \<Longrightarrow> Y \<subseteq> X \<Longrightarrow> tables_apart ctx s Y"
  unfolding tables_apart_def by blast

lemma walks_apart_frame:
  fixes s :: "'x eptlock_scheme" and pair :: "'x guestmem_hptw_ctx_pair"
  assumes init: "guestmem_init c v = Some pair" and w: "walks_apart pair s X" and m: "\<And>a. a \<notin> X \<Longrightarrow> m a = mem s a"
  shows "walks_apart pair (s\<lparr>mem := m\<rparr>) X"
    and "xlate (guest_ctx pair) (s\<lparr>mem := m\<rparr>) access cpl va = xlate (guest_ctx pair) s access cpl va"
proof -
  obtain r t g where h: "host_ctx pair = guestmem_host_ctx r" "guest_ctx pair = guestmem_guest_ctx r t g" and t: "t \<noteq> HPT_TYPE_INVALID"
    by (rule guestmem_init_SomeD [OF init])
  note a = w [unfolded walks_apart_def h]
  have we: "walk_env (guestmem_guest_ctx r t g :: 'x eptlock_scheme hptw_ctx)"
    using guest_linear_env [OF t] by (rule linear_env.axioms(1))
  have pg: "pa2ptr (guestmem_guest_ctx r t g) (s\<lparr>mem := m\<rparr>) = pa2ptr (guestmem_guest_ctx r t g) s"
    using a m by (intro guest_pa2ptr_frame [where X = X]) simp_all
  have ph: "pa2ptr (guestmem_host_ctx r) (s\<lparr>mem := m\<rparr>) = pa2ptr (guestmem_host_ctx r) s" by (rule host_pa2ptr_const)
  show "xlate (guest_ctx pair) (s\<lparr>mem := m\<rparr>) access cpl va = xlate (guest_ctx pair) s access cpl va"
    unfolding h using a m pg by (intro walk_env.xlate_frame [OF we, where X = X]) simp_all
  have "leaves_aligned (guestmem_host_ctx r) (s\<lparr>mem := m\<rparr>) = leaves_aligned (guestmem_host_ctx r) s"
    using a m ph by (intro host.leaves_aligned_frame [where X = X]) simp_all
  moreover have "leaves_aligned (guestmem_guest_ctx r t g) (s\<lparr>mem := m\<rparr>) = leaves_aligned (guestmem_guest_ctx r t g) s"
    using a m pg by (intro walk_env.leaves_aligned_frame [OF we, where X = X]) simp_all
  moreover have "tables_apart (guestmem_host_ctx r) (s\<lparr>mem := m\<rparr>) X" "tables_apart (guestmem_guest_ctx r t g) (s\<lparr>mem := m\<rparr>) X"
    using a m ph pg by (intro tables_apart_frame; simp)+
  ultimately show "walks_apart pair (s\<lparr>mem := m\<rparr>) X" using a unfolding walks_apart_def h by simp
qed

lemma fetch_code:
  fixes s :: "'x eptlock_scheme" and pair :: "'x guestmem_hptw_ctx_pair"
  defines "X \<equiv> \<lambda>inst. buffer inst X86_INST_MAX_LEN"
  assumes init: "guestmem_init c v = Some pair" and free: "\<not> vmx_eptlock_reading s c" "\<not> g_eptlock_write_pending s"
    and w: "walks_apart pair s (X inst)" and code: "guest_code pair s rip code (X inst)" and len: "length code \<le> 15"
  obtains m rest where "guestmem_copy_gv2h pair (s\<lparr>mem := memset (mem s) inst 0 X86_INST_MAX_LEN\<rparr>) HPTW_CPL0 inst rip (of_nat (length code)) =
      Some (s\<lparr>mem := m\<rparr>)" "read_bytes m inst 15 = code @ rest" "\<And>a. a \<notin> X inst \<Longrightarrow> m a = mem s a"
proof -
  let ?m = "memset (mem s) inst 0 X86_INST_MAX_LEN" and ?n = "of_nat (length code) :: u64"
  let ?s = "s\<lparr>mem := ?m\<rparr>" and ?x = "xlate (guest_ctx pair) s HPT_PROTS_R HPTW_CPL0"
  have fr: "?m a = mem s a" if "a \<notin> X inst" for a using that by (simp add: memset_def X_def buffer_def)
  have a: "walks_apart pair ?s (X inst)" using init w fr by (rule walks_apart_frame)
  have x: "xlate (guest_ctx pair) ?s HPT_PROTS_R HPTW_CPL0 va = ?x va" for va using init w fr by (rule walks_apart_frame)
  have un: "unat ?n = length code" using len by (intro unat_of_nat_64) simp
  have sub: "buffer inst ?n \<subseteq> X inst"
    unfolding X_def buffer_def using len un by (auto simp: word_less_nat_alt)
  have ap: "tables_apart (host_ctx pair) ?s (buffer inst ?n)" "tables_apart (guest_ctx pair) ?s (buffer inst ?n)"
    "leaves_aligned (host_ctx pair) ?s" "leaves_aligned (guest_ctx pair) ?s"
    using a by (simp_all add: walks_apart_def tables_apart_mono [OF _ sub])
  have at: "?x (rip + i) \<noteq> 0" "?x (rip + i) \<notin> X inst" "mem s (?x (rip + i)) = code ! unat i" if "i < ?n" for i
  proof -
    have "unat i < length code" using that un by (simp add: word_less_nat_alt)
    moreover have "of_nat (unat i) = i" by simp
    ultimately show "?x (rip + i) \<noteq> 0" "?x (rip + i) \<notin> X inst" "mem s (?x (rip + i)) = code ! unat i"
      using code unfolding guest_code_def by metis+
  qed
  have disj: "xlate (guest_ctx pair) ?s HPT_PROTS_R HPTW_CPL0 (rip + i) \<notin> buffer inst ?n" if "i < ?n" for i
    unfolding x using at(2) [OF that] sub by blast
  have nz: "\<not> (\<exists>i < ?n. xlate (guest_ctx pair) ?s HPT_PROTS_R HPTW_CPL0 (rip + i) = 0)" unfolding x using at(1) by blast
  from copy_gv2h_result [OF init _ _ ap disj] free nz obtain s' where s': "guestmem_copy_gv2h pair ?s HPTW_CPL0 inst rip ?n = Some s'"
      "s' = ?s\<lparr>mem := mem s'\<rparr>" "\<forall>i < ?n. mem s' (inst + i) = ?m (?x (rip + i))" "\<forall>a. a \<notin> buffer inst ?n \<longrightarrow> mem s' a = ?m a"
    unfolding x by (auto split: option.splits)
  have "mem s' (inst + of_nat i) = code ! i" if "i < length code" for i
  proof -
    have i: "of_nat i < ?n" "unat (of_nat i :: u64) = i" using that len by (simp_all add: word_less_nat_alt un unat_of_nat_64)
    then show ?thesis using s'(3) at [OF i(1)] fr by simp
  qed
  then have "take (length code) (read_bytes (mem s') inst 15) = code"
    using len by (intro nth_equalityI) (simp_all add: read_bytes_def)
  then have "read_bytes (mem s') inst 15 = code @ drop (length code) (read_bytes (mem s') inst 15)" by (metis append_take_drop_id)
  moreover have "mem s' a = mem s a" if "a \<notin> X inst" for a
  proof -
    have "a \<notin> buffer inst ?n" using that sub by blast
    then show ?thesis using s'(4) fr [OF that] by simp
  qed
  moreover have "s' = s\<lparr>mem := mem s'\<rparr>" using s'(2) by simp
  moreover from this have "guestmem_copy_gv2h pair ?s HPTW_CPL0 inst rip ?n = Some (s\<lparr>mem := mem s'\<rparr>)" using s'(1) by simp
  ultimately show thesis by (intro that)
qed

text \<open>
  C4: the write that a guest kernel attempts is found in its code. When the bytes of a store instruction are at the guest's
  instruction pointer, through the guest's page tables and the EPT, \<open>xmhf_memprot_emulate_guest_ring0_write\<close> returns the
  value that the instruction stores and its size, with the CPU and the registers as they were; memory changes only in the
  15 bytes of the local instruction buffer, and the EPT lock is free again.
\<close>

theorem ring0_write_correct:
  fixes s :: "'x eptlock_scheme" and ctxt :: "'x emu_env" and pair :: "'x guestmem_hptw_ctx_pair"
  assumes init: "guestmem_init c v = Some pair" and g64: "VCPU_g64 v = Some g64"
    and cs: "cs_d \<longleftrightarrow> guest_CS_access_rights (vmcs v) AND push_bit 14 1 \<noteq> 0" and rip: "VCPU_grip v = Some rip"
    and ok: "store_ok g64 cs_d ps rexo src am" and code: "code = encode_store ps rexo src am" "length code \<le> 15"
    and len: "info_vmexit_instruction_length (vmcs v) = of_nat (length code)"
    and free: "\<not> vmx_eptlock_reading s c" "\<not> g_eptlock_write_pending s"
    and w: "walks_apart pair s (buffer inst X86_INST_MAX_LEN)" and here: "guest_code pair s rip code (buffer inst X86_INST_MAX_LEN)"
    and dst: "dst_of v r (addr_size g64 cs_d ps) (seg_override ps) am (op_size g64 cs_d ps rexo) operand_zero = Some d"
  shows "\<exists>m. xmhf_memprot_emulate_guest_ring0_write xmm0 loc inst c v r ctxt s =
      Some (OK (le_bytes (unat (op_size g64 cs_d ps rexo)) (store_value v r src), op_size g64 cs_d ps rexo), v, r, s\<lparr>mem := m\<rparr>)
    \<and> (\<forall>a. a \<notin> buffer inst X86_INST_MAX_LEN \<longrightarrow> m a = mem s a)"
proof (rule fetch_code [OF init free w here code(2)])
  fix m rest
  let ?n = "op_size g64 cs_d ps rexo" and ?v = "store_value v r src" and ?len = "of_nat (length code) :: u32"
  assume copy: "guestmem_copy_gv2h pair (s\<lparr>mem := memset (mem s) inst 0 X86_INST_MAX_LEN\<rparr>) HPTW_CPL0 inst rip (of_nat (length code)) =
      Some (s\<lparr>mem := m\<rparr>)" and bytes: "read_bytes m inst 15 = code @ rest"
    and fr: "\<And>a. a \<notin> buffer inst X86_INST_MAX_LEN \<Longrightarrow> m a = mem s a"
  have "unat ?len = length code" using code(2) by (simp add: unat_of_nat)
  then have l: "ucast ?len = (of_nat (length code) :: u64)"
    using code(2) by (simp add: unsigned_ucast_eq word_unat_eq_iff unat_of_nat_64 take_bit_nat_eq_self del: unsigned_of_nat)
  have "length (encode_store ps rexo src am) < 2 ^ 32" using code by simp
  from emulate_store [OF ok this init g64 cs, where r = r and ?xmm0.0 = xmm0 and loc = loc and ?e0.0 = ctxt and rest = rest and s = "s\<lparr>mem := m\<rparr>", unfolded dst option.case]
  obtain st where st: "x86_vmx_emulate_instruction xmm0 loc c v r ctxt (code @ rest) ?len (s\<lparr>mem := m\<rparr>) = Some (OK (), st, s\<lparr>mem := m\<rparr>)"
      "store_result v r st ?n ?v d" unfolding code(1) by blast
  have "fetch_and_emulate xmm0 loc inst c v r ctxt s = Some (pair, OK (), st, s\<lparr>mem := m\<rparr>)"
    unfolding fetch_and_emulate_def xmhf_memprot_emulate_guest_instruction_def
    using rip init copy l st(1) bytes by (simp add: len)
  moreover have "operand_size (e_src st) = ?n" "take (unat ?n) (op_val (e_src st)) = le_bytes (unat ?n) ?v" "e_vcpu st = v" "e_r st = r"
    "unat ?n \<le> length (op_val (e_src st))"
    using st(2) by (auto simp: store_result_def holds_value_def op_size_def)
  ultimately show ?thesis using fr by (intro exI [of _ m]) (simp add: xmhf_memprot_emulate_guest_ring0_write_def)
qed

text \<open>The example machine with the instruction at the instruction pointer.\<close>

definition example_code_state :: eptlock where
  "example_code_state = example_state\<lparr>mem := chainmap(0x9100 := 0x48, 0x9101 := 0x89, 0x9102 := 0x41, 0x9103 := 0xf0)\<rparr>"

lemma example_code_chainmapped: "chainmapped example_code_state"
  by (auto simp: chainmapped_def example_code_state_def)

lemma example_walks_apart: "walks_apart example_pair example_code_state (buffer 0x20000 X86_INST_MAX_LEN)"
proof -
  have "0x9000 \<le> a" if "a \<in> buffer 0x20000 X86_INST_MAX_LEN" for a
  proof -
    have d: "unat (a - 0x20000) < 15" using that by (simp add: buffer_def word_less_nat_alt)
    then have "unat (0x20000 + (a - 0x20000)) = 0x20000 + unat (a - 0x20000)" by (subst unat_add_lem [THEN iffD1]) simp_all
    then show ?thesis by (simp add: word_le_nat_alt)
  qed
  note t = chain_tables_apart [OF _ this] and c = example_code_chainmapped
  show ?thesis unfolding walks_apart_def example_ctx
    using t [OF chain_host_ctx [OF c]] t [OF chain_guest_ctx [OF c]]
      chain_leaves_aligned [OF chain_host_ctx [OF c]] chain_leaves_aligned [OF chain_guest_ctx [OF c]] by simp
qed

lemma example_guest_code: "guest_code example_pair example_code_state 0x7fff0100 [0x48, 0x89, 0x41, 0xf0] (buffer 0x20000 X86_INST_MAX_LEN)"
proof -
  have "xlate (guest_ctx example_pair) example_code_state HPT_PROTS_R HPTW_CPL0 va = 0x9000 + take_bit 12 va" for va
    using chain_guest_access [OF example_code_chainmapped, of HPT_PROTS_R HPTW_CPL0 va 1] by (simp add: xlate_def example_ctx)
  then show ?thesis by (auto simp: guest_code_def less_Suc_eq buffer_def example_code_state_def)
qed

theorem ring0_write_correct_witness:
  "\<exists>m. xmhf_memprot_emulate_guest_ring0_write [] 0 0x20000 0 example_emu_vcpu example_regs example_env example_code_state =
    Some (OK ([0x88, 0x77, 0x66, 0x55, 0x44, 0x33, 0x22, 0x11], 8), example_emu_vcpu, example_regs, example_code_state\<lparr>mem := m\<rparr>)"
proof -
  have sz: "op_size True False [] (Some True) = 8" "store_value example_emu_vcpu example_regs (From_Reg 0) = 0x1122334455667788"
    by (simp_all add: op_size_def store_value_def reg_value_def example_regs_def)
  have b: "le_bytes (unat (8 :: u64)) 0x1122334455667788 = [0x88, 0x77, 0x66, 0x55, 0x44, 0x33, 0x22, 0x11]"
    by code_simp
  have v: "VCPU_grip example_emu_vcpu = Some 0x7fff0100" "info_vmexit_instruction_length (vmcs example_emu_vcpu) = 4"
    by (simp_all add: VCPU_grip_def example_emu_vcpu_def example_vcpu_def)
  have "\<not> vmx_eptlock_reading example_code_state 0" "\<not> g_eptlock_write_pending example_code_state"
    using example_free by (simp_all add: example_code_state_def)
  from ring0_write_correct [OF example_emu_init v(1) example_store_ok example_code_bytes [symmetric] _ _ this example_walks_apart
      example_guest_code example_dst, of "[]" 0 example_env]
  show ?thesis unfolding sz b by (auto simp: v(2))
qed

end
