(* ===== verification/Spec2Isabelle.thy ===== *)
theory Spec2Isabelle
  imports Lru EmuProps
begin

text \<open>
  XMHF is a hypervisor for x86: it runs below one guest operating system, keeps its own memory out of the guest's reach with
  nested page tables (EPT on Intel processors), and offers the hypervisor application on top of it access to the memory and the registers of the guest. With
  nested virtualization the guest can run guests of its own. This development models the parts of it that decide which memory is
  accessible to whom, for the 64-bit Intel build, and proves what they guarantee. Paths below are relative to
  \<^verbatim>\<open>xmhf/src/xmhf-core\<close>, or to \<^verbatim>\<open>xmhf/src/libbaremetal/libxmhfutil\<close> for the page-table library.

  \<^bold>\<open>Conventions\<close> (theory \<^verbatim>\<open>Prelude\<close>). A C function that can halt the machine, fail an assertion or meet undefined behaviour is a function into
  \<open>'a exec\<close>, that is \<open>'a option\<close>; \<open>None\<close> stands for any of these. Return codes are \<open>ERR\<close> and \<open>OK x\<close>. Machine integers are words of their width, so arithmetic
  wraps as in C. Memory is a function from 64-bit addresses to bytes; pointers are addresses and NULL is 0; entries of page tables
  are read and written as little-endian words of that memory, so a table can be overwritten by a copy. The state of the machine is the record
  \<open>mach\<close>, extended by each component with its own variables. Loops whose end depends on page tables are \<open>partial_function (option)\<close>,
  and that they come back is proved; no model uses fuel.

  \<^bold>\<open>Page-table library.\<close>
  \<^item> \<^verbatim>\<open>Bitfield\<close>: \<^verbatim>\<open>include/bitfield.h\<close>. \<^verbatim>\<open>HptConsts\<close>: \<^verbatim>\<open>include/hpt_consts.h\<close>.
  \<^item> \<^verbatim>\<open>Hpt\<close>: \<^verbatim>\<open>hpt.c\<close>, the entries of 32-bit, PAE, long-mode and extended page tables. Each accessor is reduced to the bits it
    reads or writes; from that follow that the setters are read back and independent of each other, when the address setter is defined, and a defect of
    PAE entries.
  \<^item> \<^verbatim>\<open>Hpto\<close>: \<^verbatim>\<open>hpto.c\<close>, entries with their type and level.
  \<^item> \<^verbatim>\<open>Hptw\<close>: \<^verbatim>\<open>hptw.c\<close>, walks. A walk is characterized by the relation \<open>hptw_walk\<close>; the
    checked walk grants an access exactly when the conjunction of the rights along the walk includes it.
  \<^item> \<^verbatim>\<open>HptwCopy\<close>: the copies of \<^verbatim>\<open>hptw.c\<close>. The locale \<open>walk_env\<close> (in \<^verbatim>\<open>Hptw\<close>) is the contract between a walk and the context that turns
    physical addresses into pointers; \<open>linear_env\<close> adds that pointers advance with addresses, \<open>walk_env2\<close> is a copy between two contexts. The copies are proved
    correct once in these locales.

  \<^bold>\<open>Hypervisor core.\<close>
  \<^item> \<^verbatim>\<open>Vcpu\<close>: \<^verbatim>\<open>xmhf-baseplatform/arch/x86/bplt-x86.c\<close> and the VMREAD and VMWRITE wrappers of \<^verbatim>\<open>vmx/bplt-x86vmx-vmcs.c\<close>.
  \<^item> \<^verbatim>\<open>Eptlock\<close>: \<^verbatim>\<open>xmhf-memprot/arch/x86/vmx/memp-x86vmx-eptlock.c\<close>. The step relation \<open>lock_step\<close> interleaves the instructions of any
    number of CPUs; mutual exclusion, absence of deadlock and a bound on the wait of a writer are proved of it, and the sequential functions
    used by the other theories are runs of it.
  \<^item> \<^verbatim>\<open>Guestmem\<close>: \<^verbatim>\<open>memp-x86vmx-guestmem.c\<close> and the guest part of \<^verbatim>\<open>hpt_emhf.h\<close>. The context of the EPT interprets
    \<open>linear_env\<close>; that of the guest's page tables, which walks through the EPT, meets it whenever the leaves of the EPT are aligned (\<open>guest_linear_env\<close>).
  \<^item> \<^verbatim>\<open>Memprot\<close>: \<^verbatim>\<open>memp-x86vmx.c\<close>: MTRRs, memory types, construction of the EPT, page protection.
  \<^item> \<^verbatim>\<open>Ept\<close>: what that EPT means to the walker. \<open>ept_filled\<close> specifies every entry of every level; set-up establishes it, MTRR writes keep it, and so does every memory
    write the guest can make through the EPT (\<open>ept_reach\<close>), so that the guest stays confined.
  \<^item> \<^verbatim>\<open>Ept02Flush\<close>: the deferral of flushes of nested EPTs in \<^verbatim>\<open>xmhf-nested/arch/x86/vmx/nested-x86vmx-ept12.c\<close>, with an NMI (\<open>nmi_step\<close>) possible between
    any two statements (\<open>cpu_step\<close>), also while a flush is at work: no request is lost, no flush breaks into another, and unblocking ends. What a flush does to the nested
    EPTs is an argument of the functions.
  \<^item> \<^verbatim>\<open>Lru\<close>: the macros of \<^verbatim>\<open>include/stl/xmhf-lru.h\<close>, refined to a list of keys in order of use, and a defect in the invalidation of single lines.
  \<^item> \<^verbatim>\<open>Emulation\<close>: \<^verbatim>\<open>xmhf-memprot/arch/x86/vmx/x86vmx-emulation.c\<close>, the instruction emulator, and the functions of \<^verbatim>\<open>memp-interface.c\<close>
    that fetch an instruction of the guest and emulate it. \<^verbatim>\<open>EmuDecode\<close> follows the decoder over the output of a reference assembler for the operand
    forms of the processor; \<^verbatim>\<open>EmuFrame\<close> shows, for arbitrary bytes, that the resulting operands are well typed and what stays unchanged; \<^verbatim>\<open>EmuProps\<close> has
    the properties: stores are decoded to the right value and address, the client finds the store at the instruction pointer through both translations, and two
    defects.
  \<^item> \<^verbatim>\<open>Example\<close>: a concrete machine with page tables in memory, on which the hypotheses of the theorems are shown to hold.

  \<^bold>\<open>This theory\<close> holds the properties that span components: the copies between guest and hypervisor deliver exactly the bytes that
  both translations name and change nothing else; each access of the hypervisor on behalf of the guest is granted both by the page tables of the guest and
  by the EPT; translation of addresses; segmentation, with the exact range that the code admits; walks after an insertion or a change of rights; the registers of the guest.

  \<^bold>\<open>Assumptions.\<close> The layout of the EPT tables (\<open>ept_layout\<close>, \<open>ept_owned\<close>, \<open>ept_zeroed\<close>) is the one the linker script and the static arrays of \<^verbatim>\<open>memp-x86vmx-data.c\<close> give:
  page-aligned, disjoint, empty at start and inside the runtime. \<^verbatim>\<open>MAX_PHYS_ADDR\<close>, which the build configures, is a parameter, at most
  \<open>2 ^ 48\<close>. CPUID, RDMSR, INVEPT and INVVPID, the MTRR hook of the hypervisor application and the virtual CPU's hardware VMCS are arguments of the functions that use them. A single
  CPU runs the functions of \<^verbatim>\<open>Guestmem\<close> and \<^verbatim>\<open>Memprot\<close> between acquiring and releasing the lock, as \<^verbatim>\<open>Eptlock\<close> justifies.
  In \<^verbatim>\<open>ept_reach\<close> nobody calls \<^verbatim>\<open>xmhf_memprot_setprot\<close>, which the application uses to change rights and which is treated on its own.

  \<^bold>\<open>Not modelled.\<close> Boot loaders, secure loader, SMP start-up, interrupt and exception entry, and partition set-up are assembly and device programming without a
  functional content to state. DMA protection, APIC and TPM access, and serial output are device input and output. The intercept handlers of
  \<^verbatim>\<open>xmhf-eventhub\<close>, the VMCS translation and the emulation of VMX instructions for nested virtualization consist mostly of field-by-field transcriptions of the
  processor manual, for which the sources give no contract to prove against. The AMD back ends are not built in this configuration. The cryptographic
  and EFI libraries are third-party code, and the hypervisor applications are clients of the interfaces above.
\<close>

unbundle bit_operations_syntax

section \<open>Access to guest memory\<close>

text \<open>
  C10: a copy from guest physical memory. On a free lock, with the destination outside the EPT and outside the
  bytes that are read, \<open>guestmem_copy_gp2h\<close> comes back exactly when every byte is granted (\<open>byte_granted\<close>); then the \<open>len\<close> bytes at \<open>dst\<close> are
  the bytes that the EPT maps at \<open>src\<close> for reading, every other byte of memory and the lock are as before. Otherwise it halts.
\<close>

theorem guestmem_copy_gp2h_correct:
  fixes s :: "'x eptlock_scheme"
  assumes init: "guestmem_init c v = Some pair"
    and free: "\<not> vmx_eptlock_reading s c" "\<not> g_eptlock_write_pending s"
    and apart: "tables_apart (host_ctx pair) s (buffer dst len)" and al: "leaves_aligned (host_ctx pair) s"
    and disj: "\<And>i. i < len \<Longrightarrow> xlate (host_ctx pair) s HPT_PROTS_R cpl (src + i) \<notin> buffer dst len"
  shows "case guestmem_copy_gp2h pair s cpl dst src len of
      None \<Rightarrow> \<exists>i < len. \<not> byte_granted (host_ctx pair) s HPT_PROTS_R cpl (src + i)
    | Some s' \<Rightarrow> s' = s\<lparr>mem := mem s'\<rparr> \<and> (\<forall>i < len. byte_granted (host_ctx pair) s HPT_PROTS_R cpl (src + i))
        \<and> (\<forall>i < len. mem s' (dst + i) = mem s (xlate (host_ctx pair) s HPT_PROTS_R cpl (src + i)))
        \<and> (\<forall>a. a \<notin> buffer dst len \<longrightarrow> mem s' a = mem s a)"
proof (rule guestmem_init_SomeD [OF init])
  fix r t g assume h: "host_ctx pair = guestmem_host_ctx r" and c: "pair_vcpu pair = c"
  obtain ret m' where op: "hptw_checked_copy_from_va (host_ctx pair) (read_locked c s) cpl dst src len =
        Some (ret, (read_locked c s)\<lparr>mem := m'\<rparr>)"
    and "\<forall>a. a \<notin> buffer dst len \<longrightarrow> m' a = mem s a"
      "ret = OK () \<longrightarrow> (\<forall>i < len. m' (dst + i) = mem s (xlate (host_ctx pair) s HPT_PROTS_R cpl (src + i)))"
      "ret = OK () \<longleftrightarrow> (\<forall>i < len. xlate (host_ctx pair) s HPT_PROTS_R cpl (src + i) \<noteq> 0)"
    using copy_from_locked [OF host_copy_ctx [of r], of s dst len cpl src c] apart al disj host_pa2ptr_const
    unfolding h by blast
  then show ?thesis
    using locked_op [OF free, of "\<lambda>s. hptw_checked_copy_from_va (host_ctx pair) s cpl dst src len" ret m']
    by (auto simp: guestmem_copy_gp2h_def c h host.byte_granted_iff)
qed

theorem guestmem_copy_gp2h_correct_witness:
  "\<exists>s'. guestmem_copy_gp2h example_pair example_state 0 0x20000 0x4ffe 4 = Some s' \<and> mem s' 0x20002 = mem example_state 0x5000"
proof -
  have x: "xlate (host_ctx example_pair) example_state HPT_PROTS_R 0 (0x4ffe + i) = 0x4ffe + i" if "i < 4" for i :: u64
    using that example_xlate(1) [of HPT_PROTS_R 0] by (auto simp: word_lt_4)
  have "case guestmem_copy_gp2h example_pair example_state 0 0x20000 0x4ffe 4 of
      None \<Rightarrow> \<exists>i < 4. \<not> byte_granted (host_ctx example_pair) example_state HPT_PROTS_R 0 (0x4ffe + i)
    | Some s' \<Rightarrow> s' = example_state\<lparr>mem := mem s'\<rparr> \<and> (\<forall>i < 4. byte_granted (host_ctx example_pair) example_state HPT_PROTS_R 0 (0x4ffe + i))
        \<and> (\<forall>i < 4. mem s' (0x20000 + i) = mem example_state (xlate (host_ctx example_pair) example_state HPT_PROTS_R 0 (0x4ffe + i)))
        \<and> (\<forall>a. a \<notin> buffer 0x20000 4 \<longrightarrow> mem s' a = mem example_state a)"
  proof (rule guestmem_copy_gp2h_correct [OF example_init])
    show "tables_apart (host_ctx example_pair) example_state (buffer 0x20000 4)"
      by (rule example_apart) (auto simp: example_buffer)
    show "xlate (host_ctx example_pair) example_state HPT_PROTS_R 0 (0x4ffe + i) \<notin> buffer 0x20000 4" if "i < 4" for i
      unfolding x [OF that] using that by (auto simp: example_buffer word_lt_4)
  qed (simp_all add: example_free example_aligned)
  moreover have "0x4ffe + i \<noteq> 0" if "i < 4" for i :: u64 using that by (auto simp: word_lt_4)
  ultimately show ?thesis using x [of 2] x by (auto simp: example_granted split: option.splits dest: spec [of _ 2])
qed


text \<open>
  C2: a copy from guest virtual memory. The same for \<open>guestmem_copy_gv2h\<close>, where an address goes through the page tables
  of the guest, and every address that the walk of those tables reads, as well as the result, through the EPT: it comes back exactly when both
  translations grant every byte at the privilege level \<open>cpl\<close>, with these bytes at \<open>dst\<close> and nothing else changed.
\<close>

theorem guestmem_copy_gv2h_correct:
  fixes s :: "'x eptlock_scheme"
  assumes init: "guestmem_init c v = Some pair"
    and free: "\<not> vmx_eptlock_reading s c" "\<not> g_eptlock_write_pending s"
    and apart: "tables_apart (host_ctx pair) s (buffer dst len)" "tables_apart (guest_ctx pair) s (buffer dst len)"
    and al: "leaves_aligned (host_ctx pair) s" "leaves_aligned (guest_ctx pair) s"
    and disj: "\<And>i. i < len \<Longrightarrow> xlate (guest_ctx pair) s HPT_PROTS_R cpl (src + i) \<notin> buffer dst len"
  shows "case guestmem_copy_gv2h pair s cpl dst src len of
      None \<Rightarrow> \<exists>i < len. \<not> byte_granted (guest_ctx pair) s HPT_PROTS_R cpl (src + i)
    | Some s' \<Rightarrow> s' = s\<lparr>mem := mem s'\<rparr> \<and> (\<forall>i < len. byte_granted (guest_ctx pair) s HPT_PROTS_R cpl (src + i))
        \<and> (\<forall>i < len. mem s' (dst + i) = mem s (xlate (guest_ctx pair) s HPT_PROTS_R cpl (src + i)))
        \<and> (\<forall>a. a \<notin> buffer dst len \<longrightarrow> mem s' a = mem s a)"
proof (rule guestmem_init_SomeD [OF init])
  fix r t g assume h: "guest_ctx pair = guestmem_guest_ctx r t g" and t: "t \<noteq> HPT_TYPE_INVALID"
  show ?thesis using copy_gv2h_result [OF assms] unfolding h linear_env.byte_granted_iff [OF guest_linear_env [OF t]] by (simp split: option.splits)
qed

theorem guestmem_copy_gv2h_correct_witness:
  "\<exists>s'. guestmem_copy_gv2h example_pair example_state 3 0x20000 0x7fff0123 4 = Some s' \<and> mem s' 0x20002 = mem example_state 0x9125"
proof -
  have x: "xlate (guest_ctx example_pair) example_state HPT_PROTS_R 3 (0x7fff0123 + i) = 0x9123 + i" if "i < 4" for i :: u64
    using that example_xlate(2) [of HPT_PROTS_R 3] by (auto simp: word_lt_4)
  have "case guestmem_copy_gv2h example_pair example_state 3 0x20000 0x7fff0123 4 of
      None \<Rightarrow> \<exists>i < 4. \<not> byte_granted (guest_ctx example_pair) example_state HPT_PROTS_R 3 (0x7fff0123 + i)
    | Some s' \<Rightarrow> s' = example_state\<lparr>mem := mem s'\<rparr> \<and> (\<forall>i < 4. byte_granted (guest_ctx example_pair) example_state HPT_PROTS_R 3 (0x7fff0123 + i))
        \<and> (\<forall>i < 4. mem s' (0x20000 + i) = mem example_state (xlate (guest_ctx example_pair) example_state HPT_PROTS_R 3 (0x7fff0123 + i)))
        \<and> (\<forall>a. a \<notin> buffer 0x20000 4 \<longrightarrow> mem s' a = mem example_state a)"
  proof (rule guestmem_copy_gv2h_correct [OF example_init])
    show "tables_apart (host_ctx example_pair) example_state (buffer 0x20000 4)"
      "tables_apart (guest_ctx example_pair) example_state (buffer 0x20000 4)"
      by (rule example_apart, auto simp: example_buffer)+
    show "xlate (guest_ctx example_pair) example_state HPT_PROTS_R 3 (0x7fff0123 + i) \<notin> buffer 0x20000 4" if "i < 4" for i
      unfolding x [OF that] using that by (auto simp: example_buffer word_lt_4)
  qed (simp_all add: example_free example_aligned)
  moreover have "0x9123 + i \<noteq> 0" if "i < 4" for i :: u64 using that by (auto simp: word_lt_4)
  ultimately show ?thesis using x [of 2] x by (auto simp: example_granted split: option.splits dest: spec [of _ 2])
qed

text \<open>
  C11: a copy to guest physical memory. \<open>guestmem_copy_h2gp\<close> changes no byte except those that the EPT maps at
  \<open>dst\<close> for writing, and comes back exactly when each of them is granted; then the bytes there are those at \<open>src\<close>
  (when no two of the addresses are mapped to the same byte).
\<close>

theorem guestmem_copy_h2gp_correct:
  fixes s :: "'x eptlock_scheme"
  assumes init: "guestmem_init c v = Some pair"
    and free: "\<not> vmx_eptlock_reading s c" "\<not> g_eptlock_write_pending s"
    and apart: "tables_apart (host_ctx pair) s (write_targets (host_ctx pair) s cpl dst len)"
    and al: "leaves_aligned (host_ctx pair) s"
    and disj: "\<And>i. i < len \<Longrightarrow> src + i \<notin> write_targets (host_ctx pair) s cpl dst len"
  shows "case guestmem_copy_h2gp pair s cpl dst src len of
      None \<Rightarrow> \<exists>i < len. \<not> byte_granted (host_ctx pair) s HPT_PROTS_W cpl (dst + i)
    | Some s' \<Rightarrow> s' = s\<lparr>mem := mem s'\<rparr> \<and> (\<forall>i < len. byte_granted (host_ctx pair) s HPT_PROTS_W cpl (dst + i))
        \<and> (inj_on (\<lambda>i. xlate (host_ctx pair) s HPT_PROTS_W cpl (dst + i)) {..<len} \<longrightarrow>
            (\<forall>i < len. mem s' (xlate (host_ctx pair) s HPT_PROTS_W cpl (dst + i)) = mem s (src + i)))
        \<and> (\<forall>a. a \<notin> write_targets (host_ctx pair) s cpl dst len \<longrightarrow> mem s' a = mem s a)"
proof (rule guestmem_init_SomeD [OF init])
  fix r t g assume h: "host_ctx pair = guestmem_host_ctx r" and c: "pair_vcpu pair = c"
  obtain ret m' where op: "hptw_checked_copy_to_va (host_ctx pair) (read_locked c s) cpl dst src len =
        Some (ret, (read_locked c s)\<lparr>mem := m'\<rparr>)"
    and "\<forall>a. a \<notin> write_targets (host_ctx pair) s cpl dst len \<longrightarrow> m' a = mem s a"
      "ret = OK () \<longrightarrow> inj_on (\<lambda>i. xlate (host_ctx pair) s HPT_PROTS_W cpl (dst + i)) {..<len} \<longrightarrow>
        (\<forall>i < len. m' (xlate (host_ctx pair) s HPT_PROTS_W cpl (dst + i)) = mem s (src + i))"
      "ret = OK () \<longleftrightarrow> (\<forall>i < len. xlate (host_ctx pair) s HPT_PROTS_W cpl (dst + i) \<noteq> 0)"
    using copy_to_locked [OF host_copy_ctx [of r], of s cpl dst len src c] apart al disj host_pa2ptr_const
    unfolding h by blast
  then show ?thesis
    using locked_op [OF free, of "\<lambda>s. hptw_checked_copy_to_va (host_ctx pair) s cpl dst src len" ret m']
    by (auto simp: guestmem_copy_h2gp_def c h host.byte_granted_iff)
qed

theorem guestmem_copy_h2gp_correct_witness:
  "\<exists>s'. guestmem_copy_h2gp example_pair example_state 0 0x9ffe 0x20000 4 = Some s' \<and> mem s' 0xa000 = mem example_state 0x20002"
proof -
  have x: "xlate (host_ctx example_pair) example_state HPT_PROTS_W 0 (0x9ffe + i) = 0x9ffe + i" if "i < 4" for i :: u64
    using that example_xlate(1) [of HPT_PROTS_W 0] by (auto simp: word_lt_4)
  have t: "write_targets (host_ctx example_pair) example_state 0 0x9ffe 4 = buffer 0x9ffe 4" by (rule example_targets [OF x])
  have "case guestmem_copy_h2gp example_pair example_state 0 0x9ffe 0x20000 4 of
      None \<Rightarrow> \<exists>i < 4. \<not> byte_granted (host_ctx example_pair) example_state HPT_PROTS_W 0 (0x9ffe + i)
    | Some s' \<Rightarrow> s' = example_state\<lparr>mem := mem s'\<rparr> \<and> (\<forall>i < 4. byte_granted (host_ctx example_pair) example_state HPT_PROTS_W 0 (0x9ffe + i))
        \<and> (inj_on (\<lambda>i. xlate (host_ctx example_pair) example_state HPT_PROTS_W 0 (0x9ffe + i)) {..<4} \<longrightarrow>
            (\<forall>i < 4. mem s' (xlate (host_ctx example_pair) example_state HPT_PROTS_W 0 (0x9ffe + i)) = mem example_state (0x20000 + i)))
        \<and> (\<forall>a. a \<notin> write_targets (host_ctx example_pair) example_state 0 0x9ffe 4 \<longrightarrow> mem s' a = mem example_state a)"
  proof (rule guestmem_copy_h2gp_correct [OF example_init])
    show "tables_apart (host_ctx example_pair) example_state (write_targets (host_ctx example_pair) example_state 0 0x9ffe 4)"
      by (rule example_apart) (auto simp: t example_buffer)
    show "0x20000 + i \<notin> write_targets (host_ctx example_pair) example_state 0 0x9ffe 4" if "i < 4" for i
      using that by (auto simp: t example_buffer word_lt_4)
  qed (simp_all add: example_free example_aligned)
  moreover have "inj_on (\<lambda>i. xlate (host_ctx example_pair) example_state HPT_PROTS_W 0 (0x9ffe + i)) {..<4}"
    by (rule inj_onI) (simp add: x)
  moreover have "0x9ffe + i \<noteq> 0" if "i < 4" for i :: u64 using that by (auto simp: word_lt_4)
  ultimately show ?thesis using x [of 2] x by (auto simp: example_granted split: option.splits dest: spec [of _ 2])
qed

text \<open>
  C3: a copy to guest virtual memory, the same for \<open>guestmem_copy_h2gv\<close>: no byte changes except those that the page tables of the guest
  and then the EPT map for writing at the privilege level \<open>cpl\<close>, and it comes back exactly when each of them is granted.
\<close>

theorem guestmem_copy_h2gv_correct:
  fixes s :: "'x eptlock_scheme"
  assumes init: "guestmem_init c v = Some pair"
    and free: "\<not> vmx_eptlock_reading s c" "\<not> g_eptlock_write_pending s"
    and apart: "tables_apart (host_ctx pair) s (write_targets (guest_ctx pair) s cpl dst len)"
      "tables_apart (guest_ctx pair) s (write_targets (guest_ctx pair) s cpl dst len)"
    and al: "leaves_aligned (host_ctx pair) s" "leaves_aligned (guest_ctx pair) s"
    and disj: "\<And>i. i < len \<Longrightarrow> src + i \<notin> write_targets (guest_ctx pair) s cpl dst len"
  shows "case guestmem_copy_h2gv pair s cpl dst src len of
      None \<Rightarrow> \<exists>i < len. \<not> byte_granted (guest_ctx pair) s HPT_PROTS_W cpl (dst + i)
    | Some s' \<Rightarrow> s' = s\<lparr>mem := mem s'\<rparr> \<and> (\<forall>i < len. byte_granted (guest_ctx pair) s HPT_PROTS_W cpl (dst + i))
        \<and> (inj_on (\<lambda>i. xlate (guest_ctx pair) s HPT_PROTS_W cpl (dst + i)) {..<len} \<longrightarrow>
            (\<forall>i < len. mem s' (xlate (guest_ctx pair) s HPT_PROTS_W cpl (dst + i)) = mem s (src + i)))
        \<and> (\<forall>a. a \<notin> write_targets (guest_ctx pair) s cpl dst len \<longrightarrow> mem s' a = mem s a)"
proof (rule guestmem_init_SomeD [OF init])
  fix r t g assume h: "host_ctx pair = guestmem_host_ctx r" "guest_ctx pair = guestmem_guest_ctx r t g"
    and t: "t \<noteq> HPT_TYPE_INVALID" and c: "pair_vcpu pair = c"
  have pa: "pa2ptr (guestmem_guest_ctx r t g) (s\<lparr>mem := m\<rparr>) = pa2ptr (guestmem_guest_ctx r t g) s"
    if "\<And>a. a \<notin> write_targets (guestmem_guest_ctx r t g) s cpl dst len \<Longrightarrow> m a = mem s a" for m
    using apart(1) that unfolding h by (rule guest_pa2ptr_frame)
  obtain ret m' where op: "hptw_checked_copy_to_va (guest_ctx pair) (read_locked c s) cpl dst src len =
        Some (ret, (read_locked c s)\<lparr>mem := m'\<rparr>)"
    and "\<forall>a. a \<notin> write_targets (guest_ctx pair) s cpl dst len \<longrightarrow> m' a = mem s a"
      "ret = OK () \<longrightarrow> inj_on (\<lambda>i. xlate (guest_ctx pair) s HPT_PROTS_W cpl (dst + i)) {..<len} \<longrightarrow>
        (\<forall>i < len. m' (xlate (guest_ctx pair) s HPT_PROTS_W cpl (dst + i)) = mem s (src + i))"
      "ret = OK () \<longleftrightarrow> (\<forall>i < len. xlate (guest_ctx pair) s HPT_PROTS_W cpl (dst + i) \<noteq> 0)"
    using copy_to_locked [OF guest_copy_ctx [OF t, of r g], of s cpl dst len src c] apart al disj pa
    unfolding h by blast
  then show ?thesis
    using locked_op [OF free, of "\<lambda>s. hptw_checked_copy_to_va (guest_ctx pair) s cpl dst src len" ret m']
    by (auto simp: guestmem_copy_h2gv_def c h linear_env.byte_granted_iff [OF guest_linear_env [OF t]])
qed


theorem guestmem_copy_h2gv_correct_witness:
  "\<exists>s'. guestmem_copy_h2gv example_pair example_state 3 0x7fff0ff0 0x20000 4 = Some s' \<and> mem s' 0x9ff2 = mem example_state 0x20002"
proof -
  have x: "xlate (guest_ctx example_pair) example_state HPT_PROTS_W 3 (0x7fff0ff0 + i) = 0x9ff0 + i" if "i < 4" for i :: u64
    using that example_xlate(2) [of HPT_PROTS_W 3] by (auto simp: word_lt_4)
  have t: "write_targets (guest_ctx example_pair) example_state 3 0x7fff0ff0 4 = buffer 0x9ff0 4" by (rule example_targets [OF x])
  have "case guestmem_copy_h2gv example_pair example_state 3 0x7fff0ff0 0x20000 4 of
      None \<Rightarrow> \<exists>i < 4. \<not> byte_granted (guest_ctx example_pair) example_state HPT_PROTS_W 3 (0x7fff0ff0 + i)
    | Some s' \<Rightarrow> s' = example_state\<lparr>mem := mem s'\<rparr> \<and> (\<forall>i < 4. byte_granted (guest_ctx example_pair) example_state HPT_PROTS_W 3 (0x7fff0ff0 + i))
        \<and> (inj_on (\<lambda>i. xlate (guest_ctx example_pair) example_state HPT_PROTS_W 3 (0x7fff0ff0 + i)) {..<4} \<longrightarrow>
            (\<forall>i < 4. mem s' (xlate (guest_ctx example_pair) example_state HPT_PROTS_W 3 (0x7fff0ff0 + i)) = mem example_state (0x20000 + i)))
        \<and> (\<forall>a. a \<notin> write_targets (guest_ctx example_pair) example_state 3 0x7fff0ff0 4 \<longrightarrow> mem s' a = mem example_state a)"
  proof (rule guestmem_copy_h2gv_correct [OF example_init])
    show "tables_apart (host_ctx example_pair) example_state (write_targets (guest_ctx example_pair) example_state 3 0x7fff0ff0 4)"
      "tables_apart (guest_ctx example_pair) example_state (write_targets (guest_ctx example_pair) example_state 3 0x7fff0ff0 4)"
      by (rule example_apart, auto simp: t example_buffer)+
    show "0x20000 + i \<notin> write_targets (guest_ctx example_pair) example_state 3 0x7fff0ff0 4" if "i < 4" for i
      using that by (auto simp: t example_buffer word_lt_4)
  qed (simp_all add: example_free example_aligned)
  moreover have "inj_on (\<lambda>i. xlate (guest_ctx example_pair) example_state HPT_PROTS_W 3 (0x7fff0ff0 + i)) {..<4}"
    by (rule inj_onI) (simp add: x)
  moreover have "0x9ff0 + i \<noteq> 0" if "i < 4" for i :: u64 using that by (auto simp: word_lt_4)
  ultimately show ?thesis using x [of 2] x by (auto simp: example_granted split: option.splits dest: spec [of _ 2])
qed

text \<open>
  C9: no access without both grants. A byte that \<open>hptw_checked_access_va\<close> grants on the guest context is mapped
  by a leaf of the page tables of the guest to a guest physical address that a leaf of the EPT maps to the byte; the rights that all
  entries on the way grant together include the requested ones, in both tables, and also the user right when the access
  is not one of the supervisor.
\<close>

theorem guest_access_granted_twice:
  fixes s :: "'x eptlock_scheme"
  assumes init: "guestmem_init c v = Some pair"
    and acc: "hptw_checked_access_va (guest_ctx pair) s access cpl va sz = Some (p, n)" "j < n"
    and al: "leaves_aligned (host_ctx pair) s" "leaves_aligned (guest_ctx pair) s"
  shows "\<exists>e ga h P u P' u'.
      hptw_checked_get_pmeo (guest_ctx pair) s access cpl (va + j) = Some (OK e) \<and> hpt_pmeo_va_to_pa e (va + j) = Some ga
    \<and> hptw_checked_get_pmeo (host_ctx pair) s access cpl ga = Some (OK h) \<and> hpt_pmeo_va_to_pa h ga = Some (p + j)
    \<and> hptw_get_effective_prots (guest_ctx pair) s (va + j) = Some (P, u) \<and> access AND P = access
    \<and> hptw_get_effective_prots (host_ctx pair) s ga = Some (P', u') \<and> access AND P' = access
    \<and> (cpl = HPTW_CPL0 \<or> u = Some True \<and> u' = Some True)"
proof (rule guestmem_init_SomeD [OF init])
  fix r t g assume h: "host_ctx pair = guestmem_host_ctx r" "guest_ctx pair = guestmem_guest_ctx r t g"
    and t: "t \<noteq> HPT_TYPE_INVALID"
  have "hptw_checked_access_va (guest_ctx pair) s access cpl (va + j) 1 = Some (p + j, 1)"
    using linear_env.access_linear [OF guest_linear_env [OF t] acc [unfolded h] al(2) [unfolded h] al(1) [unfolded h]]
    unfolding h by (rule conjunct1)
  then obtain e ga k where e: "hptw_checked_get_pmeo (guest_ctx pair) s access cpl (va + j) = Some (OK e)"
      "hpt_pmeo_va_to_pa e (va + j) = Some ga"
    and ga: "hptw_checked_access_va (host_ctx pair) s access cpl ga k = Some (p + j, 1)"
    unfolding h by (rule granted_leaf) (simp only: ctx_pa2ptr)
  from ga obtain h where h': "hptw_checked_get_pmeo (host_ctx pair) s access cpl ga = Some (OK h)"
      "hpt_pmeo_va_to_pa h ga = Some (p + j)"
    unfolding h by (rule granted_leaf) (simp add: ctx_pa2ptr)
  obtain P u P' u' where eff: "hptw_get_effective_prots (guest_ctx pair) s (va + j) = Some (P, u)"
      "hptw_get_effective_prots (host_ctx pair) s ga = Some (P', u')"
    using walk_env.effective_prots_total [OF linear_env.axioms(1) [OF guest_linear_env [OF t]], of r g s "va + j"]
      host.effective_prots_total [of r s ga] unfolding h by force
  show ?thesis
    using e h' eff checked_OK_effective [OF e(1) eff(1)] checked_OK_effective [OF h'(1) eff(2)] by blast
qed

theorem guest_access_granted_twice_witness:
  "\<exists>e ga h P u P' u'.
      hptw_checked_get_pmeo (guest_ctx example_pair) example_state HPT_PROTS_W 3 (0x7fff0ffe + 1) = Some (OK e)
    \<and> hpt_pmeo_va_to_pa e (0x7fff0ffe + 1) = Some ga
    \<and> hptw_checked_get_pmeo (host_ctx example_pair) example_state HPT_PROTS_W 3 ga = Some (OK h)
    \<and> hpt_pmeo_va_to_pa h ga = Some (0x9ffe + 1)
    \<and> hptw_get_effective_prots (guest_ctx example_pair) example_state (0x7fff0ffe + 1) = Some (P, u)
    \<and> HPT_PROTS_W AND P = HPT_PROTS_W
    \<and> hptw_get_effective_prots (host_ctx example_pair) example_state ga = Some (P', u') \<and> HPT_PROTS_W AND P' = HPT_PROTS_W
    \<and> (3 = HPTW_CPL0 \<or> u = Some True \<and> u' = Some True)"
proof (rule guest_access_granted_twice [OF example_init _ _ example_aligned])
  show "hptw_checked_access_va (guest_ctx example_pair) example_state HPT_PROTS_W 3 0x7fff0ffe 8 = Some (0x9ffe, 2)"
    using example_access(2) [of HPT_PROTS_W 3 "0x7fff0ffe" 8] by simp
qed simp

text \<open>
  C21: \<open>guestmem_gpa2spa_page\<close> comes back with \<open>spa\<close> exactly when the guest page is aligned and the EPT maps each
  of its bytes for reading to the byte of the same offset from \<open>spa\<close>.
\<close>

theorem guestmem_gpa2spa_page_correct:
  fixes s :: "'x eptlock_scheme"
  assumes "guestmem_init c v = Some pair" "leaves_aligned (host_ctx pair) s"
  shows "guestmem_gpa2spa_page pair s ga = Some spa \<longleftrightarrow> take_bit 12 ga = 0 \<and> (\<forall>i < PAGE_SIZE_4K.
    hptw_checked_access_va (host_ctx pair) s HPT_PROTS_R HPTW_CPL0 (ga + i) 1 = Some (spa + i, 1))"
proof (rule guestmem_init_SomeD [OF assms(1)])
  fix r assume h: "host_ctx pair = guestmem_host_ctx r"
  show ?thesis using gpa2spa_page_iff [OF h] assms(2) unfolding h by blast
qed

theorem guestmem_gpa2spa_page_correct_witness:
  "guestmem_gpa2spa_page example_pair example_state 0x205000 = Some 0x5000"
proof (rule guestmem_gpa2spa_page_correct [OF example_init example_aligned(1), THEN iffD2], intro conjI allI impI)
  fix i :: u64 assume "i < PAGE_SIZE_4K"
  then show "hptw_checked_access_va (host_ctx example_pair) example_state HPT_PROTS_R HPTW_CPL0 (0x205000 + i) 1 = Some (0x5000 + i, 1)"
    using example_byte [of i "0x205000"] by simp
qed simp

text \<open>
  C20: \<open>guestmem_gpa2spa_size\<close>, the loop over the pages of a range, comes back with \<open>spa\<close> exactly when
  the range is not empty and the EPT maps it for reading to one contiguous range that starts at \<open>spa\<close>. In all other cases
  it stops, and it never runs forever.
\<close>

theorem guestmem_gpa2spa_size_correct:
  fixes s :: "'x eptlock_scheme"
  assumes "guestmem_init c v = Some pair" "leaves_aligned (host_ctx pair) s"
  shows "guestmem_gpa2spa_size pair s ga len = Some spa \<longleftrightarrow> 0 < len \<and> (\<forall>i < len.
    hptw_checked_access_va (host_ctx pair) s HPT_PROTS_R HPTW_CPL0 (ga + i) 1 = Some (spa + i, 1))"
proof (rule guestmem_init_SomeD [OF assms(1)])
  fix r assume h: "host_ctx pair = guestmem_host_ctx r"
  show ?thesis using gpa2spa_size_iff [OF h] assms(2) unfolding h by blast
qed


theorem guestmem_gpa2spa_size_correct_witness:
  "guestmem_gpa2spa_size example_pair example_state 0x4ffe 4 = Some 0x4ffe"
proof (rule guestmem_gpa2spa_size_correct [OF example_init example_aligned(1), THEN iffD2], intro conjI allI impI)
  fix i :: u64 assume "i < 4"
  then show "hptw_checked_access_va (host_ctx example_pair) example_state HPT_PROTS_R HPTW_CPL0 (0x4ffe + i) 1 = Some (0x4ffe + i, 1)"
    using example_access(1) [of HPT_PROTS_R HPTW_CPL0 "0x4ffe + i" 1] by (auto simp: word_lt_4)
qed simp

section \<open>Page-table walks\<close>

text \<open>
  C7: the checked walk refuses exactly what it should. For a context whose callback meets its contract and an access that only a present
  entry can grant, \<open>hptw_checked_get_pmeo\<close> comes back, and it returns the leaf that \<open>hptw_get_pmeo\<close> finds
  exactly when the effective rights that \<open>hptw_get_effective_prots\<close> computes include the access, with the user right for an access of
  the user.
\<close>

theorem hptw_checked_get_pmeo_iff_effective:
  assumes ctx: "walk_env ctx" and acc: "implies_present (ctx_t ctx) access"
  shows "\<exists>P u. hptw_get_effective_prots ctx s va = Some (P, u) \<and>
    (if access AND P = access \<and> (cpl = HPTW_CPL0 \<or> u = Some True)
     then \<exists>e. hptw_checked_get_pmeo ctx s access cpl va = Some (OK e) \<and> hptw_get_pmeo ctx s 1 va = Some e
          \<and> hpt_pmeo_is_page e = Some True \<and> hpt_pmeo_is_present e = Some True
     else hptw_checked_get_pmeo ctx s access cpl va = Some ERR)"
proof -
  obtain P u where "hptw_get_effective_prots ctx s va = Some (P, u)"
    using walk_env.effective_prots_total [OF ctx, of s va] by force
  with checked_get_pmeo_iff_effective [OF this acc, of cpl] show ?thesis by blast
qed

theorem hptw_checked_get_pmeo_iff_effective_witness:
  "\<exists>P u. hptw_get_effective_prots (guestmem_host_ctx 0x1000) example_state 0x2345 = Some (P, u) \<and>
    (if HPT_PROTS_R AND P = HPT_PROTS_R \<and> (HPTW_CPL0 = HPTW_CPL0 \<or> u = Some True)
     then \<exists>e. hptw_checked_get_pmeo (guestmem_host_ctx 0x1000) example_state HPT_PROTS_R HPTW_CPL0 0x2345 = Some (OK e)
          \<and> hptw_get_pmeo (guestmem_host_ctx 0x1000) example_state 1 0x2345 = Some e
          \<and> hpt_pmeo_is_page e = Some True \<and> hpt_pmeo_is_present e = Some True
     else hptw_checked_get_pmeo (guestmem_host_ctx 0x1000) example_state HPT_PROTS_R HPTW_CPL0 0x2345 = Some ERR)"
  by (rule hptw_checked_get_pmeo_iff_effective [OF host.walk_env_axioms])
    (simp add: implies_present_def guestmem_host_ctx_def)

text \<open>
  C12: copies and fills end. Whatever the page tables say, and even when the copy overwrites the tables that it walks, the four checked
  transfers of the walker come back, with success or refusal, and change nothing but memory.
\<close>

theorem hptw_transfers_terminate:
  assumes ctx: "walk_env ctx" "walk_env ctx'"
  shows "(\<exists>r m. hptw_checked_copy_from_va ctx s cpl p va len = Some (r, s\<lparr>mem := m\<rparr>))
    \<and> (\<exists>r m. hptw_checked_copy_to_va ctx s cpl va p len = Some (r, s\<lparr>mem := m\<rparr>))
    \<and> (\<exists>r m. hptw_checked_memset_va ctx s cpl va b len = Some (r, s\<lparr>mem := m\<rparr>))
    \<and> (\<exists>r m. hptw_checked_copy_va_to_va ctx s cpl va ctx' cpl' va' len = Some (r, s\<lparr>mem := m\<rparr>))"
  unfolding hptw_checked_copy_from_va_def hptw_checked_copy_to_va_def hptw_checked_memset_va_def hptw_checked_copy_va_to_va_def
  by (intro conjI walk_env.copy_from_va_total walk_env.copy_to_va_total walk_env.memset_va_total
      walk_env2.copy_va_to_va_total walk_env2.intro ctx)

theorem hptw_transfers_terminate_witness:
  "\<exists>r m. hptw_checked_copy_va_to_va (guest_ctx example_pair) example_state 3 0x1000 (host_ctx example_pair) 0 0x2000 0xffff =
     Some (r, example_state\<lparr>mem := m\<rparr>)"
proof -
  have "walk_env (guest_ctx example_pair)" "walk_env (host_ctx example_pair)"
    unfolding example_ctx by (rule linear_env.axioms(1) [OF guest_linear_env], simp) (rule host.walk_env_axioms)
  from hptw_transfers_terminate [OF this] show ?thesis by blast
qed

text \<open>
  C23: an inserted entry is found. After \<open>hptw_insert_pmeo\<close> succeeded, a walk for the same address stops at the inserted entry,
  provided that no page map above the one written overlaps it.
\<close>

theorem hptw_insert_get:
  assumes "hptw_get_root ctx s = Some (OK root)"
    and "hptw_insert_pmeo ctx s e va = Some (OK (), s')"
    and "\<And>ps p q. descends ctx s va root ps p \<Longrightarrow> q \<in> set ps \<Longrightarrow> pm_region q \<inter> pm_region p = {}"
    and "\<And>m. pa2ptr ctx (s\<lparr>mem := m\<rparr>) = pa2ptr ctx s"
    and "pmeo_t e = ctx_t ctx" "take_bit (8 * pme_size (ctx_t ctx)) (pmeo_pme e) = pmeo_pme e"
  shows "hptw_get_pmeo ctx s' (pmeo_lvl e) va = Some e"
  using assms by (rule insert_pmeo_get)

theorem hptw_insert_get_witness:
  "\<exists>s'. hptw_insert_pmeo (host_ctx example_pair) example_state (chain_pmeo 1 HPT_TYPE_EPT 1 0x7000) 0x3000 = Some (OK (), s')
     \<and> hptw_get_pmeo (host_ctx example_pair) s' 1 0x3000 = Some (chain_pmeo 1 HPT_TYPE_EPT 1 0x7000)"
proof -
  let ?h = "guestmem_host_ctx 0x1000 :: eptlock hptw_ctx" and ?e = "chain_pmeo 1 HPT_TYPE_EPT 1 0x7000"
  have c: "chain_ctx ?h example_state 1" by (rule chain_host_ctx [OF example_chainmapped])
  have t: "ctx_t ?h = HPT_TYPE_EPT" by (simp add: guestmem_host_ctx_def)
  obtain m where "hpt_pmo_set_pme_by_va (mem example_state) (chain_pmo 1 HPT_TYPE_EPT 1) ?e 0x3000 = Some m"
    using example_store by blast
  then have i: "hptw_insert_pmeo ?h example_state ?e 0x3000 = Some (OK (), example_state\<lparr>mem := m\<rparr>)"
    using chain_get_pmo [OF c, of "0x3000"] t chain_frame_nz [of 1 HPT_TYPE_EPT 1]
    by (simp add: hptw_insert_pmeo_def chain_pmeo_def chain_pmo_def chain_ok_def)
  have "hptw_get_pmeo ?h (example_state\<lparr>mem := m\<rparr>) (pmeo_lvl ?e) 0x3000 = Some ?e"
  proof (rule hptw_insert_get [OF chain_root [OF c] i])
    show "pm_region q \<inter> pm_region p = {}"
      if "descends ?h example_state 0x3000 (chain_pmo 1 (ctx_t ?h) 4) ps p" "q \<in> set ps" for ps p q
      by (rule chain_separate [OF c chain_root [OF c] that])
  qed (simp_all add: host_pa2ptr_const chain_pmeo_def t pme_size_def take_bit_word_eq_self)
  then show ?thesis using i unfolding example_ctx by (auto simp: chain_pmeo_def)
qed


text \<open>
  C8: a revoked right is gone. After \<open>hptw_set_prot\<close> the leaf of the address has exactly the rights \<open>prot\<close> and its
  old target, and the checked walk refuses every access that is not within \<open>prot\<close>, whatever the entries above it grant.
\<close>

theorem hptw_set_prot_enforced:
  assumes ctx: "walk_env ctx" and root: "hptw_get_root ctx s = Some (OK root)"
    and set_prot: "hptw_set_prot ctx s va prot = Some s'"
    and sep: "\<And>ps p q. descends ctx s va root ps p \<Longrightarrow> q \<in> set ps \<Longrightarrow> pm_region q \<inter> pm_region p = {}"
    and pa: "\<And>m. pa2ptr ctx (s\<lparr>mem := m\<rparr>) = pa2ptr ctx s"
    and t: "ctx_t ctx \<noteq> HPT_TYPE_NORM"
  shows "(\<exists>e e'. hptw_get_pmeo ctx s 1 va = Some e \<and> hptw_get_pmeo ctx s' 1 va = Some e'
      \<and> hpt_pmeo_getprot e' = Some prot \<and> hpt_pmeo_get_address e' = hpt_pmeo_get_address e)
    \<and> (access AND prot \<noteq> access \<longrightarrow> hptw_checked_get_pmeo ctx s' access cpl va = Some ERR)"
proof -
  obtain e e' where e: "hptw_get_pmeo ctx s 1 va = Some e" "hptw_get_pmeo ctx s' 1 va = Some e'"
    "hpt_pmeo_getprot e' = Some prot" "hpt_pmeo_get_address e' = hpt_pmeo_get_address e"
    using set_prot_get [OF root set_prot _ pa t] sep by blast
  have "hptw_checked_get_pmeo ctx s' access cpl va = Some ERR" if "access AND prot \<noteq> access"
    using that e(2,3) checked_OK_prot [OF ctx, of s' access cpl va]
    by (cases rule: walk_env.checked_get_pmeo_total [OF ctx, of s' access cpl va]) (auto simp: entry_prot_def)
  then show ?thesis using e by blast
qed

theorem hptw_set_prot_enforced_witness:
  "\<exists>s'. hptw_set_prot (host_ctx example_pair) example_state 0x3000 HPT_PROTS_R = Some s'
     \<and> hptw_checked_get_pmeo (host_ctx example_pair) s' HPT_PROTS_W HPTW_CPL0 0x3000 = Some ERR"
proof -
  let ?h = "guestmem_host_ctx 0x1000 :: eptlock hptw_ctx" and ?e = "chain_pmeo 1 HPT_TYPE_EPT 1 0x3000"
  have c: "chain_ctx ?h example_state 1" by (rule chain_host_ctx [OF example_chainmapped])
  have t: "ctx_t ?h = HPT_TYPE_EPT" by (simp add: guestmem_host_ctx_def)
  have ok: "chain_ok 1 HPT_TYPE_EPT 1" by (simp add: chain_ok_def)
  obtain e' where e': "hpt_pmeo_setprot ?e HPT_PROTS_R = Some e'"
    using BR64_SET_HL_total [of 0 2 HPT_PROTS_R "pmeo_pme ?e"]
    by (auto simp: hpt_pmeo_setprot_def hpt_pme_setprot_def hpt_prot_is_valid_def hpt_lvl_is_valid_def chain_pmeo_def bit_simps)
  obtain m where m: "hpt_pmo_set_pme_by_va (mem example_state) (chain_pmo 1 HPT_TYPE_EPT 1) e' 0x3000 = Some m"
    using example_store by blast
  then have i: "hptw_set_prot ?h example_state 0x3000 HPT_PROTS_R = Some (example_state\<lparr>mem := m\<rparr>)"
    using chain_get_pmo [OF c, of "0x3000"] t chain_frame_nz [OF ok] e' chain_get_pmeo [OF example_chainmapped ok, of "0x3000"]
    by (simp add: hptw_set_prot_def chain_pmo_def)
  have "hptw_checked_get_pmeo ?h (example_state\<lparr>mem := m\<rparr>) HPT_PROTS_W HPTW_CPL0 0x3000 = Some ERR"
    using hptw_set_prot_enforced [OF host.walk_env_axioms chain_root [OF c] i _ host_pa2ptr_const, of HPT_PROTS_W HPTW_CPL0]
      chain_separate [OF c chain_root [OF c]] t by auto
  then show ?thesis using i unfolding example_ctx by blast
qed

section \<open>CPU state\<close>

text \<open>
  C22: a checked address in a segment. \<open>guestmem_desegment\<close> of an access of \<open>sz \<le> UINT_MAX\<close> bytes returns an address exactly when, outside 64-bit
  mode, the segment has room for two bytes more than the access and the 32-bit linear addresses for one more, and (for CS, and outside 64-bit mode) the
  access rights of the segment grant the access; the address is base plus offset, and it halts in all other cases. So an access that is admitted lies
  in the segment; but the limit, which is the last offset of the segment, is taken for its size, so that an access to one of the last two
  bytes of a segment halts.
\<close>

theorem guestmem_desegment_correct:
  assumes "VCPU_g64 v = Some g64" "segment_fields (vmcs v) seg = Some (base, ar, limit)" "sz \<le> UINT_MAX"
  shows "(guestmem_desegment v seg addr sz mode cpl = Some x \<longleftrightarrow> x = addr + base
      \<and> (\<not> g64 \<longrightarrow> (\<forall>k < unat sz + 2. unat addr + k \<le> unat limit) \<and> (\<forall>k < unat sz + 1. unat base + unat addr + k < 2 ^ 32))
      \<and> (seg = CPU_SEG_CS \<or> \<not> g64 \<longrightarrow> segment_grants ar mode cpl))
    \<and> (guestmem_desegment v seg addr sz mode cpl = Some x \<and> \<not> g64 \<longrightarrow> in_segment base limit addr (unat sz))
    \<and> (\<not> g64 \<and> unat limit \<le> unat addr + unat sz \<longrightarrow> guestmem_desegment v seg addr sz mode cpl = None)"
  unfolding desegment_iff [OF assms] segment_range_iff [symmetric]
  using segment_range_inside [of base limit addr sz] by (auto simp: segment_range_ok_def)

theorem guestmem_desegment_correct_witness:
  "guestmem_desegment example_protected_vcpu CPU_SEG_DS 0x1000 16 HPT_PROTS_W 3 = Some 0x11000
    \<and> in_segment 0x10000 0xffff 0xfff0 16 \<and> guestmem_desegment example_protected_vcpu CPU_SEG_DS 0xfff0 16 HPT_PROTS_W 3 = None"
proof -
  have v: "VCPU_g64 example_protected_vcpu = Some False"
    "segment_fields (vmcs example_protected_vcpu) CPU_SEG_DS = Some (0x10000, 0xf3, 0xffff)"
    by (simp_all add: VCPU_g64_def segment_fields_def example_protected_vcpu_def example_vcpu_def)
  have "segment_grants 0xf3 HPT_PROTS_W 3" by (simp add: segment_grants_def bit_iff_odd_drop_bit take_bit_eq_mod)
  then show ?thesis using guestmem_desegment_correct [OF v, of 16 "0x1000" HPT_PROTS_W 3 "0x11000"]
      guestmem_desegment_correct [OF v, of 16 "0xfff0" HPT_PROTS_W 3] by (simp add: in_segment_def)
qed

text \<open>
  C27: the controls of a nested guest come back. Disabling the interrupt exits, the preemption timer and the memory bitmaps of the nested
  VMCS, and then enabling them from the saved states in the opposite order, as TrustVisor does around the execution of sensitive code, succeeds and gives back the CPU state unchanged.
\<close>

theorem nested_controls_restored:
  assumes "VCPU_disable_nested_interrupt_exit v = Some (irq, v1)" "VCPU_disable_nested_timer_exit v1 = Some (timer, v2)"
    "VCPU_disable_memory_bitmap v2 = Some (bitmaps, v3)"
  shows "do {
      v2' \<leftarrow> VCPU_enable_memory_bitmap v3 bitmaps;
      v1' \<leftarrow> VCPU_enable_nested_timer_exit v2' timer;
      VCPU_enable_nested_interrupt_exit v1' irq
    } = Some v"
  by (simp add: memory_bitmap_restored [OF assms(3)] timer_exit_restored [OF assms(2)] interrupt_exit_restored [OF assms(1)])

theorem nested_controls_restored_witness:
  "\<exists>irq v1 timer v2 bitmaps v3. VCPU_disable_nested_interrupt_exit example_nested_vcpu = Some (irq, v1)
    \<and> VCPU_disable_nested_timer_exit v1 = Some (timer, v2) \<and> VCPU_disable_memory_bitmap v2 = Some (bitmaps, v3)
    \<and> v3 \<noteq> example_nested_vcpu
    \<and> do { v2' \<leftarrow> VCPU_enable_memory_bitmap v3 bitmaps; v1' \<leftarrow> VCPU_enable_nested_timer_exit v2' timer;
           VCPU_enable_nested_interrupt_exit v1' irq } = Some example_nested_vcpu"
proof -
  let ?v = example_nested_vcpu
  let ?v1 = "?v\<lparr>hw_vmcs := (hw_vmcs ?v)(PIN_BASED \<mapsto> 0x7e)\<rparr>"
  let ?v2 = "?v\<lparr>hw_vmcs := (hw_vmcs ?v)(PIN_BASED \<mapsto> 0x3e, EXIT_CONTROLS \<mapsto> 0x036fff)\<rparr>"
  have 1: "VCPU_disable_nested_interrupt_exit ?v = Some (True, ?v1)"
    by (simp add: VCPU_disable_nested_interrupt_exit_def example_nested_vcpu_def example_vcpu_def vmx_access_defs)
  have 2: "VCPU_disable_nested_timer_exit ?v1 = Some (3, ?v2)"
    by (simp add: VCPU_disable_nested_timer_exit_def example_nested_vcpu_def example_vcpu_def vmx_access_defs)
  obtain b v3 where 3: "VCPU_disable_memory_bitmap ?v2 = Some (b, v3)" "hw_vmcs v3 PIN_BASED = Some 0x3e"
    by (simp add: VCPU_disable_memory_bitmap_def example_nested_vcpu_def example_vcpu_def vmx_access_defs Let_def)
  have "v3 \<noteq> ?v" using 3(2) by (auto simp: example_nested_vcpu_def)
  then show ?thesis using 1 2 3(1) nested_controls_restored [OF 1 2 3(1)] by blast
qed

text \<open>
  C28: the registers of the guest as a register file. A write through \<open>VCPU_reg_set\<close> is read back by \<open>VCPU_reg_get\<close>, and every other
  register reads as before, including the stack pointer, the flags and the instruction pointer, which are kept in the VMCS, the nested VMCS or the VMCB.
\<close>

theorem guest_register_file:
  assumes "VCPU_reg_set v r sel x = Some (v', r')"
  shows "VCPU_reg_get v' r' sel' = (if sel' = sel then Some x else VCPU_reg_get v r sel')"
  using guest_regs.read_written [of "(v, r)" sel x "(v', r')"] guest_regs.read_other [of "(v, r)" sel x "(v', r')" sel'] assms by simp

theorem guest_register_file_witness:
  "\<forall>r. \<exists>v'. VCPU_reg_set example_vcpu r CPU_REG_SP 0x1234 = Some (v', r) \<and> VCPU_reg_get v' r CPU_REG_SP = Some 0x1234"
proof
  fix r :: regs
  obtain v' where "VCPU_reg_set example_vcpu r CPU_REG_SP 0x1234 = Some (v', r)"
    by (auto simp: VCPU_reg_set_def VCPU_grsp_set_def example_vcpu_def)
  then show "\<exists>v'. VCPU_reg_set example_vcpu r CPU_REG_SP 0x1234 = Some (v', r) \<and> VCPU_reg_get v' r CPU_REG_SP = Some 0x1234"
    using guest_register_file [of example_vcpu r CPU_REG_SP "0x1234" v' r CPU_REG_SP] by simp
qed

end
